(* ===== verification/Prelude.thy ===== *)
theory Prelude
  imports Main "HOL-Library.Char_ord" "HOL-Library.List_Lexorder" "HOL-Library.Product_Lexorder"
begin

text \<open>
  What every component of the development shares: the theorem collections, Rust's \<open>Result\<close> as a
  sum type with its \<open>?\<close> operator, the 64-bit conversions and saturating operators of the
  standard library, decimal text (\<open>to_string\<close>, \<open>parse\<close>, SQLite's \<open>CAST\<close>), ASCII case, and the
  statements of SQL over a table held as the list of its rows.
\<close>

named_theorems op_defs "definitions of the operations, for unfolding"
named_theorems result_simps "inversion of results"
named_theorems frame "what an operation leaves as it is"

section \<open>Results\<close>

text \<open>\<open>Inl\<close> is the error, \<open>Inr\<close> the value; \<open>bindR\<close> is the \<open>?\<close> operator and \<open>ensure\<close> is
  anyhow's macro of that name.\<close>

definition bindR :: "'e + 'a \<Rightarrow> ('a \<Rightarrow> 'e + 'b) \<Rightarrow> 'e + 'b" where
  "bindR m f = (case m of Inl e \<Rightarrow> Inl e | Inr x \<Rightarrow> f x)"

definition ensure :: "bool \<Rightarrow> 'e \<Rightarrow> 'e + 'b \<Rightarrow> 'e + 'b" where
  "ensure c e k = (if c then k else Inl e)"

definition ok_or :: "'e \<Rightarrow> 'a option \<Rightarrow> 'e + 'a" where
  "ok_or e x = (case x of None \<Rightarrow> Inl e | Some v \<Rightarrow> Inr v)"

text \<open>A \<open>for\<close> loop whose body may return early with an error, and a \<open>collect\<close> into a result.\<close>

fun foldR :: "('a \<Rightarrow> 's \<Rightarrow> 'e + 's) \<Rightarrow> 'a list \<Rightarrow> 's \<Rightarrow> 'e + 's" where
  "foldR f [] s = Inr s"
| "foldR f (x # xs) s = bindR (f x s) (foldR f xs)"

fun mapR :: "('a \<Rightarrow> 'e + 'b) \<Rightarrow> 'a list \<Rightarrow> 'e + 'b list" where
  "mapR f [] = Inr []"
| "mapR f (x # xs) = bindR (f x) (\<lambda>y. bindR (mapR f xs) (\<lambda>ys. Inr (y # ys)))"

lemma bindR_simps [simp]: "bindR (Inl e) f = Inl e" "bindR (Inr x) f = f x"
  by (simp_all add: bindR_def)

lemma bindR_Inr_iff [result_simps]: "bindR m f = Inr y \<longleftrightarrow> (\<exists>x. m = Inr x \<and> f x = Inr y)"
  by (cases m) auto

lemma bindR_Inl_iff [result_simps]:
  "bindR m f = Inl e \<longleftrightarrow> m = Inl e \<or> (\<exists>x. m = Inr x \<and> f x = Inl e)"
  by (cases m) auto

lemma ensure_Inr_iff [result_simps]: "ensure c e k = Inr y \<longleftrightarrow> c \<and> k = Inr y"
  by (simp add: ensure_def)

lemma ensure_Inl_iff [result_simps]: "ensure c e k = Inl d \<longleftrightarrow> (\<not> c \<and> d = e) \<or> (c \<and> k = Inl d)"
  by (auto simp: ensure_def)

lemma ensure_simps [simp]: "ensure True e k = k" "ensure False e k = Inl e"
  by (simp_all add: ensure_def)

lemma ok_or_Inr_iff [result_simps]: "ok_or e x = Inr v \<longleftrightarrow> x = Some v"
  by (cases x) (simp_all add: ok_or_def)

lemma ok_or_Inl_iff [result_simps]: "ok_or e x = Inl d \<longleftrightarrow> x = None \<and> d = e"
  by (cases x) (auto simp: ok_or_def)

lemma ok_or_simps [simp]: "ok_or e None = Inl e" "ok_or e (Some v) = Inr v"
  by (simp_all add: ok_or_def)

text \<open>An invariant that every iteration keeps holds after the loop.\<close>

lemma foldR_invariant:
  assumes "foldR f xs s = Inr t" and "P s"
    and "\<And>x s s'. x \<in> set xs \<Longrightarrow> P s \<Longrightarrow> f x s = Inr s' \<Longrightarrow> P s'"
  shows "P t"
  using assms
proof (induction xs arbitrary: s)
  case Nil
  then show ?case by simp
next
  case (Cons x xs)
  from Cons.prems(1) obtain s1 where s1: "f x s = Inr s1" and rest: "foldR f xs s1 = Inr t"
    by (auto simp: result_simps)
  have "P s1" using Cons.prems(2,3) s1 by (meson list.set_intros(1))
  then show ?case
    using Cons.IH [OF rest] Cons.prems(3) by (meson list.set_intros(2))
qed

lemma foldR_append [simp]: "foldR f (xs @ ys) s = bindR (foldR f xs s) (foldR f ys)"
  by (induction xs arbitrary: s) (auto simp: bindR_def split: sum.splits)

lemma mapR_Inr_length: "mapR f xs = Inr ys \<Longrightarrow> length ys = length xs"
  by (induction xs arbitrary: ys) (auto simp: result_simps)

lemma mapR_Inr_nth: "mapR f xs = Inr ys \<Longrightarrow> i < length xs \<Longrightarrow> f (xs ! i) = Inr (ys ! i)"
  by (induction xs arbitrary: ys i) (auto simp: result_simps nth_Cons split: nat.splits)

lemma map_option_int_inject [simp]: "map_option int x = map_option int y \<longleftrightarrow> x = y"
  by (cases x; cases y) auto

section \<open>64-bit integers\<close>

text \<open>A \<open>u64\<close> is a \<open>nat\<close> and an \<open>i64\<close> an \<open>int\<close>; what the code does at the ends of their ranges
  is written out: conversions that fail, operators that saturate, operators that check.\<close>

definition u64_max :: nat where "u64_max = 2 ^ 64 - 1"
definition i64_max :: int where "i64_max = 2 ^ 63 - 1"
definition i64_min :: int where "i64_min = - (2 ^ 63)"

text \<open>\<open>i64::try_from\<close> of a \<open>u64\<close>, and back.\<close>

definition i64_try :: "'e \<Rightarrow> nat \<Rightarrow> 'e + int" where
  "i64_try e n = (if int n \<le> i64_max then Inr (int n) else Inl e)"

definition u64_try :: "'e \<Rightarrow> int \<Rightarrow> 'e + nat" where
  "u64_try e i = (if 0 \<le> i then Inr (nat i) else Inl e)"

definition sat_add :: "nat \<Rightarrow> nat \<Rightarrow> nat" where "sat_add a b = min (a + b) u64_max"
definition sat_mul :: "nat \<Rightarrow> nat \<Rightarrow> nat" where "sat_mul a b = min (a * b) u64_max"
definition sat_sub :: "nat \<Rightarrow> nat \<Rightarrow> nat" where "sat_sub a b = a - b"

definition i64_sat_add :: "int \<Rightarrow> int \<Rightarrow> int" where
  "i64_sat_add a b = max i64_min (min (a + b) i64_max)"
definition i64_sat_sub :: "int \<Rightarrow> int \<Rightarrow> int" where
  "i64_sat_sub a b = max i64_min (min (a - b) i64_max)"
definition i64_checked_add :: "int \<Rightarrow> int \<Rightarrow> int option" where
  "i64_checked_add a b = (if i64_min \<le> a + b \<and> a + b \<le> i64_max then Some (a + b) else None)"

lemmas width_defs = u64_max_def i64_max_def i64_min_def

lemma i64_try_Inr_iff [result_simps]: "i64_try e n = Inr i \<longleftrightarrow> i = int n \<and> int n \<le> i64_max"
  by (auto simp: i64_try_def)

lemma i64_try_Inl_iff [result_simps]: "i64_try e n = Inl d \<longleftrightarrow> d = e \<and> i64_max < int n"
  by (auto simp: i64_try_def)

lemma u64_try_Inr_iff [result_simps]: "u64_try e i = Inr n \<longleftrightarrow> 0 \<le> i \<and> n = nat i"
  by (auto simp: u64_try_def)

lemma u64_try_int [simp]: "u64_try e (int n) = Inr n"
  by (simp add: u64_try_def)

lemma i64_checked_add_Some_iff [result_simps]:
  "i64_checked_add a b = Some c \<longleftrightarrow> c = a + b \<and> i64_min \<le> a + b \<and> a + b \<le> i64_max"
  by (auto simp: i64_checked_add_def)

lemma sat_add_mono: "a \<le> a' \<Longrightarrow> b \<le> b' \<Longrightarrow> sat_add a b \<le> sat_add a' b'"
  by (simp add: sat_add_def min_def)

lemma sat_mul_mono: "a \<le> a' \<Longrightarrow> b \<le> b' \<Longrightarrow> sat_mul a b \<le> sat_mul a' b'"
  by (auto simp: sat_mul_def min_def intro: mult_le_mono le_trans)

section \<open>Decimal text\<close>

definition is_digit :: "char \<Rightarrow> bool" where
  "is_digit c = (48 \<le> (of_char c :: nat) \<and> (of_char c :: nat) \<le> 57)"

definition is_space :: "char \<Rightarrow> bool" where
  "is_space c = (c = CHR '' '' \<or> (9 \<le> (of_char c :: nat) \<and> (of_char c :: nat) \<le> 13))"

definition digit_char :: "nat \<Rightarrow> char" where "digit_char d = char_of (48 + d)"
definition digit_value :: "char \<Rightarrow> nat" where "digit_value c = of_char c - 48"

fun show_nat :: "nat \<Rightarrow> string" where
  "show_nat n = (if n < 10 then [digit_char n] else show_nat (n div 10) @ [digit_char (n mod 10)])"

declare show_nat.simps [simp del]

definition show_int :: "int \<Rightarrow> string" where
  "show_int i = (if i < 0 then CHR ''-'' # show_nat (nat (- i)) else show_nat (nat i))"

definition digits_value :: "string \<Rightarrow> nat" where
  "digits_value s = foldl (\<lambda>n c. 10 * n + digit_value c) 0 s"

text \<open>\<open>str::parse\<close> into an unsigned type with the largest value \<open>most\<close>: an optional plus sign and
  at least one digit, in range.\<close>

definition parse_uint :: "nat \<Rightarrow> string \<Rightarrow> nat option" where
  "parse_uint most s =
     (let ds = (case s of c # cs \<Rightarrow> if c = CHR ''+'' then cs else s | [] \<Rightarrow> [])
      in if ds \<noteq> [] \<and> list_all is_digit ds \<and> digits_value ds \<le> most then Some (digits_value ds)
         else None)"

text \<open>SQLite's \<open>CAST(text AS INTEGER)\<close>: leading spaces, a sign and the longest run of digits,
  clamped to 64 bits; 0 when there is no digit.\<close>

definition sql_int :: "string \<Rightarrow> int" where
  "sql_int s =
     (let t = dropWhile is_space s;
          (neg, u) = (case t of c # cs \<Rightarrow> if c = CHR ''-'' then (True, cs)
                                          else if c = CHR ''+'' then (False, cs) else (False, t)
                               | [] \<Rightarrow> (False, []));
          n = int (digits_value (takeWhile is_digit u))
      in if neg then max i64_min (- n) else min n i64_max)"

lemma of_digit_char: "d < 10 \<Longrightarrow> (of_char (digit_char d) :: nat) = 48 + d"
  by (simp add: digit_char_def)

lemma is_digit_digit_char [simp]: "d < 10 \<Longrightarrow> is_digit (digit_char d)"
  by (simp add: is_digit_def of_digit_char)

lemma digit_value_digit_char [simp]: "d < 10 \<Longrightarrow> digit_value (digit_char d) = d"
  by (simp add: digit_value_def of_digit_char)

lemma digits_value_snoc: "digits_value (s @ [c]) = 10 * digits_value s + digit_value c"
  by (simp add: digits_value_def)

lemma show_nat_digits: "list_all is_digit (show_nat n) \<and> show_nat n \<noteq> [] \<and> digits_value (show_nat n) = n"
proof (induction n rule: show_nat.induct)
  case (1 n)
  show ?case
  proof (cases "n < 10")
    case True
    then show ?thesis by (simp add: show_nat.simps [of n] digits_value_def)
  next
    case False
    with "1.IH" show ?thesis
      by (simp add: show_nat.simps [of n] digits_value_snoc)
  qed
qed

lemma show_nat_inject [simp]: "show_nat m = show_nat n \<longleftrightarrow> m = n"
  by (metis show_nat_digits)

lemma show_nat_hd: "\<exists>c cs. show_nat n = c # cs \<and> is_digit c"
  using show_nat_digits [of n] by (cases "show_nat n") auto

lemma takeWhile_all: "list_all P xs \<Longrightarrow> takeWhile P xs = xs"
  by (induction xs) auto

lemma digit_not_sign: "is_digit c \<Longrightarrow> c \<noteq> CHR ''+'' \<and> c \<noteq> CHR ''-''"
  by (auto simp: is_digit_def)

lemma digit_not_space: "is_digit c \<Longrightarrow> \<not> is_space c"
  by (auto simp: is_digit_def is_space_def)

text \<open>Round trips: a number printed and read back is itself.\<close>

lemma parse_uint_show_nat: "n \<le> most \<Longrightarrow> parse_uint most (show_nat n) = Some n"
proof -
  assume n: "n \<le> most"
  obtain c cs where c: "show_nat n = c # cs" "is_digit c" using show_nat_hd by blast
  then have "c \<noteq> CHR ''+''" using digit_not_sign by blast
  then show ?thesis
    using c n show_nat_digits [of n] by (simp add: parse_uint_def)
qed

lemma takeWhile_show_nat [simp]: "takeWhile is_digit (show_nat n) = show_nat n"
  using show_nat_digits takeWhile_all by blast

lemma dropWhile_show_nat [simp]: "dropWhile is_space (show_nat n) = show_nat n"
proof -
  obtain c cs where c: "show_nat n = c # cs" "is_digit c" using show_nat_hd by blast
  then show ?thesis using digit_not_space [OF c(2)] by simp
qed

lemma digits_value_show_nat [simp]: "digits_value (show_nat n) = n"
  using show_nat_digits by blast

lemma sql_int_show_nat: "int n \<le> i64_max \<Longrightarrow> sql_int (show_nat n) = int n"
proof -
  assume n: "int n \<le> i64_max"
  obtain c cs where c: "show_nat n = c # cs" "is_digit c" using show_nat_hd by blast
  have "(case show_nat n of c # cs \<Rightarrow> if c = CHR ''-'' then (True, cs)
           else if c = CHR ''+'' then (False, cs) else (False, show_nat n) | [] \<Rightarrow> (False, []))
        = (False, show_nat n)"
    using c digit_not_sign [OF c(2)] by simp
  then show ?thesis
    using n by (simp add: sql_int_def)
qed

lemma sql_int_show_int: "i64_min \<le> i \<Longrightarrow> i \<le> i64_max \<Longrightarrow> sql_int (show_int i) = i"
proof (cases "i < 0")
  case True
  assume "i64_min \<le> i"
  moreover have "\<not> is_space CHR ''-''" by (simp add: is_space_def)
  ultimately show ?thesis
    using True by (simp add: sql_int_def show_int_def)
next
  case False
  assume "i \<le> i64_max"
  with False show ?thesis by (simp add: show_int_def sql_int_show_nat)
qed

section \<open>ASCII text\<close>

definition ascii_lower :: "char \<Rightarrow> char" where
  "ascii_lower c = (if 65 \<le> (of_char c :: nat) \<and> (of_char c :: nat) \<le> 90 then char_of ((of_char c :: nat) + 32) else c)"

definition to_ascii_lowercase :: "string \<Rightarrow> string" where
  "to_ascii_lowercase s = map ascii_lower s"

definition eq_ignore_ascii_case :: "string \<Rightarrow> string \<Rightarrow> bool" where
  "eq_ignore_ascii_case a b = (to_ascii_lowercase a = to_ascii_lowercase b)"

definition trim :: "string \<Rightarrow> string" where
  "trim s = rev (dropWhile is_space (rev (dropWhile is_space s)))"

definition starts_with :: "string \<Rightarrow> string \<Rightarrow> bool" where
  "starts_with p s = (take (length p) s = p)"

definition join :: "string \<Rightarrow> string list \<Rightarrow> string" where
  "join sep xs = (case xs of [] \<Rightarrow> [] | x # rest \<Rightarrow> x @ concat (map (\<lambda>y. sep @ y) rest))"

lemma eq_ignore_ascii_case_refl [simp]: "eq_ignore_ascii_case a a"
  by (simp add: eq_ignore_ascii_case_def)

lemma eq_ignore_ascii_case_sym: "eq_ignore_ascii_case a b \<Longrightarrow> eq_ignore_ascii_case b a"
  by (simp add: eq_ignore_ascii_case_def)

lemma eq_ignore_ascii_case_trans:
  "eq_ignore_ascii_case a b \<Longrightarrow> eq_ignore_ascii_case b c \<Longrightarrow> eq_ignore_ascii_case a c"
  by (simp add: eq_ignore_ascii_case_def)

lemma starts_with_append [simp]: "starts_with p (p @ s)"
  by (simp add: starts_with_def)

section \<open>Tables\<close>

text \<open>A table is the list of its rows in the order they were inserted.\<close>

definition upd_where :: "('r \<Rightarrow> bool) \<Rightarrow> ('r \<Rightarrow> 'r) \<Rightarrow> 'r list \<Rightarrow> 'r list" where
  "upd_where P f rows = map (\<lambda>r. if P r then f r else r) rows"

definition del_where :: "('r \<Rightarrow> bool) \<Rightarrow> 'r list \<Rightarrow> 'r list" where
  "del_where P rows = filter (\<lambda>r. \<not> P r) rows"

definition count_where :: "('r \<Rightarrow> bool) \<Rightarrow> 'r list \<Rightarrow> nat" where
  "count_where P rows = length (filter P rows)"

text \<open>\<open>MIN\<close> and \<open>MAX\<close> of a column, NULL over no row.\<close>

definition sql_min :: "'a::linorder list \<Rightarrow> 'a option" where
  "sql_min xs = (case xs of [] \<Rightarrow> None | x # rest \<Rightarrow> Some (fold min rest x))"

definition sql_max :: "'a::linorder list \<Rightarrow> 'a option" where
  "sql_max xs = (case xs of [] \<Rightarrow> None | x # rest \<Rightarrow> Some (fold max rest x))"

lemma length_upd_where [simp]: "length (upd_where P f rows) = length rows"
  by (simp add: upd_where_def)

lemma upd_where_simps [simp]:
  "upd_where P f [] = []"
  "upd_where P f (r # rows) = (if P r then f r else r) # upd_where P f rows"
  by (simp_all add: upd_where_def)

lemma set_upd_where: "set (upd_where P f rows) = (\<lambda>r. if P r then f r else r) ` set rows"
  by (simp add: upd_where_def)

lemma in_upd_where_iff:
  "r \<in> set (upd_where P f rows) \<longleftrightarrow> (\<exists>q \<in> set rows. r = (if P q then f q else q))"
  by (auto simp: set_upd_where)

lemma map_upd_where_keep [simp]:
  "(\<And>r. key (f r) = key r) \<Longrightarrow> map key (upd_where P f rows) = map key rows"
  by (simp add: upd_where_def)

lemma upd_where_none [simp]: "\<forall>r \<in> set rows. \<not> P r \<Longrightarrow> upd_where P f rows = rows"
  by (induction rows) auto

lemma upd_where_twice:
  "(\<And>r. P r \<Longrightarrow> Q (f r)) \<Longrightarrow> (\<And>r. Q r \<Longrightarrow> P r \<or> \<not> R r) \<Longrightarrow> \<forall>r \<in> set rows. \<not> P r \<longrightarrow> \<not> Q r \<Longrightarrow>
   upd_where Q g (upd_where P f rows) = upd_where P (g \<circ> f) rows"
  by (induction rows) auto

lemma del_where_simps [simp]:
  "del_where P [] = []"
  "del_where P (r # rows) = (if P r then del_where P rows else r # del_where P rows)"
  by (simp_all add: del_where_def)

lemma set_del_where [simp]: "set (del_where P rows) = {r \<in> set rows. \<not> P r}"
  by (auto simp: del_where_def)

lemma distinct_map_del_where: "distinct (map key rows) \<Longrightarrow> distinct (map key (del_where P rows))"
  by (simp add: del_where_def distinct_map_filter)

lemma count_where_simps [simp]:
  "count_where P [] = 0"
  "count_where P (r # rows) = (if P r then Suc (count_where P rows) else count_where P rows)"
  by (simp_all add: count_where_def)

lemma count_where_0_iff [simp]: "count_where P rows = 0 \<longleftrightarrow> (\<forall>r \<in> set rows. \<not> P r)"
  by (induction rows) auto

text \<open>A row named by its primary key is the only one an update touches.\<close>

lemma count_where_key_le_1: "distinct (map key rows) \<Longrightarrow> count_where (\<lambda>r. key r = k) rows \<le> 1"
  by (induction rows) (auto simp: image_iff)

lemma count_where_key_1_iff:
  "distinct (map key rows) \<Longrightarrow>
   count_where (\<lambda>r. key r = k \<and> P r) rows = 1 \<longleftrightarrow> (\<exists>r \<in> set rows. key r = k \<and> P r)"
proof (induction rows)
  case Nil
  then show ?case by simp
next
  case (Cons r rows)
  then show ?case
    by (cases "key r = k") (auto simp: image_iff)
qed

lemma fold_min_le: "fold min xs (a::'a::linorder) \<le> a \<and> (\<forall>x \<in> set xs. fold min xs a \<le> x)"
proof (induction xs arbitrary: a)
  case Nil
  then show ?case by simp
next
  case (Cons x xs)
  from Cons.IH [of "min x a"] show ?case by auto
qed

lemma fold_min_in: "fold min xs (a::'a::linorder) \<in> insert a (set xs)"
proof (induction xs arbitrary: a)
  case Nil
  then show ?case by simp
next
  case (Cons x xs)
  from Cons.IH [of "min x a"] show ?case by (auto simp: min_def)
qed

lemma sql_min_Some: "sql_min xs = Some m \<Longrightarrow> m \<in> set xs \<and> (\<forall>x \<in> set xs. m \<le> x)"
  using fold_min_le fold_min_in by (auto simp: sql_min_def split: list.splits) blast+

lemma sql_min_None [simp]: "sql_min xs = None \<longleftrightarrow> xs = []"
  by (simp add: sql_min_def split: list.splits)

lemma fold_max_ge: "a \<le> fold max xs (a::'a::linorder) \<and> (\<forall>x \<in> set xs. x \<le> fold max xs a)"
proof (induction xs arbitrary: a)
  case Nil
  then show ?case by simp
next
  case (Cons x xs)
  from Cons.IH [of "max x a"] show ?case by auto
qed

lemma fold_max_in: "fold max xs (a::'a::linorder) \<in> insert a (set xs)"
proof (induction xs arbitrary: a)
  case Nil
  then show ?case by simp
next
  case (Cons x xs)
  from Cons.IH [of "max x a"] show ?case by (auto simp: max_def)
qed

lemma sql_max_Some: "sql_max xs = Some m \<Longrightarrow> m \<in> set xs \<and> (\<forall>x \<in> set xs. x \<le> m)"
  using fold_max_ge fold_max_in by (auto simp: sql_max_def split: list.splits) blast+

lemma sql_max_None [simp]: "sql_max xs = None \<longleftrightarrow> xs = []"
  by (simp add: sql_max_def split: list.splits)

end
