(* ===== verification/Json.thy ===== *)
theory Json
  imports Prelude
begin

text \<open>
  The values of the \<open>meta\<close> table. A value is either plain text (\<open>to_string\<close> of a number, a word) or
  the text \<open>serde_json\<close> makes of a value, which is kept as that value: reading it back is decoding
  the tree, and text that is not JSON does not decode. SQLite's \<open>CAST\<close> and \<open>json_extract\<close> are
  defined on both.
\<close>

datatype json =
    JNull
  | JBool bool
  | JNum int
  | JStr string
  | JArr "json list"
  | JObj "(string \<times> json) list"

datatype mval = Text string | Json json

definition json_field :: "string \<Rightarrow> json \<Rightarrow> json option" where
  "json_field k v = (case v of JObj fs \<Rightarrow> map_of fs k | _ \<Rightarrow> None)"

definition json_nat :: "json \<Rightarrow> nat option" where
  "json_nat v = (case v of JNum i \<Rightarrow> if 0 \<le> i then Some (nat i) else None | _ \<Rightarrow> None)"

definition json_str :: "json \<Rightarrow> string option" where
  "json_str v = (case v of JStr s \<Rightarrow> Some s | _ \<Rightarrow> None)"

definition field_nat :: "string \<Rightarrow> json \<Rightarrow> nat option" where
  "field_nat k v = Option.bind (json_field k v) json_nat"

definition field_str :: "string \<Rightarrow> json \<Rightarrow> string option" where
  "field_str k v = Option.bind (json_field k v) json_str"

definition as_json :: "mval \<Rightarrow> json option" where
  "as_json v = (case v of Json t \<Rightarrow> Some t | Text _ \<Rightarrow> None)"

definition as_text :: "mval \<Rightarrow> string option" where
  "as_text v = (case v of Text s \<Rightarrow> Some s | Json _ \<Rightarrow> None)"

text \<open>\<open>CAST(value AS INTEGER)\<close>: the text of an object or array does not begin with a number.\<close>

definition mval_int :: "mval \<Rightarrow> int" where
  "mval_int v = (case v of Text s \<Rightarrow> sql_int s | Json _ \<Rightarrow> 0)"

text \<open>\<open>json_extract(value, '$.k')\<close>: NULL when the field is absent or null, and 0 or 1 for a boolean.\<close>

definition json_extract :: "string \<Rightarrow> mval \<Rightarrow> json option" where
  "json_extract k v = (case v of
      Text _ \<Rightarrow> None
    | Json t \<Rightarrow> (case json_field k t of
        None \<Rightarrow> None
      | Some JNull \<Rightarrow> None
      | Some (JBool b) \<Rightarrow> Some (JNum (if b then 1 else 0))
      | Some x \<Rightarrow> Some x))"

text \<open>SQL's \<open>!=\<close>, which is not true when either side is NULL.\<close>

definition sql_neq :: "'a option \<Rightarrow> 'a option \<Rightarrow> bool" where
  "sql_neq a b = (a \<noteq> None \<and> b \<noteq> None \<and> a \<noteq> b)"

lemma sql_int_range: "i64_min \<le> sql_int s \<and> sql_int s \<le> i64_max"
  by (auto simp: sql_int_def Let_def i64_max_def i64_min_def split: prod.splits)

lemma mval_int_range: "i64_min \<le> mval_int v \<and> mval_int v \<le> i64_max"
  using sql_int_range by (cases v) (simp_all add: mval_int_def i64_max_def i64_min_def)

lemma mval_int_show_int [simp]:
  "i64_min \<le> i \<Longrightarrow> i \<le> i64_max \<Longrightarrow> mval_int (Text (show_int i)) = i"
  by (simp add: mval_int_def sql_int_show_int)

lemma mval_int_show_nat [simp]: "int n \<le> i64_max \<Longrightarrow> mval_int (Text (show_nat n)) = int n"
  by (simp add: mval_int_def sql_int_show_nat)

lemma json_field_simps [simp]: "json_field k (JObj fs) = map_of fs k"
  by (simp add: json_field_def)

lemma json_leaf_simps [simp]:
  "json_nat (JNum (int n)) = Some n" "json_str (JStr s) = Some s"
  by (simp_all add: json_nat_def json_str_def)

lemma as_json_simps [simp]: "as_json (Json t) = Some t" "as_json (Text s) = None"
  by (simp_all add: as_json_def)

section \<open>The text of a value\<close>

text \<open>\<open>serde_json::to_string\<close>: compact, with the escapes it writes.\<close>

definition hex_digit :: "nat \<Rightarrow> char" where
  "hex_digit d = char_of (if d < 10 then 48 + d else 87 + d)"

definition escape_char :: "char \<Rightarrow> string" where
  "escape_char c =
     (let n = (of_char c :: nat) in
      if n = 34 then [char_of (92::nat), c]
      else if n = 92 then [c, c]
      else if n = 8 then [char_of (92::nat), CHR ''b'']
      else if n = 9 then [char_of (92::nat), CHR ''t'']
      else if n = 10 then [char_of (92::nat), CHR ''n'']
      else if n = 12 then [char_of (92::nat), CHR ''f'']
      else if n = 13 then [char_of (92::nat), CHR ''r'']
      else if n < 32 then [char_of (92::nat), CHR ''u'', CHR ''0'', CHR ''0'', hex_digit (n div 16), hex_digit (n mod 16)]
      else [c])"

definition json_quote :: "string \<Rightarrow> string" where
  "json_quote s = char_of (34::nat) # concat (map escape_char s) @ [char_of (34::nat)]"

fun json_text :: "json \<Rightarrow> string" where
  "json_text JNull = ''null''"
| "json_text (JBool b) = (if b then ''true'' else ''false'')"
| "json_text (JNum i) = show_int i"
| "json_text (JStr s) = json_quote s"
| "json_text (JArr xs) = ''['' @ join '','' (map json_text xs) @ '']''"
| "json_text (JObj fs) = ''{'' @ join '','' (map (\<lambda>(k, v). json_quote k @ '':'' @ json_text v) fs) @ ''}''"

definition mval_text :: "mval \<Rightarrow> string" where
  "mval_text v = (case v of Text s \<Rightarrow> s | Json t \<Rightarrow> json_text t)"

lemma mval_text_Text [simp]: "mval_text (Text s) = s"
  by (simp add: mval_text_def)

end
