(* ===== verification/Store.thy ===== *)
theory Store
  imports Json
begin

text \<open>
  The journal's tables (\<open>journal.rs\<close>) and the statements that change them, with the triggers of
  \<open>audit.rs\<close>. A journal is a record with one field per table; a table that only one kind of keeper
  has is an \<open>option\<close>, and a statement on a table that is not there is an error. A transaction is a
  function to \<open>error + journal\<close>: an error leaves the journal as it was, which is the rollback.

  A \<open>u64\<close> is a \<open>nat\<close> and a column of type INTEGER an \<open>int\<close>. \<open>unixepoch\<close> is SQLite's clock,
  which the audit events are stamped with.
\<close>

datatype error =
    TryFromInt                    \<comment> \<open>an integer conversion out of range\<close>
  | ParseInt                      \<comment> \<open>\<open>str::parse\<close> of something that is not a number\<close>
  | MalformedJson
  | NoSuchTable
  | RowNotFound
  | UniqueConstraint
  | FinalizedCheckpointConflict
  | SoftCheckpointConflict
  | HeadMarkRefused
  | SoftMarkConflict
  | UnknownMarkKind
  | FinalizedReceiptConflict
  | BatchMemberCount
  | ExclusionTooLong
  | UnknownWorkKind
  | SingleTargetsBatch
  | NotABatchAttempt
  | BatchKeyMismatch
  | DuplicateBatchMember
  | RequestLiveElsewhere
  | LaneOwned
  | SweepOwnsLane
  | EpochWorkMissing
  | GameWorkMissing
  | BatchMembersMissing
  | BatchMembersChanged
  | MemberNotPrepared
  | NonceOverflow
  | ReceiptJobMissing
  | EpochReceiptMissing
  | BatchNotAccounted
  | BatchMemberMissing
  | NothingToAcknowledge
  | OtherSuspicion
  | OtherMismatch
  | ReceiptWithoutStatus
  | UnsupportedSchema
  | OtherScope
  | RoundJournal
  | EpochJournal
  | RpcFailed                     \<comment> \<open>a read that no endpoint answered\<close>
  | Bail string                   \<comment> \<open>\<open>ensure!\<close> or \<open>bail!\<close> with this message\<close>

record job =
  job_id :: string
  deadline :: int
  job_state :: string
  job_proof :: "string option"
  job_call :: "string option"
  callback_failed_observed :: bool

record attempt =
  tx_id :: int
  tx_job :: string
  nonce :: int
  tx_hash :: string
  raw :: string
  tx_kind :: string
  fee :: string
  tx_state :: string
  gas :: int
  priority :: string
  payload :: string
  created :: int
  broadcast :: int

record member =
  mb_job :: string
  request_id :: string
  position :: int

record receipt =
  rc_hash :: string
  block_number :: int
  block_hash :: string
  rc_status :: int

text \<open>A row of \<open>soft_marks\<close>.\<close>

record mark_row =
  mr_number :: int
  mr_hash :: string
  mr_kind :: string
  mr_ref :: string
  mr_created :: int
  mr_status :: "int option"

record epoch_demand_row =
  ed_job :: string
  ed_epoch :: int

record round_demand_row =
  rd_job :: string
  rd_beacon :: int
  rd_round :: int
  rd_fingerprint :: string
  rd_lag :: "int option"
  rd_seen :: int

record epoch_row =
  ew_key :: string
  ew_registry :: string
  ew_catalog :: string
  ew_epoch :: int
  ew_start :: int
  ew_state :: string
  ew_api :: "string option"
  ew_selection :: "string option"
  ew_attempts :: int
  ew_retry_at :: int
  ew_last_error :: "string option"
  ew_fallback :: int
  ew_sources :: int
  ew_failing_since :: "int option"
  ew_failed_at :: "int option"
  ew_failed_rpc :: "int option"

record round_row =
  rw_beacon :: int
  rw_round :: int
  rw_state :: string
  rw_signature :: "string option"
  rw_randomness :: "string option"
  rw_attempts :: int
  rw_retry_at :: int
  rw_last_error :: "string option"
  rw_failing_since :: "int option"
  rw_failed_at :: "int option"
  rw_failed_rpc :: "int option"

record audit_event =
  cursor :: int
  ev_request :: "string option"
  ev_kind :: string
  ev_origin :: "mval option"
  observed_at :: int

record journal =
  meta :: "string \<Rightarrow> mval option"
  jobs :: "job list"
  txs :: "attempt list"
  members :: "member list"
  finalized_receipts :: "receipt list"
  soft_marks :: "mark_row list option"
  epoch_demand :: "epoch_demand_row list option"
  round_demand :: "round_demand_row list option"
  epoch_work :: "epoch_row list option"
  round_work :: "round_row list option"
  audit_events :: "audit_event list"
  audit_seq :: int
  unixepoch :: int

text \<open>A database file just created: no row, and none of the tables that only some keepers have.\<close>

definition blank_journal :: journal where
  "blank_journal = \<lparr>meta = Map.empty, jobs = [], txs = [], members = [], finalized_receipts = [],
     soft_marks = None, epoch_demand = None, round_demand = None, epoch_work = None,
     round_work = None, audit_events = [], audit_seq = 0, unixepoch = 0\<rparr>"

definition active :: "attempt \<Rightarrow> bool" where
  "active t = (tx_state t = ''signed'' \<or> tx_state t = ''submitted'')"

definition table :: "'r list option \<Rightarrow> error + 'r list" where
  "table t = ok_or NoSuchTable t"

section \<open>The audit triggers\<close>

definition CAPACITY :: nat where "CAPACITY = 4096"

definition AUDIT_DROPPED :: string where "AUDIT_DROPPED = ''audit:dropped''"

text \<open>\<open>INSERT INTO audit_events\<close> under the trigger \<open>audit_capacity\<close>: a full table counts the event
  as dropped and keeps what it has.\<close>

definition insert_audit_event :: "string option \<Rightarrow> string \<Rightarrow> journal \<Rightarrow> journal" where
  "insert_audit_event req k j =
     (if CAPACITY \<le> length (audit_events j)
      then j\<lparr>meta := (meta j)(AUDIT_DROPPED :=
             map_option (\<lambda>v. Text (show_int (mval_int v + 1))) (meta j AUDIT_DROPPED))\<rparr>
      else j\<lparr>audit_events := audit_events j @
               [\<lparr>cursor = audit_seq j + 1, ev_request = req, ev_kind = k,
                 ev_origin = meta j ''scope'', observed_at = unixepoch j\<rparr>],
             audit_seq := audit_seq j + 1\<rparr>)"

definition fire :: "(string option \<times> string) list \<Rightarrow> journal \<Rightarrow> journal" where
  "fire evs j = fold (\<lambda>(r, k). insert_audit_event r k) evs j"

text \<open>\<open>audit_job_state\<close> and \<open>audit_callback\<close>: the events of one updated row.\<close>

definition REPORTED :: "string list" where
  "REPORTED = [''prepared'', ''served'', ''callback_failed'', ''refunded'', ''expired'',
               ''blocked'', ''ignored'']"

definition job_events :: "job \<Rightarrow> job \<Rightarrow> (string option \<times> string) list" where
  "job_events old new =
     (if job_state new \<noteq> job_state old \<and> job_state new \<in> set REPORTED
      then [(Some (job_id new), job_state new)] else []) @
     (if \<not> callback_failed_observed old \<and> callback_failed_observed new
      then [(Some (job_id new), ''callback_failed_at_acceptance'')] else [])"

text \<open>\<open>UPDATE jobs SET ... WHERE ...\<close> and \<open>INSERT INTO jobs\<close> with their triggers.\<close>

definition update_jobs :: "(job \<Rightarrow> bool) \<Rightarrow> (job \<Rightarrow> job) \<Rightarrow> journal \<Rightarrow> journal" where
  "update_jobs P f j =
     fire (concat (map (\<lambda>r. if P r then job_events r (f r) else []) (jobs j)))
       (j\<lparr>jobs := upd_where P f (jobs j)\<rparr>)"

definition new_job :: "string \<Rightarrow> int \<Rightarrow> job" where
  "new_job i d = \<lparr>job_id = i, deadline = d, job_state = ''pending'', job_proof = None,
     job_call = None, callback_failed_observed = False\<rparr>"

definition insert_job :: "string \<Rightarrow> int \<Rightarrow> journal \<Rightarrow> journal" where
  "insert_job i d j = fire [(Some i, ''discovered'')] (j\<lparr>jobs := jobs j @ [new_job i d]\<rparr>)"

definition has_job :: "string \<Rightarrow> journal \<Rightarrow> bool" where
  "has_job i j = list_ex (\<lambda>r. job_id r = i) (jobs j)"

text \<open>\<open>audit_health_insert\<close>, \<open>audit_health_rejection\<close>, \<open>audit_health_status_insert\<close> and
  \<open>audit_health_status_update\<close>: the event of a new or replaced meta value, if any.\<close>

definition meta_events :: "string \<Rightarrow> mval option \<Rightarrow> mval \<Rightarrow> journal \<Rightarrow> (string option \<times> string) list" where
  "meta_events k old new j =
     (if meta j ''audit:suspended'' = Some (Text ''1'') then []
      else if k = ''health:rejection'' then
        (if old = Some new then [] else [(None, ''node_transaction_rejected'')])
      else if k = ''health:status'' then
        (let healthy = json_extract ''healthy'' new in
         case old of
           None \<Rightarrow> if healthy = Some (JNum 0) then [(None, ''service_degraded'')] else []
         | Some o' \<Rightarrow>
             if sql_neq healthy (json_extract ''healthy'' o')
                \<or> (healthy = Some (JNum 0)
                   \<and> sql_neq (json_extract ''faults'' new) (json_extract ''faults'' o'))
             then [(None, if healthy = Some (JNum 1) then ''service_recovered'' else ''service_degraded'')]
             else [])
      else [])"

section \<open>Statements on \<open>meta\<close>\<close>

text \<open>\<open>INSERT ... ON CONFLICT(key) DO UPDATE SET value=excluded.value\<close>.\<close>

definition meta_put :: "string \<Rightarrow> mval \<Rightarrow> journal \<Rightarrow> journal" where
  "meta_put k v j =
     (let j' = j\<lparr>meta := (meta j)(k \<mapsto> v)\<rparr> in fire (meta_events k (meta j k) v j') j')"

text \<open>\<open>INSERT OR IGNORE\<close>, with whether a row was inserted.\<close>

definition meta_insert :: "string \<Rightarrow> mval \<Rightarrow> journal \<Rightarrow> journal \<times> bool" where
  "meta_insert k v j = (if meta j k = None then (meta_put k v j, True) else (j, False))"

definition meta_delete :: "(string \<Rightarrow> bool) \<Rightarrow> journal \<Rightarrow> journal" where
  "meta_delete P j = j\<lparr>meta := (\<lambda>k. if P k then None else meta j k)\<rparr>"

text \<open>The operation of \<open>audit.rs\<close> itself.\<close>

definition callback_failed :: "string \<Rightarrow> journal \<Rightarrow> journal" where
  "callback_failed i j =
     update_jobs (\<lambda>r. job_id r = i \<and> \<not> callback_failed_observed r)
       (\<lambda>r. r\<lparr>callback_failed_observed := True\<rparr>) j"

section \<open>What the triggers touch\<close>

text \<open>An event changes the audit tables and the drop counter, and nothing a decision reads.\<close>

lemma insert_audit_event_frame [simp]:
  "jobs (insert_audit_event r k j) = jobs j"
  "txs (insert_audit_event r k j) = txs j"
  "members (insert_audit_event r k j) = members j"
  "finalized_receipts (insert_audit_event r k j) = finalized_receipts j"
  "soft_marks (insert_audit_event r k j) = soft_marks j"
  "epoch_demand (insert_audit_event r k j) = epoch_demand j"
  "round_demand (insert_audit_event r k j) = round_demand j"
  "epoch_work (insert_audit_event r k j) = epoch_work j"
  "round_work (insert_audit_event r k j) = round_work j"
  "unixepoch (insert_audit_event r k j) = unixepoch j"
  "q \<noteq> ''audit:dropped'' \<Longrightarrow> meta (insert_audit_event r k j) q = meta j q"
  by (simp_all add: insert_audit_event_def AUDIT_DROPPED_def)

lemma fire_Nil [simp]: "fire [] j = j"
  by (simp add: fire_def)

lemma fire_Cons [simp]: "fire (e # es) j = fire es (insert_audit_event (fst e) (snd e) j)"
  by (simp add: fire_def case_prod_beta)

lemma fire_append: "fire (es @ fs) j = fire fs (fire es j)"
  by (simp add: fire_def)

lemma fire_frame [simp]:
  "jobs (fire es j) = jobs j"
  "txs (fire es j) = txs j"
  "members (fire es j) = members j"
  "finalized_receipts (fire es j) = finalized_receipts j"
  "soft_marks (fire es j) = soft_marks j"
  "epoch_demand (fire es j) = epoch_demand j"
  "round_demand (fire es j) = round_demand j"
  "epoch_work (fire es j) = epoch_work j"
  "round_work (fire es j) = round_work j"
  "unixepoch (fire es j) = unixepoch j"
  by (induction es arbitrary: j) simp_all

lemma meta_fire [simp]: "q \<noteq> ''audit:dropped'' \<Longrightarrow> meta (fire es j) q = meta j q"
  by (induction es arbitrary: j) simp_all

lemma update_jobs_frame [simp]:
  "jobs (update_jobs P f j) = upd_where P f (jobs j)"
  "txs (update_jobs P f j) = txs j"
  "members (update_jobs P f j) = members j"
  "finalized_receipts (update_jobs P f j) = finalized_receipts j"
  "soft_marks (update_jobs P f j) = soft_marks j"
  "epoch_demand (update_jobs P f j) = epoch_demand j"
  "round_demand (update_jobs P f j) = round_demand j"
  "epoch_work (update_jobs P f j) = epoch_work j"
  "round_work (update_jobs P f j) = round_work j"
  "q \<noteq> ''audit:dropped'' \<Longrightarrow> meta (update_jobs P f j) q = meta j q"
  by (simp_all add: update_jobs_def)

lemma insert_job_frame [simp]:
  "jobs (insert_job i d j) = jobs j @ [new_job i d]"
  "txs (insert_job i d j) = txs j"
  "members (insert_job i d j) = members j"
  "finalized_receipts (insert_job i d j) = finalized_receipts j"
  "soft_marks (insert_job i d j) = soft_marks j"
  "epoch_demand (insert_job i d j) = epoch_demand j"
  "round_demand (insert_job i d j) = round_demand j"
  "epoch_work (insert_job i d j) = epoch_work j"
  "round_work (insert_job i d j) = round_work j"
  "q \<noteq> ''audit:dropped'' \<Longrightarrow> meta (insert_job i d j) q = meta j q"
  by (simp_all add: insert_job_def)

lemma meta_put_frame [simp]:
  "jobs (meta_put k v j) = jobs j"
  "txs (meta_put k v j) = txs j"
  "members (meta_put k v j) = members j"
  "finalized_receipts (meta_put k v j) = finalized_receipts j"
  "soft_marks (meta_put k v j) = soft_marks j"
  "epoch_demand (meta_put k v j) = epoch_demand j"
  "round_demand (meta_put k v j) = round_demand j"
  "epoch_work (meta_put k v j) = epoch_work j"
  "round_work (meta_put k v j) = round_work j"
  "q \<noteq> ''audit:dropped'' \<Longrightarrow> meta (meta_put k v j) q = (if q = k then Some v else meta j q)"
  by (simp_all add: meta_put_def Let_def)

lemma meta_delete_frame [simp]:
  "jobs (meta_delete P j) = jobs j"
  "txs (meta_delete P j) = txs j"
  "members (meta_delete P j) = members j"
  "finalized_receipts (meta_delete P j) = finalized_receipts j"
  "soft_marks (meta_delete P j) = soft_marks j"
  "epoch_demand (meta_delete P j) = epoch_demand j"
  "round_demand (meta_delete P j) = round_demand j"
  "epoch_work (meta_delete P j) = epoch_work j"
  "round_work (meta_delete P j) = round_work j"
  "audit_events (meta_delete P j) = audit_events j"
  "audit_seq (meta_delete P j) = audit_seq j"
  "meta (meta_delete P j) q = (if P q then None else meta j q)"
  by (simp_all add: meta_delete_def)

lemma has_job_iff: "has_job i j \<longleftrightarrow> i \<in> job_id ` set (jobs j)"
  by (auto simp: has_job_def list_ex_iff)

section \<open>The event journal is bounded and ordered\<close>

text \<open>The table never holds more than its capacity, its cursors increase, and none is past the
  sequence it is drawn from.\<close>

definition audit_ok :: "journal \<Rightarrow> bool" where
  "audit_ok j = (length (audit_events j) \<le> CAPACITY
     \<and> sorted_wrt (<) (map cursor (audit_events j))
     \<and> (\<forall>e \<in> set (audit_events j). cursor e \<le> audit_seq j))"

lemma audit_ok_insert [simp]: "audit_ok j \<Longrightarrow> audit_ok (insert_audit_event r k j)"
  by (auto simp: audit_ok_def insert_audit_event_def sorted_wrt_append)

lemma audit_ok_fire [simp]: "audit_ok j \<Longrightarrow> audit_ok (fire es j)"
  by (induction es arbitrary: j) simp_all

lemma audit_ok_fields [simp]:
  "audit_ok (j\<lparr>meta := a\<rparr>) = audit_ok j"
  "audit_ok (j\<lparr>jobs := b\<rparr>) = audit_ok j"
  "audit_ok (j\<lparr>txs := c\<rparr>) = audit_ok j"
  "audit_ok (j\<lparr>members := d\<rparr>) = audit_ok j"
  "audit_ok (j\<lparr>finalized_receipts := e\<rparr>) = audit_ok j"
  "audit_ok (j\<lparr>soft_marks := f\<rparr>) = audit_ok j"
  "audit_ok (j\<lparr>epoch_demand := g\<rparr>) = audit_ok j"
  "audit_ok (j\<lparr>round_demand := h\<rparr>) = audit_ok j"
  "audit_ok (j\<lparr>epoch_work := k\<rparr>) = audit_ok j"
  "audit_ok (j\<lparr>round_work := l\<rparr>) = audit_ok j"
  by (simp_all add: audit_ok_def)

lemma audit_ok_statements [simp]:
  "audit_ok j \<Longrightarrow> audit_ok (update_jobs P f j)"
  "audit_ok j \<Longrightarrow> audit_ok (insert_job i d j)"
  "audit_ok j \<Longrightarrow> audit_ok (meta_put k v j)"
  "audit_ok j \<Longrightarrow> audit_ok (meta_delete Q j)"
  by (simp_all add: update_jobs_def insert_job_def meta_put_def meta_delete_def Let_def)

text \<open>Every event is either kept, with the next cursor, or counted as dropped: none is lost
  without a trace.\<close>

definition dropped :: "journal \<Rightarrow> int" where
  "dropped j = (case meta j AUDIT_DROPPED of None \<Rightarrow> 0 | Some v \<Rightarrow> mval_int v)"

lemma insert_audit_event_accounts:
  assumes "meta j AUDIT_DROPPED \<noteq> None" and "dropped j < i64_max"
  shows "dropped (insert_audit_event r k j) + audit_seq (insert_audit_event r k j)
           = dropped j + audit_seq j + 1
         \<and> meta (insert_audit_event r k j) AUDIT_DROPPED \<noteq> None"
proof -
  obtain v where v: "meta j AUDIT_DROPPED = Some v" using assms(1) by blast
  have "mval_int v < i64_max" "i64_min \<le> mval_int v"
    using assms(2) v mval_int_range by (simp_all add: dropped_def)
  then show ?thesis
    using v by (simp add: insert_audit_event_def dropped_def)
qed

end
