(* ===== verification/Checkpoint_Spec.thy ===== *)
theory Checkpoint_Spec
  imports Prelude
begin

text \<open>
  What a checkpoint promises its clients: it holds the highest block it was given, a lower block
  changes nothing, and another hash for the block it holds is refused. The consequences for a whole
  sequence of ticks are proved here once; the journal's two checkpoints (\<open>Marks\<close>) are its instances.
\<close>

locale block_checkpoint =
  fixes held :: "'s \<Rightarrow> (nat \<times> string) option"
    and advance :: "nat \<Rightarrow> string \<Rightarrow> 's \<Rightarrow> 'e + 's"
    and readable :: "'s \<Rightarrow> bool"
  assumes first: "readable s \<Longrightarrow> held s = None \<Longrightarrow>
      \<exists>t. advance n h s = Inr t \<and> held t = Some (n, h) \<and> readable t"
    and higher: "readable s \<Longrightarrow> held s = Some (m, g) \<Longrightarrow> m < n \<Longrightarrow>
      \<exists>t. advance n h s = Inr t \<and> held t = Some (n, h) \<and> readable t"
    and lower: "readable s \<Longrightarrow> held s = Some (m, g) \<Longrightarrow> n < m \<Longrightarrow> advance n h s = Inr s"
    and same: "readable s \<Longrightarrow> held s = Some (n, h) \<Longrightarrow> advance n h s = Inr s"
    and conflict: "readable s \<Longrightarrow> held s = Some (n, g) \<Longrightarrow> g \<noteq> h \<Longrightarrow> \<exists>e. advance n h s = Inl e"
begin

text \<open>One step, in one statement.\<close>

lemma advance_cases:
  assumes "readable s" and "advance n h s = Inr t"
  shows "readable t \<and>
    (case held s of
       None \<Rightarrow> held t = Some (n, h)
     | Some (m, g) \<Rightarrow>
         if m < n then held t = Some (n, h) else t = s \<and> (m = n \<longrightarrow> g = h))"
proof (cases "held s")
  case None
  then show ?thesis using first [OF assms(1), of n h] assms(2) by auto
next
  case (Some b)
  obtain m g where b: "b = (m, g)" by (cases b)
  note held = Some [unfolded b]
  consider "m < n" | "n < m" | "m = n" "g = h" | "m = n" "g \<noteq> h" by linarith
  then show ?thesis
  proof cases
    case 1
    then show ?thesis using higher [OF assms(1) held, of n h] assms(2) held by auto
  next
    case 2
    then show ?thesis using lower [OF assms(1) held, of n h] assms held by auto
  next
    case 3
    then show ?thesis using same [OF assms(1), of n h] assms held by auto
  next
    case 4
    then show ?thesis using conflict [OF assms(1), of n g h] assms(2) held by auto
  qed
qed

text \<open>The checkpoint is at or past a block, and has its hash when it is at it.\<close>

definition covers :: "'s \<Rightarrow> nat \<times> string \<Rightarrow> bool" where
  "covers s b = (case held s of None \<Rightarrow> False
     | Some (m, g) \<Rightarrow> fst b \<le> m \<and> (fst b = m \<longrightarrow> snd b = g))"

lemma covers_iff:
  "covers s b \<longleftrightarrow> (\<exists>m g. held s = Some (m, g) \<and> fst b \<le> m \<and> (fst b = m \<longrightarrow> snd b = g))"
  by (auto simp: covers_def split: option.splits)

lemma covers_held: "held s = Some b \<Longrightarrow> covers s b"
  by (simp add: covers_def split: prod.splits)

lemma advance_covers:
  assumes "readable s" and "advance n h s = Inr t"
  shows "covers t (n, h)" and "covers s b \<Longrightarrow> covers t b" and "readable t"
    and "held t = Some b \<Longrightarrow> b = (n, h) \<or> held s = Some b"
  using advance_cases [OF assms]
  by (auto simp: covers_def split: option.splits if_splits)

text \<open>A sequence of ticks gives the checkpoint block after block, and stops at a conflict.\<close>

definition advance_all :: "(nat \<times> string) list \<Rightarrow> 's \<Rightarrow> 'e + 's" where
  "advance_all bs s = foldR (\<lambda>b. advance (fst b) (snd b)) bs s"

lemma advance_all_Cons:
  "advance_all (b # bs) s = bindR (advance (fst b) (snd b) s) (advance_all bs)"
  by (simp add: advance_all_def [abs_def])

text \<open>So the checkpoint never moves down, and never changes a hash.\<close>

lemma never_down:
  "advance_all bs s = Inr t \<Longrightarrow> readable s \<Longrightarrow> covers s b \<Longrightarrow> covers t b \<and> readable t"
proof (induction bs arbitrary: s)
  case Nil
  then show ?case by (simp add: advance_all_def)
next
  case (Cons c bs)
  then obtain s1 where s1: "advance (fst c) (snd c) s = Inr s1" "advance_all bs s1 = Inr t"
    by (auto simp: advance_all_Cons result_simps)
  show ?case
    using Cons.IH [OF s1(2)] advance_covers(2,3) [OF Cons.prems(2) s1(1)] Cons.prems(3) by blast
qed

text \<open>Every block that was accepted is covered at the end: no accepted block is higher than the
  checkpoint, and one of its own number has its hash.\<close>

lemma sequence_covers:
  "advance_all bs s = Inr t \<Longrightarrow> readable s \<Longrightarrow> b \<in> set bs \<Longrightarrow> covers t b"
proof (induction bs arbitrary: s)
  case Nil
  then show ?case by simp
next
  case (Cons c bs)
  then obtain s1 where s1: "advance (fst c) (snd c) s = Inr s1" "advance_all bs s1 = Inr t"
    by (auto simp: advance_all_Cons result_simps)
  note step = advance_covers [OF Cons.prems(2) s1(1)]
  show ?case
  proof (cases "b = c")
    case True
    then show ?thesis using never_down [OF s1(2)] step(1,3) by (metis prod.collapse)
  next
    case False
    then show ?thesis using Cons.IH [OF s1(2)] step(3) Cons.prems(3) by simp
  qed
qed

text \<open>And the checkpoint is a block it was given.\<close>

lemma sequence_from:
  "advance_all bs s = Inr t \<Longrightarrow> readable s \<Longrightarrow> held t = Some b \<Longrightarrow> b \<in> set bs \<or> held s = Some b"
proof (induction bs arbitrary: s)
  case Nil
  then show ?case by (simp add: advance_all_def)
next
  case (Cons c bs)
  then obtain s1 where s1: "advance (fst c) (snd c) s = Inr s1" "advance_all bs s1 = Inr t"
    by (auto simp: advance_all_Cons result_simps)
  note step = advance_covers [OF Cons.prems(2) s1(1)]
  show ?case
    using Cons.IH [OF s1(2) step(3) Cons.prems(3)] step(4) by (metis list.set_intros prod.collapse)
qed

end

end
