(* ===== verification/Marks.thy ===== *)
theory Marks
  imports Store Checkpoint_Spec
begin

text \<open>
  Checkpoints, soft marks and finalized receipts (\<open>journal.rs\<close>): the evidence a keeper holds the
  chain to. A mark is written in the transaction of the action it justifies, and evidence is never
  overwritten: the same evidence again changes nothing and other evidence is a conflict.
\<close>

section \<open>Checkpoints\<close>

record checkpoint_id =
  cp_key :: string
  cp_conflict :: error

definition FINALIZED_CHECKPOINT :: checkpoint_id where
  "FINALIZED_CHECKPOINT = \<lparr>cp_key = ''finalized_checkpoint'', cp_conflict = FinalizedCheckpointConflict\<rparr>"

definition SOFT_CHECKPOINT :: checkpoint_id where
  "SOFT_CHECKPOINT = \<lparr>cp_key = ''soft_checkpoint'', cp_conflict = SoftCheckpointConflict\<rparr>"

text \<open>The JSON text of a pair \<open>(u64, String)\<close>.\<close>

definition encode_block :: "nat \<Rightarrow> string \<Rightarrow> mval" where
  "encode_block n h = Json (JArr [JNum (int n), JStr h])"

definition decode_block :: "mval \<Rightarrow> (nat \<times> string) option" where
  "decode_block v = (case v of
      Json (JArr [JNum i, JStr h]) \<Rightarrow> if 0 \<le> i then Some (nat i, h) else None
    | _ \<Rightarrow> None)"

definition checkpoint :: "checkpoint_id \<Rightarrow> nat \<Rightarrow> string \<Rightarrow> journal \<Rightarrow> error + journal" where
  "checkpoint which number hash j =
     (case meta j (cp_key which) of
        None \<Rightarrow> Inr (meta_put (cp_key which) (encode_block number hash) j)
      | Some old \<Rightarrow>
          bindR (ok_or MalformedJson (decode_block old)) (\<lambda>(previous, previous_hash).
            if number < previous then Inr j
            else ensure (previous \<noteq> number \<or> previous_hash = hash) (cp_conflict which)
              (if previous = number then Inr j
               else Inr (meta_put (cp_key which) (encode_block number hash) j))))"

section \<open>Marks\<close>

datatype mark_kind = Receipt | Head | Sign | Nonce

fun kind_name :: "mark_kind \<Rightarrow> string" where
  "kind_name Receipt = ''receipt''"
| "kind_name Head = ''head''"
| "kind_name Sign = ''sign''"
| "kind_name Nonce = ''nonce''"

definition kind_parse :: "string \<Rightarrow> error + mark_kind" where
  "kind_parse s =
     (if s = ''receipt'' then Inr Receipt
      else if s = ''head'' then Inr Head
      else if s = ''sign'' then Inr Sign
      else if s = ''nonce'' then Inr Nonce
      else Inl UnknownMarkKind)"

record mark =
  mk_kind :: mark_kind
  mk_number :: nat
  mk_hash :: string
  mk_ref :: string
  mk_created :: nat
  mk_status :: "nat option"

text \<open>\<open>Option::map\<close> with a fallible conversion and \<open>transpose\<close>.\<close>

definition optR :: "('a \<Rightarrow> 'e + 'b) \<Rightarrow> 'a option \<Rightarrow> 'e + 'b option" where
  "optR f x = (case x of None \<Rightarrow> Inr None | Some v \<Rightarrow> bindR (f v) (\<lambda>w. Inr (Some w)))"

definition mark_key :: "mark_row \<Rightarrow> int \<times> string \<times> string" where
  "mark_key r = (mr_number r, mr_kind r, mr_ref r)"

text \<open>\<open>INSERT INTO soft_marks ... ON CONFLICT(number,kind,ref) DO NOTHING\<close>.\<close>

definition insert_mark_row :: "mark_row \<Rightarrow> mark_row list \<Rightarrow> mark_row list" where
  "insert_mark_row r rows = (if list_ex (\<lambda>q. mark_key q = mark_key r) rows then rows else rows @ [r])"

definition write_mark :: "mark \<Rightarrow> journal \<Rightarrow> error + journal" where
  "write_mark m j =
     ensure (mk_kind m \<noteq> Head) HeadMarkRefused
      (bindR (i64_try TryFromInt (mk_number m)) (\<lambda>number.
       bindR (optR (i64_try TryFromInt) (mk_status m)) (\<lambda>status.
       bindR (i64_try TryFromInt (mk_created m)) (\<lambda>created'.
       bindR (table (soft_marks j)) (\<lambda>rows.
         let row = \<lparr>mr_number = number, mr_hash = mk_hash m, mr_kind = kind_name (mk_kind m),
                    mr_ref = mk_ref m, mr_created = created', mr_status = status\<rparr>;
             rows' = insert_mark_row row rows
         in bindR (ok_or RowNotFound (find (\<lambda>q. mark_key q = mark_key row) rows')) (\<lambda>stored.
            ensure (mr_hash stored = mk_hash m \<and> mr_status stored = status) SoftMarkConflict
              (Inr (j\<lparr>soft_marks := Some rows'\<rparr>))))))))"

definition write_mark_opt :: "mark option \<Rightarrow> journal \<Rightarrow> error + journal" where
  "write_mark_opt m j = (case m of None \<Rightarrow> Inr j | Some m \<Rightarrow> write_mark m j)"

definition mark_from_row :: "mark_row \<Rightarrow> error + mark" where
  "mark_from_row r =
     bindR (kind_parse (mr_kind r)) (\<lambda>k.
     bindR (u64_try TryFromInt (mr_number r)) (\<lambda>n.
     bindR (u64_try TryFromInt (mr_created r)) (\<lambda>c.
     bindR (optR (u64_try TryFromInt) (mr_status r)) (\<lambda>s.
       Inr \<lparr>mk_kind = k, mk_number = n, mk_hash = mr_hash r, mk_ref = mr_ref r,
            mk_created = c, mk_status = s\<rparr>))))"

definition head_mark :: "nat \<Rightarrow> string \<Rightarrow> nat \<Rightarrow> journal \<Rightarrow> error + journal" where
  "head_mark number hash created' j =
     bindR (i64_try TryFromInt number) (\<lambda>n.
     bindR (table (soft_marks j)) (\<lambda>rows.
     bindR (i64_try TryFromInt created') (\<lambda>c.
       let kept = del_where (\<lambda>r. mr_kind r = ''head'' \<and> mr_number r \<le> n) rows;
           rows' = (if list_ex (\<lambda>r. mr_kind r = ''head'') kept then kept
                    else kept @ [\<lparr>mr_number = n, mr_hash = hash, mr_kind = ''head'', mr_ref = '''',
                                  mr_created = c, mr_status = None\<rparr>])
       in Inr (j\<lparr>soft_marks := Some rows'\<rparr>))))"

section \<open>The journal's operations on them\<close>

definition finalized_checkpoint :: "nat \<Rightarrow> string \<Rightarrow> journal \<Rightarrow> error + journal" where
  "finalized_checkpoint number hash j = checkpoint FINALIZED_CHECKPOINT number hash j"

definition soft_checkpoint :: "nat \<Rightarrow> string \<Rightarrow> journal \<Rightarrow> error + journal" where
  "soft_checkpoint number hash j = checkpoint SOFT_CHECKPOINT number hash j"

definition soft_decision :: "nat \<Rightarrow> string \<Rightarrow> nat \<Rightarrow> journal \<Rightarrow> error + journal" where
  "soft_decision number hash created' j =
     bindR (checkpoint SOFT_CHECKPOINT number hash j) (head_mark number hash created')"

text \<open>\<open>INSERT INTO finalized_receipts ... ON CONFLICT DO NOTHING\<close> and the row that is there then.\<close>

definition insert_receipt :: "receipt \<Rightarrow> receipt list \<Rightarrow> receipt list" where
  "insert_receipt r rows = (if list_ex (\<lambda>q. rc_hash q = rc_hash r) rows then rows else rows @ [r])"

definition find_receipt :: "string \<Rightarrow> receipt list \<Rightarrow> error + receipt" where
  "find_receipt h rows = ok_or RowNotFound (find (\<lambda>q. rc_hash q = h) rows)"

definition finalized_receipt :: "string \<Rightarrow> nat \<Rightarrow> string \<Rightarrow> nat \<Rightarrow> journal \<Rightarrow> error + journal" where
  "finalized_receipt hash number bhash status j =
     bindR (i64_try TryFromInt number) (\<lambda>n.
     bindR (i64_try TryFromInt status) (\<lambda>st.
       let row = \<lparr>rc_hash = hash, block_number = n, block_hash = bhash, rc_status = st\<rparr>;
           rows = insert_receipt row (finalized_receipts j)
       in bindR (find_receipt hash rows) (\<lambda>actual.
          ensure (actual = row) FinalizedReceiptConflict
            (checkpoint FINALIZED_CHECKPOINT number bhash (j\<lparr>finalized_receipts := rows\<rparr>)))))"

definition soft_marks_read :: "journal \<Rightarrow> error + mark list" where
  "soft_marks_read j = bindR (table (soft_marks j)) (\<lambda>rows. mapR mark_from_row (sort_key mark_key rows))"

text \<open>\<open>SELECT DISTINCT number ... ORDER BY number LIMIT\<close>.\<close>

definition distinct_numbers :: "(int \<Rightarrow> bool) \<Rightarrow> nat \<Rightarrow> mark_row list \<Rightarrow> int list" where
  "distinct_numbers P limit rows =
     take limit (remdups (sort (filter P (map mr_number rows))))"

definition mark_numbers_from :: "nat \<Rightarrow> nat \<Rightarrow> journal \<Rightarrow> error + nat list" where
  "mark_numbers_from from limit j =
     bindR (i64_try TryFromInt from) (\<lambda>f.
     bindR (i64_try TryFromInt limit) (\<lambda>_.
     bindR (table (soft_marks j)) (\<lambda>rows.
       mapR (u64_try TryFromInt) (distinct_numbers (\<lambda>n. f \<le> n) limit rows))))"

definition mark_numbers :: "nat \<Rightarrow> nat \<Rightarrow> journal \<Rightarrow> error + nat list" where
  "mark_numbers up_to limit j =
     bindR (i64_try TryFromInt up_to) (\<lambda>u.
     bindR (i64_try TryFromInt limit) (\<lambda>_.
     bindR (table (soft_marks j)) (\<lambda>rows.
       mapR (u64_try TryFromInt) (distinct_numbers (\<lambda>n. n \<le> u) limit rows))))"

definition marks_between :: "nat \<Rightarrow> nat \<Rightarrow> journal \<Rightarrow> error + mark list" where
  "marks_between lo hi j =
     bindR (i64_try TryFromInt lo) (\<lambda>f.
     bindR (i64_try TryFromInt hi) (\<lambda>l.
     bindR (table (soft_marks j)) (\<lambda>rows.
       mapR mark_from_row
         (sort_key mark_key (filter (\<lambda>r. f \<le> mr_number r \<and> mr_number r \<le> l) rows)))))"

definition oldest_mark_created :: "journal \<Rightarrow> error + nat option" where
  "oldest_mark_created j =
     bindR (table (soft_marks j)) (\<lambda>rows.
       optR (u64_try TryFromInt)
         (sql_min (map mr_created (filter (\<lambda>r. mr_kind r \<noteq> ''head'') rows))))"

text \<open>\<open>DELETE FROM soft_marks WHERE ...\<close> on a journal that has the table.\<close>

definition delete_marks :: "(mark_row \<Rightarrow> bool) \<Rightarrow> journal \<Rightarrow> error + journal" where
  "delete_marks P j =
     bindR (table (soft_marks j)) (\<lambda>rows. Inr (j\<lparr>soft_marks := Some (del_where P rows)\<rparr>))"

definition replace_marks :: "mark list \<Rightarrow> mark option \<Rightarrow> journal \<Rightarrow> error + journal" where
  "replace_marks stale fresh j =
     bindR (foldR (\<lambda>m j.
              bindR (i64_try TryFromInt (mk_number m)) (\<lambda>n.
                delete_marks (\<lambda>r. mark_key r = (n, kind_name (mk_kind m), mk_ref m)) j)) stale j)
       (write_mark_opt fresh)"

definition rebase_soft_decision :: "nat \<Rightarrow> string \<Rightarrow> nat \<Rightarrow> journal \<Rightarrow> error + journal" where
  "rebase_soft_decision number hash created' j =
     (let j1 = meta_put (cp_key SOFT_CHECKPOINT) (encode_block number hash) j in
      bindR (delete_marks (\<lambda>r. mr_kind r = ''head'') j1) (\<lambda>j2.
      bindR (i64_try TryFromInt number) (\<lambda>n.
      bindR (i64_try TryFromInt created') (\<lambda>c.
      bindR (table (soft_marks j2)) (\<lambda>rows.
        Inr (j2\<lparr>soft_marks := Some (rows @ [\<lparr>mr_number = n, mr_hash = hash, mr_kind = ''head'',
               mr_ref = '''', mr_created = c, mr_status = None\<rparr>])\<rparr>))))))"

section \<open>Checkpoints hold the highest block\<close>

definition held :: "checkpoint_id \<Rightarrow> journal \<Rightarrow> (nat \<times> string) option" where
  "held which j = Option.bind (meta j (cp_key which)) decode_block"

definition readable :: "checkpoint_id \<Rightarrow> journal \<Rightarrow> bool" where
  "readable which j = (meta j (cp_key which) = None \<or> held which j \<noteq> None)"

lemma decode_encode_block [simp]: "decode_block (encode_block n h) = Some (n, h)"
  by (simp add: decode_block_def encode_block_def)

lemma held_meta_put [simp]:
  "cp_key which \<noteq> ''audit:dropped'' \<Longrightarrow> held which (meta_put (cp_key which) (encode_block n h) j) = Some (n, h)"
  by (simp add: held_def)

lemma checkpoint_laws:
  assumes "cp_key which \<noteq> ''audit:dropped''"
  shows "block_checkpoint (held which) (checkpoint which) (readable which)"
proof
  fix s n h
  assume "readable which s" and none: "held which s = None"
  then have "meta s (cp_key which) = None"
    by (simp add: readable_def)
  then show "\<exists>t. checkpoint which n h s = Inr t \<and> held which t = Some (n, h) \<and> readable which t"
    using assms by (simp add: checkpoint_def readable_def)
next
  fix s m g n h
  assume "held which s = Some (m, g)" and "m < n"
  then show "\<exists>t. checkpoint which n h s = Inr t \<and> held which t = Some (n, h) \<and> readable which t"
    using assms by (auto simp: checkpoint_def readable_def held_def bind_eq_Some_conv)
next
  fix s m g n h
  assume "held which s = Some (m, g)" and "n < m"
  then show "checkpoint which n h s = Inr s"
    by (auto simp: checkpoint_def held_def bind_eq_Some_conv)
next
  fix s n h
  assume "held which s = Some (n, h)"
  then show "checkpoint which n h s = Inr s"
    by (auto simp: checkpoint_def held_def bind_eq_Some_conv)
next
  fix s n g h
  assume "held which s = Some (n, g)" and "g \<noteq> h"
  then show "\<exists>e. checkpoint which n h s = Inl e"
    by (auto simp: checkpoint_def held_def bind_eq_Some_conv)
qed

interpretation finalized: block_checkpoint
  "held FINALIZED_CHECKPOINT" "checkpoint FINALIZED_CHECKPOINT" "readable FINALIZED_CHECKPOINT"
  by (rule checkpoint_laws) (simp add: FINALIZED_CHECKPOINT_def)

interpretation soft: block_checkpoint
  "held SOFT_CHECKPOINT" "checkpoint SOFT_CHECKPOINT" "readable SOFT_CHECKPOINT"
  by (rule checkpoint_laws) (simp add: SOFT_CHECKPOINT_def)

lemma checkpoint_frame [frame]:
  assumes "checkpoint which n h j = Inr j'"
  shows "jobs j' = jobs j" "txs j' = txs j" "members j' = members j"
    "finalized_receipts j' = finalized_receipts j" "soft_marks j' = soft_marks j"
    "epoch_work j' = epoch_work j" "round_work j' = round_work j"
    "epoch_demand j' = epoch_demand j" "round_demand j' = round_demand j"
    "q \<noteq> ''audit:dropped'' \<Longrightarrow> q \<noteq> cp_key which \<Longrightarrow> meta j' q = meta j q"
    "audit_ok j \<Longrightarrow> audit_ok j'"
  using assms
  by (auto simp: checkpoint_def result_simps split: option.splits prod.splits if_splits)

section \<open>Marks are evidence\<close>

text \<open>The row a mark is stored as.\<close>

definition row_of :: "mark \<Rightarrow> mark_row" where
  "row_of m = \<lparr>mr_number = int (mk_number m), mr_hash = mk_hash m, mr_kind = kind_name (mk_kind m),
     mr_ref = mk_ref m, mr_created = int (mk_created m), mr_status = map_option int (mk_status m)\<rparr>"

definition mark_in_range :: "mark \<Rightarrow> bool" where
  "mark_in_range m = (int (mk_number m) \<le> i64_max \<and> int (mk_created m) \<le> i64_max
     \<and> (case mk_status m of None \<Rightarrow> True | Some s \<Rightarrow> int s \<le> i64_max))"

lemma kind_parse_name [simp]: "kind_parse (kind_name k) = Inr k"
  by (cases k) (simp_all add: kind_parse_def)

lemma kind_parse_Inr_iff: "kind_parse s = Inr k \<longleftrightarrow> s = kind_name k"
  by (cases k) (auto simp: kind_parse_def)

lemma kind_name_inject [simp]: "kind_name a = kind_name b \<longleftrightarrow> a = b"
  by (cases a; cases b) simp_all

lemma optR_i64_Inr_iff:
  "optR (i64_try e) x = Inr y \<longleftrightarrow>
   y = map_option int x \<and> (case x of None \<Rightarrow> True | Some s \<Rightarrow> int s \<le> i64_max)"
  by (cases x) (auto simp: optR_def result_simps)

lemma optR_u64_map_int [simp]: "optR (u64_try e) (map_option int x) = Inr x"
  by (cases x) (simp_all add: optR_def)

text \<open>A mark that is written is read back as it was.\<close>

lemma mark_from_row_row_of [simp]: "mark_from_row (row_of m) = Inr m"
  by (simp add: mark_from_row_def row_of_def)

lemma same_soft_marks: "soft_marks j = x \<Longrightarrow> j\<lparr>soft_marks := x\<rparr> = j"
  by (cases j) simp

lemma write_mark_Inr_iff:
  "write_mark m j = Inr j' \<longleftrightarrow>
     mk_kind m \<noteq> Head \<and> mark_in_range m \<and>
     (\<exists>rows. soft_marks j = Some rows \<and>
       (case find (\<lambda>q. mark_key q = mark_key (row_of m)) rows of
          None \<Rightarrow> j' = j\<lparr>soft_marks := Some (rows @ [row_of m])\<rparr>
        | Some r \<Rightarrow> mr_hash r = mk_hash m \<and> mr_status r = map_option int (mk_status m) \<and> j' = j))"
  (is "?l \<longleftrightarrow> ?r")
proof -
  have ins: "insert_mark_row r rows =
      (case find (\<lambda>q. mark_key q = mark_key r) rows of None \<Rightarrow> rows @ [r] | Some _ \<Rightarrow> rows)" for r rows
    by (auto simp: insert_mark_row_def list_ex_iff find_None_iff find_Some_iff split: option.splits)
  have fnd: "find (\<lambda>q. mark_key q = mark_key r) (insert_mark_row r rows) =
      (case find (\<lambda>q. mark_key q = mark_key r) rows of None \<Rightarrow> Some r | Some q \<Rightarrow> Some q)" for r rows
  proof (cases "find (\<lambda>q. mark_key q = mark_key r) rows")
    case None
    moreover have "find P (rows @ [r]) = Some r" if "find P rows = None" "P r" for P
      using that by (induction rows) (auto split: if_splits)
    ultimately show ?thesis by (simp add: ins)
  next
    case (Some q)
    then show ?thesis by (simp add: ins)
  qed
  have "?l \<longleftrightarrow> mk_kind m \<noteq> Head \<and> mark_in_range m \<and>
      (\<exists>rows stored. soft_marks j = Some rows \<and>
         find (\<lambda>q. mark_key q = mark_key (row_of m)) (insert_mark_row (row_of m) rows) = Some stored \<and>
         mr_hash stored = mk_hash m \<and> mr_status stored = map_option int (mk_status m) \<and>
         j' = j\<lparr>soft_marks := Some (insert_mark_row (row_of m) rows)\<rparr>)"
    unfolding write_mark_def table_def mark_in_range_def row_of_def Let_def
    by (simp add: result_simps optR_i64_Inr_iff) blast
  also have "\<dots> \<longleftrightarrow> ?r"
    unfolding fnd unfolding ins
    by (intro conj_cong refl ex_cong1)
       (auto simp: row_of_def same_soft_marks split: option.splits)
  finally show ?thesis .
qed

lemma write_mark_frame [frame]:
  assumes "write_mark m j = Inr j'"
  shows "jobs j' = jobs j" "txs j' = txs j" "members j' = members j" "meta j' = meta j"
    "finalized_receipts j' = finalized_receipts j" "epoch_work j' = epoch_work j"
    "round_work j' = round_work j" "epoch_demand j' = epoch_demand j"
    "round_demand j' = round_demand j" "audit_ok j' = audit_ok j"
    "audit_events j' = audit_events j" "audit_seq j' = audit_seq j"
  using assms by (auto simp: write_mark_Inr_iff split: option.splits)

lemma write_mark_opt_frame [frame]:
  assumes "write_mark_opt m j = Inr j'"
  shows "jobs j' = jobs j" "txs j' = txs j" "members j' = members j" "meta j' = meta j"
    "finalized_receipts j' = finalized_receipts j" "epoch_work j' = epoch_work j"
    "round_work j' = round_work j" "epoch_demand j' = epoch_demand j"
    "round_demand j' = round_demand j" "audit_ok j' = audit_ok j"
    "audit_events j' = audit_events j" "audit_seq j' = audit_seq j"
  using assms by (auto simp: write_mark_opt_def frame split: option.splits)

text \<open>Well-formed marks: the primary key holds, every row is the row of some mark, and there is at
  most one head.\<close>

definition row_ok :: "mark_row \<Rightarrow> bool" where
  "row_ok r = (\<exists>m. r = row_of m \<and> mark_in_range m)"

definition rows_ok :: "mark_row list \<Rightarrow> bool" where
  "rows_ok rows = (distinct (map mark_key rows) \<and> (\<forall>r \<in> set rows. row_ok r)
     \<and> count_where (\<lambda>r. mr_kind r = ''head'') rows \<le> 1)"

definition marks_ok :: "journal \<Rightarrow> bool" where
  "marks_ok j = (\<forall>rows. soft_marks j = Some rows \<longrightarrow> rows_ok rows)"

lemma count_where_append [simp]: "count_where P (xs @ ys) = count_where P xs + count_where P ys"
  by (simp add: count_where_def)

lemma count_where_del_where_le: "count_where P (del_where Q xs) \<le> count_where P xs"
  by (induction xs) auto

lemma kind_name_head [simp]: "kind_name k = ''head'' \<longleftrightarrow> k = Head"
  by (cases k) simp_all

lemma row_of_simps [simp]:
  "mr_number (row_of m) = int (mk_number m)" "mr_hash (row_of m) = mk_hash m"
  "mr_kind (row_of m) = kind_name (mk_kind m)" "mr_ref (row_of m) = mk_ref m"
  "mr_created (row_of m) = int (mk_created m)" "mr_status (row_of m) = map_option int (mk_status m)"
  by (simp_all add: row_of_def)

lemma marks_ok_soft_marks: "soft_marks j' = soft_marks j \<Longrightarrow> marks_ok j \<Longrightarrow> marks_ok j'"
  by (simp add: marks_ok_def)

lemma rows_ok_del_where: "rows_ok rows \<Longrightarrow> rows_ok (del_where P rows)"
  using count_where_del_where_le [of "\<lambda>r. mr_kind r = ''head''" P rows]
  by (simp add: rows_ok_def distinct_map_del_where)

lemma rows_ok_snoc:
  "rows_ok rows \<Longrightarrow> row_ok r \<Longrightarrow> \<forall>q \<in> set rows. mark_key q \<noteq> mark_key r \<Longrightarrow>
   mr_kind r \<noteq> ''head'' \<or> (\<forall>q \<in> set rows. mr_kind q \<noteq> ''head'') \<Longrightarrow> rows_ok (rows @ [r])"
  by (auto simp: rows_ok_def image_iff)

lemma row_ok_row_of: "mark_in_range m \<Longrightarrow> row_ok (row_of m)"
  by (auto simp: row_ok_def)

lemma write_mark_ok:
  assumes "write_mark m j = Inr j'" and "marks_ok j"
  shows "marks_ok j'"
proof -
  from assms(1) obtain rows where rows: "soft_marks j = Some rows" and m: "mk_kind m \<noteq> Head" "mark_in_range m"
    and w: "case find (\<lambda>q. mark_key q = mark_key (row_of m)) rows of
        None \<Rightarrow> j' = j\<lparr>soft_marks := Some (rows @ [row_of m])\<rparr>
      | Some r \<Rightarrow> mr_hash r = mk_hash m \<and> mr_status r = map_option int (mk_status m) \<and> j' = j"
    by (auto simp: write_mark_Inr_iff)
  have ok: "rows_ok rows" using assms(2) rows by (simp add: marks_ok_def)
  show ?thesis
  proof (cases "find (\<lambda>q. mark_key q = mark_key (row_of m)) rows")
    case None
    then have "\<forall>q \<in> set rows. mark_key q \<noteq> mark_key (row_of m)" by (auto simp: find_None_iff)
    then have "rows_ok (rows @ [row_of m])"
      using rows_ok_snoc [OF ok row_ok_row_of [OF m(2)]] m(1) by simp
    then show ?thesis using None w by (simp add: marks_ok_def)
  next
    case (Some r)
    then show ?thesis using w assms(2) by simp
  qed
qed

lemma write_mark_opt_ok: "write_mark_opt m j = Inr j' \<Longrightarrow> marks_ok j \<Longrightarrow> marks_ok j'"
  by (auto simp: write_mark_opt_def write_mark_ok split: option.splits)

lemma delete_marks_Inr_iff [result_simps]:
  "delete_marks P j = Inr j' \<longleftrightarrow>
   (\<exists>rows. soft_marks j = Some rows \<and> j' = j\<lparr>soft_marks := Some (del_where P rows)\<rparr>)"
  by (auto simp: delete_marks_def table_def result_simps)

lemma delete_marks_ok: "delete_marks P j = Inr j' \<Longrightarrow> marks_ok j \<Longrightarrow> marks_ok j'"
  by (auto simp: delete_marks_Inr_iff marks_ok_def rows_ok_del_where)

definition head_of :: "nat \<Rightarrow> string \<Rightarrow> nat \<Rightarrow> mark" where
  "head_of n h c = \<lparr>mk_kind = Head, mk_number = n, mk_hash = h, mk_ref = [], mk_created = c, mk_status = None\<rparr>"

lemma head_row: "\<lparr>mr_number = int n, mr_hash = h, mr_kind = ''head'', mr_ref = [],
    mr_created = int c, mr_status = None\<rparr> = row_of (head_of n h c)"
  by (simp add: row_of_def head_of_def)

lemma head_of_ok: "int n \<le> i64_max \<Longrightarrow> int c \<le> i64_max \<Longrightarrow> row_ok (row_of (head_of n h c))"
  by (auto simp: row_ok_def mark_in_range_def head_of_def)

lemma head_of_simps [simp]: "mk_kind (head_of n h c) = Head" "mk_ref (head_of n h c) = []"
    "mk_number (head_of n h c) = n" "mk_hash (head_of n h c) = h"
  by (simp_all add: head_of_def)

lemma head_mark_ok:
  assumes "head_mark n h c j = Inr j'" and "marks_ok j"
  shows "marks_ok j'"
proof -
  obtain rows where rows: "soft_marks j = Some rows" and r: "int n \<le> i64_max" "int c \<le> i64_max"
    using assms(1) by (auto simp: head_mark_def table_def result_simps Let_def)
  define kept where "kept = del_where (\<lambda>r. mr_kind r = ''head'' \<and> mr_number r \<le> int n) rows"
  have kept: "rows_ok kept"
    using assms(2) rows by (simp add: marks_ok_def kept_def rows_ok_del_where)
  have j': "soft_marks j' = Some (if list_ex (\<lambda>r. mr_kind r = ''head'') kept then kept
              else kept @ [row_of (head_of n h c)])"
    using assms(1) rows
    by (auto simp: head_mark_def table_def result_simps Let_def kept_def [symmetric] head_row)
  show ?thesis
  proof (cases "list_ex (\<lambda>r. mr_kind r = ''head'') kept")
    case True
    then show ?thesis using kept j' by (simp add: marks_ok_def)
  next
    case False
    then have "\<forall>r \<in> set kept. mr_kind r \<noteq> ''head''" by (simp add: list_ex_iff)
    then have "rows_ok (kept @ [row_of (head_of n h c)])"
      using rows_ok_snoc [OF kept head_of_ok [OF r]] by (auto simp: mark_key_def)
    then show ?thesis using False j' by (simp add: marks_ok_def)
  qed
qed

lemma soft_decision_ok: "soft_decision n h c j = Inr j' \<Longrightarrow> marks_ok j \<Longrightarrow> marks_ok j'"
  by (auto simp: soft_decision_def result_simps dest: head_mark_ok marks_ok_soft_marks [OF checkpoint_frame(5)])

lemma replace_marks_ok:
  assumes "replace_marks stale fresh j = Inr j'" and "marks_ok j"
  shows "marks_ok j'"
proof -
  obtain j1 where f: "foldR (\<lambda>m j.
              bindR (i64_try TryFromInt (mk_number m)) (\<lambda>n.
                delete_marks (\<lambda>r. mark_key r = (n, kind_name (mk_kind m), mk_ref m)) j)) stale j = Inr j1"
    and w: "write_mark_opt fresh j1 = Inr j'"
    using assms(1) by (auto simp: replace_marks_def bindR_Inr_iff)
  have "marks_ok j1"
    by (rule foldR_invariant [where P = marks_ok, OF f assms(2)])
       (auto simp: bindR_Inr_iff intro: delete_marks_ok)
  then show ?thesis using w write_mark_opt_ok by blast
qed

lemma rebase_soft_decision_ok:
  assumes "rebase_soft_decision n h c j = Inr j'" and "marks_ok j"
  shows "marks_ok j'"
proof -
  obtain rows where rows: "soft_marks j = Some rows" and r: "int n \<le> i64_max" "int c \<le> i64_max"
    and j': "soft_marks j' = Some (del_where (\<lambda>r. mr_kind r = ''head'') rows @ [row_of (head_of n h c)])"
    using assms(1) by (auto simp: rebase_soft_decision_def result_simps table_def Let_def head_row)
  have "rows_ok (del_where (\<lambda>r. mr_kind r = ''head'') rows)"
    using assms(2) rows by (simp add: marks_ok_def rows_ok_del_where)
  then have "rows_ok (del_where (\<lambda>r. mr_kind r = ''head'') rows @ [row_of (head_of n h c)])"
    using rows_ok_snoc [OF _ head_of_ok [OF r]] by (auto simp: mark_key_def)
  then show ?thesis using j' by (simp add: marks_ok_def)
qed

lemma mapR_all:
  "\<forall>r \<in> set rows. \<exists>m. r = g m \<and> f r = Inr m \<Longrightarrow> \<exists>ms. mapR f rows = Inr ms \<and> map g ms = rows"
  by (induction rows) auto

text \<open>Well-formed marks can always be read, in the order of their key.\<close>

lemma soft_marks_read_ok:
  assumes "marks_ok j" and "soft_marks j = Some rows"
  shows "\<exists>ms. soft_marks_read j = Inr ms \<and> map row_of ms = sort_key mark_key rows"
proof -
  have "\<forall>r \<in> set (sort_key mark_key rows). \<exists>m. r = row_of m \<and> mark_from_row r = Inr m"
    using assms by (force simp: marks_ok_def rows_ok_def row_ok_def)
  then show ?thesis
    using mapR_all [of "sort_key mark_key rows" row_of mark_from_row] assms(2)
    by (auto simp: soft_marks_read_def table_def)
qed

section \<open>Properties\<close>

lemma write_mark_conflict:
  assumes "soft_marks j = Some rows" and "r \<in> set rows" and "rows_ok rows"
    and "mark_key r = mark_key (row_of m)" and "mk_kind m \<noteq> Head" and "mark_in_range m"
    and "mr_hash r \<noteq> mk_hash m \<or> mr_status r \<noteq> map_option int (mk_status m)"
  shows "write_mark m j = Inl SoftMarkConflict"
proof -
  obtain q where q: "find (\<lambda>q. mark_key q = mark_key (row_of m)) rows = Some q"
    using assms(2,4) by (cases "find (\<lambda>q. mark_key q = mark_key (row_of m)) rows") (auto simp: find_None_iff)
  have "q \<in> set rows" "mark_key q = mark_key r"
    using q assms(4) by (auto simp: find_Some_iff)
  moreover have "inj_on mark_key (set rows)"
    using assms(3) by (simp add: rows_ok_def distinct_map)
  ultimately have "q = r" using assms(2) by (simp add: inj_onD)
  have ex: "list_ex (\<lambda>q. mark_key q = mark_key (row_of m)) rows"
    using assms(2,4) by (auto simp: list_ex_iff)
  have i: "i64_try TryFromInt (mk_number m) = Inr (int (mk_number m))"
    "i64_try TryFromInt (mk_created m) = Inr (int (mk_created m))"
    "optR (i64_try TryFromInt) (mk_status m) = Inr (map_option int (mk_status m))"
    using assms(6) by (auto simp: mark_in_range_def optR_i64_Inr_iff i64_try_def)
  show ?thesis
    using assms(1,5,7) q ex \<open>q = r\<close>
    by (auto simp: write_mark_def i table_def insert_mark_row_def row_of_def Let_def ensure_def)
qed

text \<open>C7: Evidence is never overwritten. Writing a mark keeps every row that was there, leaves the
  marks well-formed and the mark on record; the same mark again changes nothing; and another hash or
  status for the same block, kind and reference is refused as a conflict.\<close>

theorem write_mark_evidence:
  assumes "write_mark m j = Inr j'" and "marks_ok j"
  shows "marks_ok j'
    \<and> (\<exists>rows rows'. soft_marks j = Some rows \<and> soft_marks j' = Some rows' \<and> set rows \<subseteq> set rows'
         \<and> (\<exists>r \<in> set rows'. mark_key r = mark_key (row_of m) \<and> mr_hash r = mk_hash m
              \<and> mr_status r = map_option int (mk_status m)))
    \<and> write_mark m j' = Inr j'
    \<and> (\<forall>m'. mark_key (row_of m') = mark_key (row_of m) \<and> mark_in_range m'
          \<and> (mk_hash m' \<noteq> mk_hash m \<or> mk_status m' \<noteq> mk_status m)
          \<longrightarrow> write_mark m' j' = Inl SoftMarkConflict)"
proof -
  note ok' = write_mark_ok [OF assms]
  from assms(1) obtain rows where rows: "soft_marks j = Some rows" and m: "mk_kind m \<noteq> Head" "mark_in_range m"
    by (auto simp: write_mark_Inr_iff)
  obtain rows' r where rows': "soft_marks j' = Some rows'" and sub: "set rows \<subseteq> set rows'"
    and r: "r \<in> set rows'" "mark_key r = mark_key (row_of m)" "mr_hash r = mk_hash m"
      "mr_status r = map_option int (mk_status m)"
    and again: "write_mark m j' = Inr j'"
  proof (cases "find (\<lambda>q. mark_key q = mark_key (row_of m)) rows")
    case None
    have snoc: "find P (rows @ [x]) = Some x" if "find P rows = None" "P x" for P and x :: mark_row
      using that by (induction rows) (auto split: if_splits)
    have j': "j' = j\<lparr>soft_marks := Some (rows @ [row_of m])\<rparr>"
      using assms(1) None rows by (simp add: write_mark_Inr_iff)
    have "write_mark m j' = Inr j'"
      using m snoc [OF None] by (simp add: write_mark_Inr_iff j')
    then show thesis
      using that [of "rows @ [row_of m]" "row_of m"] by (simp add: j' subset_insertI)
  next
    case (Some q)
    then have q: "q \<in> set rows" "mark_key q = mark_key (row_of m)" by (auto simp: find_Some_iff)
    have e: "mr_hash q = mk_hash m" "mr_status q = map_option int (mk_status m)" "j' = j"
      using assms(1) Some rows by (simp_all add: write_mark_Inr_iff)
    show thesis
      by (rule that [of rows q]) (use q e rows assms(1) in simp_all)
  qed
  have "rows_ok rows'" using ok' rows' by (simp add: marks_ok_def)
  then have "write_mark m' j' = Inl SoftMarkConflict"
    if "mark_key (row_of m') = mark_key (row_of m)" "mark_in_range m'"
      "mk_hash m' \<noteq> mk_hash m \<or> mk_status m' \<noteq> mk_status m" for m'
  proof -
    have "mk_kind m' = mk_kind m" using that(1) by (simp add: mark_key_def)
    moreover have "mr_hash r \<noteq> mk_hash m' \<or> mr_status r \<noteq> map_option int (mk_status m')"
      using that(3) r(3,4) by auto
    ultimately show ?thesis
      using write_mark_conflict [OF rows' r(1) \<open>rows_ok rows'\<close>, of m'] r(2) that(1,2) m(1) by simp
  qed
  then have "\<forall>m'. mark_key (row_of m') = mark_key (row_of m) \<and> mark_in_range m'
          \<and> (mk_hash m' \<noteq> mk_hash m \<or> mk_status m' \<noteq> mk_status m)
          \<longrightarrow> write_mark m' j' = Inl SoftMarkConflict"
    by simp
  moreover have "\<exists>q \<in> set rows'. mark_key q = mark_key (row_of m) \<and> mr_hash q = mk_hash m
      \<and> mr_status q = map_option int (mk_status m)"
    using r by (intro bexI [of _ r]) simp_all
  ultimately show ?thesis using ok' rows rows' sub again by simp
qed

definition sample_mark :: mark where
  "sample_mark = \<lparr>mk_kind = Sign, mk_number = 7, mk_hash = ''aa'', mk_ref = ''t1'', mk_created = 5,
     mk_status = None\<rparr>"

theorem write_mark_evidence_witness:
  "\<exists>j'. write_mark sample_mark (blank_journal\<lparr>soft_marks := Some []\<rparr>) = Inr j'
     \<and> write_mark sample_mark j' = Inr j'"
proof -
  let ?j = "blank_journal\<lparr>soft_marks := Some []\<rparr>"
  let ?j' = "blank_journal\<lparr>soft_marks := Some [row_of sample_mark]\<rparr>"
  have "write_mark sample_mark ?j = Inr ?j'"
    by (simp add: write_mark_Inr_iff sample_mark_def mark_in_range_def i64_max_def)
  moreover have "marks_ok ?j"
    by (simp add: marks_ok_def rows_ok_def)
  ultimately show ?thesis
    using write_mark_evidence [of sample_mark ?j ?j'] by blast
qed

text \<open>C8: The checkpoint holds the highest block. After any sequence of ticks that the finalized
  checkpoint accepted, it holds one of the blocks it was given (or the one it began with), no accepted
  block is higher, every accepted block of its number has its hash, and it is not below where it
  began.\<close>

theorem finalized_checkpoint_sequence:
  assumes "foldR (\<lambda>b. finalized_checkpoint (fst b) (snd b)) bs j = Inr j'"
    and "readable FINALIZED_CHECKPOINT j"
  shows "(\<forall>b \<in> set bs. \<exists>m g. held FINALIZED_CHECKPOINT j' = Some (m, g)
            \<and> fst b \<le> m \<and> (fst b = m \<longrightarrow> snd b = g))
    \<and> (\<forall>n h. held FINALIZED_CHECKPOINT j = Some (n, h) \<longrightarrow>
         (\<exists>m g. held FINALIZED_CHECKPOINT j' = Some (m, g) \<and> n \<le> m \<and> (n = m \<longrightarrow> h = g)))
    \<and> (\<forall>b. held FINALIZED_CHECKPOINT j' = Some b \<longrightarrow>
         b \<in> set bs \<or> held FINALIZED_CHECKPOINT j = Some b)"
proof -
  have all: "finalized.advance_all bs j = Inr j'"
    using assms(1) by (simp add: finalized.advance_all_def finalized_checkpoint_def [abs_def])
  have "\<exists>m g. held FINALIZED_CHECKPOINT j' = Some (m, g) \<and> n \<le> m \<and> (n = m \<longrightarrow> h = g)"
    if "held FINALIZED_CHECKPOINT j = Some (n, h)" for n h
    using finalized.never_down [OF all assms(2) finalized.covers_held [OF that]]
    by (simp add: finalized.covers_iff)
  then show ?thesis
    using finalized.sequence_covers [OF all assms(2), unfolded finalized.covers_iff]
      finalized.sequence_from [OF all assms(2)]
    by blast
qed

theorem finalized_checkpoint_sequence_witness:
  "\<exists>j'. foldR (\<lambda>b. finalized_checkpoint (fst b) (snd b)) [(5, ''a''), (3, ''b''), (9, ''c'')] blank_journal
           = Inr j'
     \<and> (\<exists>m g. held FINALIZED_CHECKPOINT j' = Some (m, g) \<and> 9 \<le> m)"
proof -
  obtain j' where j': "foldR (\<lambda>b. finalized_checkpoint (fst b) (snd b))
      [(5, ''a''), (3, ''b''), (9, ''c'')] blank_journal = Inr j'"
    by (simp add: finalized_checkpoint_def checkpoint_def FINALIZED_CHECKPOINT_def blank_journal_def)
  have "readable FINALIZED_CHECKPOINT blank_journal"
    by (simp add: readable_def blank_journal_def)
  note seq = finalized_checkpoint_sequence [OF j' this]
  have "\<exists>m g. held FINALIZED_CHECKPOINT j' = Some (m, g) \<and> 9 \<le> m"
    using seq [THEN conjunct1] by (metis fst_conv list.set_intros)
  then show ?thesis using j' by blast
qed

end
