(* ===== verification/Lane_Spec.thy ===== *)
theory Lane_Spec
  imports Prelude
begin

text \<open>
  The contract of a nonce lane, for the components that sign on it: what entering it requires and
  leaves, and what settling a nonce leaves. The abstract lane is \<open>Free\<close> or owned by one nonce and one
  job; a provider (\<open>Lane\<close>, the journal) implements it, and its clients get exclusivity and the
  simulation from here.
\<close>

datatype ('n, 'w) lane_state = Free | Owned 'n 'w

fun lane_enter :: "'n \<Rightarrow> 'w \<Rightarrow> ('n, 'w) lane_state \<Rightarrow> ('n, 'w) lane_state option" where
  "lane_enter n w Free = Some (Owned n w)"
| "lane_enter n w (Owned m v) = (if m = n \<and> v = w then Some (Owned m v) else None)"

fun lane_settle :: "'n \<Rightarrow> ('n, 'w) lane_state \<Rightarrow> ('n, 'w) lane_state" where
  "lane_settle n Free = Free"
| "lane_settle n (Owned m v) = (if m = n then Free else Owned m v)"

locale nonce_lane =
  fixes owners :: "'s \<Rightarrow> ('n \<times> 'w) set"
    and enter :: "'n \<Rightarrow> 'w \<Rightarrow> 'a \<Rightarrow> 's \<Rightarrow> 'e + 's"
    and settle :: "'n \<Rightarrow> 's \<Rightarrow> 'e + 's"
  assumes enter_owners: "enter n w a s = Inr t \<Longrightarrow> owners s \<subseteq> {(n, w)} \<and> owners t = {(n, w)}"
    and settle_owners: "settle n s = Inr t \<Longrightarrow> owners t = {p \<in> owners s. fst p \<noteq> n}"
begin

text \<open>At most one nonce and one job are in the lane.\<close>

definition exclusive :: "'s \<Rightarrow> bool" where
  "exclusive s = (\<exists>p. owners s \<subseteq> {p})"

definition abs_lane :: "'s \<Rightarrow> ('n, 'w) lane_state" where
  "abs_lane s = (if owners s = {} then Free
                 else (let p = the_elem (owners s) in Owned (fst p) (snd p)))"

lemma abs_lane_Owned: "owners s = {(n, w)} \<Longrightarrow> abs_lane s = Owned n w"
  by (simp add: abs_lane_def)

lemma abs_lane_Free: "owners s = {} \<Longrightarrow> abs_lane s = Free"
  by (simp add: abs_lane_def)

lemma exclusive_cases: "exclusive s \<Longrightarrow> owners s = {} \<or> (\<exists>n w. owners s = {(n, w)})"
  by (auto simp: exclusive_def subset_singleton_iff)

lemma enter_exclusive: "enter n w a s = Inr t \<Longrightarrow> exclusive t"
  by (auto simp: exclusive_def dest: enter_owners)

lemma settle_exclusive: "settle n s = Inr t \<Longrightarrow> exclusive s \<Longrightarrow> exclusive t"
  unfolding exclusive_def using settle_owners [of n s t] by blast

text \<open>The provider simulates the abstract lane.\<close>

lemma enter_simulates: "enter n w a s = Inr t \<Longrightarrow> lane_enter n w (abs_lane s) = Some (abs_lane t)"
proof -
  assume e: "enter n w a s = Inr t"
  then have t: "abs_lane t = Owned n w" using abs_lane_Owned [of t n w] enter_owners [OF e] by simp
  have "owners s = {} \<or> owners s = {(n, w)}" using enter_owners [OF e] by blast
  then show ?thesis using t by (auto simp: abs_lane_Free abs_lane_Owned)
qed

lemma settle_simulates:
  assumes "settle n s = Inr t" and "exclusive s"
  shows "abs_lane t = lane_settle n (abs_lane s)"
proof -
  note o = settle_owners [OF assms(1)]
  from exclusive_cases [OF assms(2)] show ?thesis
  proof
    assume "owners s = {}"
    then show ?thesis using o by (simp add: abs_lane_Free)
  next
    assume "\<exists>m w. owners s = {(m, w)}"
    then obtain m w where s: "owners s = {(m, w)}" by blast
    then have "owners t = (if m = n then {} else {(m, w)})" using o by auto
    then show ?thesis using s by (simp add: abs_lane_Free abs_lane_Owned split: if_splits)
  qed
qed

text \<open>A lane someone else owns refuses the entry.\<close>

lemma enter_refused: "(m, v) \<in> owners s \<Longrightarrow> (m, v) \<noteq> (n, w) \<Longrightarrow> \<exists>e. enter n w a s = Inl e"
  using enter_owners [of n w a s] by (cases "enter n w a s") auto

end

end
