(* ===== verification/Lane.thy ===== *)
theory Lane
  imports Marks Lane_Spec
begin

text \<open>
  The nonce lane (\<open>journal.rs\<close>): signing, batches, settlement and the nonce floor. Attempts that are
  \<open>signed\<close> or \<open>submitted\<close> are the lane; a new attempt enters it only when every other one has its
  nonce and its job, and no operator sweep is under way. A settlement resolves every attempt of a
  nonce, raises the floor past it and moves the jobs it served, in one transaction.

  \<open>keccak_hex\<close> stands for the hex text of \<open>alloy_primitives::keccak256\<close>.
\<close>

definition MAX_BATCH_MEMBERS :: nat where "MAX_BATCH_MEMBERS = 16"

definition SWEEP_ATTEMPT_KEY :: string where "SWEEP_ATTEMPT_KEY = ''sweep:attempt''"

definition NONCE_FLOOR_KEY :: string where "NONCE_FLOOR_KEY = ''nonce_floor''"

definition is_batch_job :: "string \<Rightarrow> bool" where
  "is_batch_job j = starts_with ''batch:'' j"

definition batch_key :: "(string \<Rightarrow> string) \<Rightarrow> string list \<Rightarrow> error + string" where
  "batch_key keccak_hex ms =
     ensure (2 \<le> length ms \<and> length ms \<le> MAX_BATCH_MEMBERS) BatchMemberCount
       (Inr (''batch:'' @ hd ms @ '':'' @ show_nat (length ms) @ '':''
             @ take 16 (keccak_hex (join '','' ms))))"

section \<open>Backoffs and the states a settlement gives\<close>

definition prepare_retry_key :: "string \<Rightarrow> string" where
  "prepare_retry_key i = ''prepare_retry_ms:'' @ i"

definition preflight_retry_key :: "string \<Rightarrow> string" where
  "preflight_retry_key i = ''preflight_retry:'' @ i"

definition batch_exclude_key :: "string \<Rightarrow> string" where
  "batch_exclude_key i = ''batch_exclude:'' @ i"

definition clear_backoffs :: "string \<Rightarrow> journal \<Rightarrow> journal" where
  "clear_backoffs i j =
     meta_delete (\<lambda>k. k = prepare_retry_key i \<or> k = preflight_retry_key i
                    \<or> k = batch_exclude_key i) j"

text \<open>With the number of rows the last statement changed.\<close>

definition set_resolved_state :: "string \<Rightarrow> string \<Rightarrow> journal \<Rightarrow> nat \<times> journal" where
  "set_resolved_state i st j =
     (let affected = count_where (\<lambda>r. job_id r = i) (jobs j) in
      if st \<noteq> ''reprove''
      then (affected, update_jobs (\<lambda>r. job_id r = i) (\<lambda>r. r\<lparr>job_state := st\<rparr>) j)
      else (affected, update_jobs (\<lambda>r. job_id r = i)
              (\<lambda>r. r\<lparr>job_state := ''pending'', job_proof := None, job_call := None\<rparr>)
              (clear_backoffs i j)))"

section \<open>Entering the lane\<close>

text \<open>\<open>nonce_lane_conflicts_sql\<close> and \<open>member_lane_conflicts_sql\<close>.\<close>

definition lane_conflicts :: "int \<Rightarrow> string \<Rightarrow> journal \<Rightarrow> nat" where
  "lane_conflicts n job j = count_where (\<lambda>t. active t \<and> (nonce t \<noteq> n \<or> tx_job t \<noteq> job)) (txs j)"

definition member_conflicts :: "string \<Rightarrow> string \<Rightarrow> journal \<Rightarrow> nat" where
  "member_conflicts job i j =
     count_where (\<lambda>t. active t \<and> tx_job t \<noteq> job
        \<and> (tx_job t = i \<or> list_ex (\<lambda>m. request_id m = i \<and> mb_job m = tx_job t) (members j))) (txs j)"

definition next_rowid :: "attempt list \<Rightarrow> int" where
  "next_rowid ts = (case sql_max (map tx_id ts) of None \<Rightarrow> 1 | Some m \<Rightarrow> m + 1)"

definition claim_lane :: "attempt \<Rightarrow> journal \<Rightarrow> error + journal" where
  "claim_lane a j =
     ensure (lane_conflicts (nonce a) (tx_job a) j = 0) LaneOwned
      (ensure (meta j SWEEP_ATTEMPT_KEY = None) SweepOwnsLane
       (ensure (\<not> list_ex (\<lambda>t. tx_hash t = tx_hash a) (txs j)) UniqueConstraint
         (Inr (j\<lparr>txs := txs j @ [a\<lparr>tx_id := next_rowid (txs j), tx_state := ''signed'',
                                      broadcast := 0\<rparr>]\<rparr>))))"

definition members_in :: "string \<Rightarrow> journal \<Rightarrow> string list" where
  "members_in job j = map request_id (sort_key position (filter (\<lambda>m. mb_job m = job) (members j)))"

definition member_live :: "job \<Rightarrow> bool" where
  "member_live r = (job_state r \<in> {''prepared'', ''signed'', ''submitted''})"

definition mark_members_signed :: "string list \<Rightarrow> journal \<Rightarrow> error + journal" where
  "mark_members_signed ms j =
     foldR (\<lambda>i j. ensure (count_where (\<lambda>r. job_id r = i \<and> member_live r) (jobs j) = 1) MemberNotPrepared
        (Inr (update_jobs (\<lambda>r. job_id r = i \<and> member_live r) (\<lambda>r. r\<lparr>job_state := ''signed''\<rparr>) j))) ms j"

definition set_epoch_state :: "string \<Rightarrow> string \<Rightarrow> error \<Rightarrow> journal \<Rightarrow> error + journal" where
  "set_epoch_state key st e j =
     bindR (table (epoch_work j)) (\<lambda>rows.
       ensure (count_where (\<lambda>r. ew_key r = key) rows = 1) e
         (Inr (j\<lparr>epoch_work := Some (upd_where (\<lambda>r. ew_key r = key) (\<lambda>r. r\<lparr>ew_state := st\<rparr>) rows)\<rparr>)))"

definition signed_marked :: "attempt \<Rightarrow> mark option \<Rightarrow> journal \<Rightarrow> error + journal" where
  "signed_marked a m j =
     ensure (tx_kind a \<in> {''fulfill'', ''cancel'', ''epoch'', ''epoch_cancel''}) UnknownWorkKind
      (ensure (\<not> (tx_kind a = ''fulfill'' \<and> is_batch_job (tx_job a))) SingleTargetsBatch
       (bindR (claim_lane a j) (\<lambda>j1.
        bindR (write_mark_opt m j1) (\<lambda>j2.
          if starts_with ''epoch'' (tx_kind a) then
            set_epoch_state (tx_job a) ''signed'' EpochWorkMissing j2
          else if is_batch_job (tx_job a) then
            (let ms = members_in (tx_job a) j2 in
             ensure (ms \<noteq> []) BatchMembersMissing (mark_members_signed ms j2))
          else
            ensure (count_where (\<lambda>r. job_id r = tx_job a) (jobs j2) = 1) GameWorkMissing
              (Inr (update_jobs (\<lambda>r. job_id r = tx_job a) (\<lambda>r. r\<lparr>job_state := ''signed''\<rparr>) j2))))))"

definition signed :: "attempt \<Rightarrow> journal \<Rightarrow> error + journal" where
  "signed a j = signed_marked a None j"

definition insert_member :: "string \<Rightarrow> nat \<times> string \<Rightarrow> journal \<Rightarrow> error + journal" where
  "insert_member job p j =
     bindR (i64_try TryFromInt (fst p)) (\<lambda>pos.
       ensure (\<not> list_ex (\<lambda>m. mb_job m = job \<and> request_id m = snd p) (members j)) UniqueConstraint
         (Inr (j\<lparr>members := members j @ [\<lparr>mb_job = job, request_id = snd p, position = pos\<rparr>]\<rparr>)))"

definition signed_batch_marked ::
    "(string \<Rightarrow> string) \<Rightarrow> attempt \<Rightarrow> string list \<Rightarrow> mark option \<Rightarrow> journal \<Rightarrow> error + journal" where
  "signed_batch_marked keccak_hex a ms m j =
     ensure (tx_kind a = ''fulfill_batch'') NotABatchAttempt
      (bindR (batch_key keccak_hex ms) (\<lambda>key.
       ensure (tx_job a = key) BatchKeyMismatch
        (ensure (length (remdups ms) = length ms) DuplicateBatchMember
         (ensure (list_all (\<lambda>i. member_conflicts (tx_job a) i j = 0) ms) RequestLiveElsewhere
          (bindR (claim_lane a j) (\<lambda>j1.
           bindR (write_mark_opt m j1) (\<lambda>j2.
             let existing = members_in (tx_job a) j2 in
             bindR (if existing = [] then foldR (insert_member (tx_job a)) (enumerate 0 ms) j2
                    else ensure (existing = ms) BatchMembersChanged (Inr j2)) (\<lambda>j3.
               mark_members_signed ms j3))))))))"

definition signed_batch ::
    "(string \<Rightarrow> string) \<Rightarrow> attempt \<Rightarrow> string list \<Rightarrow> journal \<Rightarrow> error + journal" where
  "signed_batch keccak_hex a ms j = signed_batch_marked keccak_hex a ms None j"

text \<open>\<open>unresolved_txs_sql\<close>.\<close>

definition unresolved :: "journal \<Rightarrow> attempt list" where
  "unresolved j = sort_key tx_id (filter active (txs j))"

definition set_tx_state :: "int \<Rightarrow> string \<Rightarrow> journal \<Rightarrow> journal" where
  "set_tx_state i st j = j\<lparr>txs := upd_where (\<lambda>t. tx_id t = i) (\<lambda>t. t\<lparr>tx_state := st\<rparr>) (txs j)\<rparr>"

definition broadcast_attempt :: "int \<Rightarrow> int \<Rightarrow> journal \<Rightarrow> journal" where
  "broadcast_attempt i now j = j\<lparr>txs := upd_where (\<lambda>t. tx_id t = i) (\<lambda>t. t\<lparr>broadcast := now\<rparr>) (txs j)\<rparr>"

section \<open>Settling a nonce\<close>

text \<open>\<open>INSERT INTO meta ... 'nonce_floor' ... ON CONFLICT DO UPDATE SET value = MAX(...)\<close>.\<close>

definition raise_floor :: "int \<Rightarrow> journal \<Rightarrow> journal" where
  "raise_floor next j =
     meta_put NONCE_FLOOR_KEY
       (Text (show_int (case meta j NONCE_FLOOR_KEY of
                None \<Rightarrow> next
              | Some v \<Rightarrow> max (mval_int v) (sql_int (show_int next))))) j"

definition resolve_txs :: "int \<Rightarrow> journal \<Rightarrow> journal" where
  "resolve_txs n j = j\<lparr>txs := upd_where (\<lambda>t. nonce t = n) (\<lambda>t. t\<lparr>tx_state := ''resolved''\<rparr>) (txs j)\<rparr>"

definition resolve_nonce :: "int \<Rightarrow> journal \<Rightarrow> error + journal" where
  "resolve_nonce n j =
     bindR (ok_or NonceOverflow (i64_checked_add n 1)) (\<lambda>next.
       Inr (raise_floor next (resolve_txs n j)))"

definition resolve_nonce_job_marked ::
    "int \<Rightarrow> string \<Rightarrow> string \<Rightarrow> mark option \<Rightarrow> journal \<Rightarrow> error + journal" where
  "resolve_nonce_job_marked n job st m j =
     bindR (ok_or NonceOverflow (i64_checked_add n 1)) (\<lambda>next.
     bindR (write_mark_opt m j) (\<lambda>j1.
       let (updated, j2) = set_resolved_state job st (raise_floor next (resolve_txs n j1))
       in ensure (updated = 1) ReceiptJobMissing (Inr j2)))"

definition resolve_nonce_epoch_marked ::
    "int \<Rightarrow> string \<Rightarrow> string \<Rightarrow> mark option \<Rightarrow> journal \<Rightarrow> error + journal" where
  "resolve_nonce_epoch_marked n key st m j =
     bindR (ok_or NonceOverflow (i64_checked_add n 1)) (\<lambda>next.
     bindR (write_mark_opt m j) (\<lambda>j1.
       set_epoch_state key st EpochReceiptMissing (raise_floor next (resolve_txs n j1))))"

text \<open>One member of a batch that settled.\<close>

definition settle_member :: "string \<times> string \<Rightarrow> journal \<Rightarrow> error + journal" where
  "settle_member p j =
     (let i = fst p; st = snd p;
          (updated, j1) =
            (if st = ''prepared''
             then (count_where (\<lambda>r. job_id r = i) (jobs j),
                   update_jobs (\<lambda>r. job_id r = i)
                     (\<lambda>r. r\<lparr>job_state := (if job_call r = None then ''pending'' else ''prepared'')\<rparr>) j)
             else set_resolved_state i st j)
      in ensure (updated = 1) BatchMemberMissing
           (Inr (if st = ''prepared''
                 then meta_delete (\<lambda>k. k = preflight_retry_key i)
                        (fst (meta_insert (batch_exclude_key i) (Text ''1'') j1))
                 else j1)))"

definition resolve_nonce_batch_marked ::
    "int \<Rightarrow> string \<Rightarrow> (string \<times> string) list \<Rightarrow> mark option \<Rightarrow> journal \<Rightarrow> error + journal" where
  "resolve_nonce_batch_marked n key states m j =
     bindR (ok_or NonceOverflow (i64_checked_add n 1)) (\<lambda>next.
       let ms = members_in key j; accounted = remdups (map fst states) in
       ensure (ms \<noteq> []) BatchMembersMissing
        (ensure (length accounted = length states \<and> length accounted = length ms
                 \<and> list_all (\<lambda>i. i \<in> set accounted) ms) BatchNotAccounted
         (bindR (write_mark_opt m j) (\<lambda>j1.
           foldR settle_member states (raise_floor next (resolve_txs n j1))))))"

definition nonce_floor :: "journal \<Rightarrow> error + nat" where
  "nonce_floor j =
     (case meta j NONCE_FLOOR_KEY of
        None \<Rightarrow> Inr 0
      | Some v \<Rightarrow> ok_or ParseInt (Option.bind (as_text v) (parse_uint u64_max)))"

text \<open>Broadcast bookkeeping of the jobs.\<close>

definition members_state :: "string \<Rightarrow> string \<Rightarrow> journal \<Rightarrow> journal" where
  "members_state job st j =
     update_jobs (\<lambda>r. list_ex (\<lambda>m. mb_job m = job \<and> request_id m = job_id r) (members j))
       (\<lambda>r. r\<lparr>job_state := st\<rparr>) j"

definition set_state :: "string \<Rightarrow> string \<Rightarrow> journal \<Rightarrow> journal" where
  "set_state i st j = update_jobs (\<lambda>r. job_id r = i) (\<lambda>r. r\<lparr>job_state := st\<rparr>) j"

lemma floor_key_incident [simp]:
  "NONCE_FLOOR_KEY \<noteq> ''finality:mismatch''" "NONCE_FLOOR_KEY \<noteq> ''finality:recovery:fill''"
  "''finality:mismatch'' \<noteq> NONCE_FLOOR_KEY" "''finality:recovery:fill'' \<noteq> NONCE_FLOOR_KEY"
  by (simp_all add: NONCE_FLOOR_KEY_def)

lemma lane_keys [simp]:
  "NONCE_FLOOR_KEY \<noteq> ''audit:dropped''" "SWEEP_ATTEMPT_KEY \<noteq> ''audit:dropped''"
  "NONCE_FLOOR_KEY \<noteq> SWEEP_ATTEMPT_KEY" "SWEEP_ATTEMPT_KEY \<noteq> NONCE_FLOOR_KEY"
  by (simp_all add: NONCE_FLOOR_KEY_def SWEEP_ATTEMPT_KEY_def)

lemma retry_keys [simp]:
  "prepare_retry_key i = prepare_retry_key k \<longleftrightarrow> i = k"
  "preflight_retry_key i = preflight_retry_key k \<longleftrightarrow> i = k"
  "batch_exclude_key i = batch_exclude_key k \<longleftrightarrow> i = k"
  "prepare_retry_key i \<noteq> ''audit:dropped''" "preflight_retry_key i \<noteq> ''audit:dropped''"
  "batch_exclude_key i \<noteq> ''audit:dropped''"
  by (simp_all add: prepare_retry_key_def preflight_retry_key_def batch_exclude_key_def)

section \<open>The lane has one owner\<close>

definition owners_of :: "attempt list \<Rightarrow> (int \<times> string) set" where
  "owners_of ts = set (map (\<lambda>t. (nonce t, tx_job t)) (filter active ts))"

definition owners :: "journal \<Rightarrow> (int \<times> string) set" where
  "owners j = owners_of (txs j)"

lemma owners_txs: "txs j' = txs j \<Longrightarrow> owners j' = owners j"
  by (simp add: owners_def)

lemma owners_of_simps [simp]:
  "owners_of [] = {}"
  "owners_of (t # ts) = (if active t then insert (nonce t, tx_job t) (owners_of ts) else owners_of ts)"
  "owners_of (ts @ us) = owners_of ts \<union> owners_of us"
  by (auto simp: owners_of_def)

lemma in_owners_of: "p \<in> owners_of ts \<longleftrightarrow> (\<exists>t \<in> set ts. active t \<and> p = (nonce t, tx_job t))"
  by (auto simp: owners_of_def)

lemma owners_subset_iff:
  "owners j \<subseteq> {(n, w)} \<longleftrightarrow> (\<forall>t \<in> set (txs j). active t \<longrightarrow> nonce t = n \<and> tx_job t = w)"
  by (auto simp: owners_def owners_of_def image_subset_iff)

lemma active_resolved [simp]: "\<not> active (t\<lparr>tx_state := ''resolved''\<rparr>)"
  by (simp add: active_def)

lemma active_signed [simp]: "active (t\<lparr>tx_state := ''signed''\<rparr>)"
  by (simp add: active_def)

lemma active_broadcast [simp]: "active (t\<lparr>broadcast := b\<rparr>) = active t"
  by (simp add: active_def)

lemma claim_lane_Inr_iff:
  "claim_lane a j = Inr j' \<longleftrightarrow>
     owners j \<subseteq> {(nonce a, tx_job a)} \<and> meta j SWEEP_ATTEMPT_KEY = None
     \<and> tx_hash a \<notin> tx_hash ` set (txs j)
     \<and> j' = j\<lparr>txs := txs j @ [a\<lparr>tx_id := next_rowid (txs j), tx_state := ''signed'', broadcast := 0\<rparr>]\<rparr>"
  unfolding claim_lane_def owners_subset_iff
  by (auto simp: result_simps lane_conflicts_def list_ex_iff image_iff)

lemma claim_lane_owners: "claim_lane a j = Inr j' \<Longrightarrow> owners j' = {(nonce a, tx_job a)}"
  by (auto simp: claim_lane_Inr_iff owners_def active_def)

lemma resolve_txs_owners: "owners (resolve_txs n j) = {p \<in> owners j. fst p \<noteq> n}"
proof -
  have "owners_of (upd_where (\<lambda>t. nonce t = n) (\<lambda>t. t\<lparr>tx_state := ''resolved''\<rparr>) ts)
      = {p \<in> owners_of ts. fst p \<noteq> n}" for ts
  proof (induction ts)
    case Nil
    show ?case by simp
  next
    case (Cons t ts)
    show ?case
      unfolding upd_where_simps owners_of_simps if_distrib [of owners_of] Cons
      by (auto split: if_splits)
  qed
  then show ?thesis by (simp add: owners_def resolve_txs_def)
qed

lemma raise_floor_frame [simp]:
  "jobs (raise_floor n j) = jobs j" "txs (raise_floor n j) = txs j"
  "members (raise_floor n j) = members j"
  "finalized_receipts (raise_floor n j) = finalized_receipts j"
  "soft_marks (raise_floor n j) = soft_marks j"
  "epoch_work (raise_floor n j) = epoch_work j" "round_work (raise_floor n j) = round_work j"
  "epoch_demand (raise_floor n j) = epoch_demand j" "round_demand (raise_floor n j) = round_demand j"
  "q \<noteq> ''audit:dropped'' \<Longrightarrow> q \<noteq> NONCE_FLOOR_KEY \<Longrightarrow> meta (raise_floor n j) q = meta j q"
  "audit_ok j \<Longrightarrow> audit_ok (raise_floor n j)"
  by (simp_all add: raise_floor_def)

lemma resolve_txs_frame [simp]:
  "jobs (resolve_txs n j) = jobs j" "meta (resolve_txs n j) = meta j"
  "members (resolve_txs n j) = members j"
  "finalized_receipts (resolve_txs n j) = finalized_receipts j"
  "soft_marks (resolve_txs n j) = soft_marks j"
  "epoch_work (resolve_txs n j) = epoch_work j" "round_work (resolve_txs n j) = round_work j"
  "epoch_demand (resolve_txs n j) = epoch_demand j" "round_demand (resolve_txs n j) = round_demand j"
  "audit_ok (resolve_txs n j) = audit_ok j"
  by (simp_all add: resolve_txs_def)

section \<open>The nonce floor\<close>

text \<open>The floor as SQLite compares it.\<close>

definition floor_value :: "journal \<Rightarrow> int" where
  "floor_value j = (case meta j NONCE_FLOOR_KEY of None \<Rightarrow> 0 | Some v \<Rightarrow> mval_int v)"

text \<open>The value is the text of a number that is not negative, and no nonce at or above it is
  resolved.\<close>

definition floor_ok :: "journal \<Rightarrow> bool" where
  "floor_ok j = ((\<forall>v. meta j NONCE_FLOOR_KEY = Some v \<longrightarrow>
        (\<exists>i. 0 \<le> i \<and> i \<le> i64_max \<and> v = Text (show_int i)))
     \<and> (\<forall>t \<in> set (txs j). tx_state t = ''resolved'' \<longrightarrow> nonce t < floor_value j))"

lemma meta_raise_floor:
  "meta (raise_floor n j) NONCE_FLOOR_KEY =
     Some (Text (show_int (case meta j NONCE_FLOOR_KEY of
                None \<Rightarrow> n | Some v \<Rightarrow> max (mval_int v) (sql_int (show_int n)))))"
  by (simp add: raise_floor_def)

lemma floor_value_raise:
  assumes "0 \<le> n" and "n \<le> i64_max"
  shows "floor_value (raise_floor n j)
           = (case meta j NONCE_FLOOR_KEY of None \<Rightarrow> n | Some v \<Rightarrow> max (floor_value j) n)"
proof -
  have lo: "i64_min \<le> n" using assms(1) by (simp add: i64_min_def)
  have "i64_min \<le> max (mval_int v) n \<and> max (mval_int v) n \<le> i64_max" for v
    using mval_int_range [of v] lo assms(2) by auto
  then show ?thesis
    using assms lo
    by (simp add: floor_value_def meta_raise_floor sql_int_show_int split: option.splits)
qed

lemma floor_value_raise_ge: "0 \<le> n \<Longrightarrow> n \<le> i64_max \<Longrightarrow> n \<le> floor_value (raise_floor n j)"
  by (simp add: floor_value_raise split: option.splits)

lemma floor_value_raise_mono:
  "0 \<le> n \<Longrightarrow> n \<le> i64_max \<Longrightarrow> floor_value j \<le> floor_value (raise_floor n j)"
  by (auto simp: floor_value_raise split: option.splits) (simp add: floor_value_def)

text \<open>What \<open>nonce_floor\<close> parses is what SQLite compares.\<close>

lemma nonce_floor_value:
  assumes "floor_ok j"
  shows "nonce_floor j = Inr (nat (floor_value j)) \<and> 0 \<le> floor_value j"
proof (cases "meta j NONCE_FLOOR_KEY")
  case None
  then show ?thesis by (simp add: nonce_floor_def floor_value_def)
next
  case (Some v)
  then obtain i where i: "0 \<le> i" "i \<le> i64_max" "v = Text (show_int i)"
    using assms by (auto simp: floor_ok_def)
  have "nat i \<le> u64_max" using i by (simp add: width_defs)
  then show ?thesis
    using Some i parse_uint_show_nat [of "nat i" u64_max]
    by (simp add: nonce_floor_def floor_value_def as_text_def show_int_def i64_min_def
        mval_int_def sql_int_show_nat)
qed

lemma floor_ok_cong:
  "txs j' = txs j \<Longrightarrow> meta j' NONCE_FLOOR_KEY = meta j NONCE_FLOOR_KEY \<Longrightarrow> floor_ok j' = floor_ok j"
  by (simp add: floor_ok_def floor_value_def)

lemma floor_value_cong:
  "meta j' NONCE_FLOOR_KEY = meta j NONCE_FLOOR_KEY \<Longrightarrow> floor_value j' = floor_value j"
  by (simp add: floor_value_def)

text \<open>Settling a nonce keeps the floor above every resolved nonce.\<close>

lemma floor_ok_settle:
  assumes "floor_ok j" and "0 \<le> n" and "n + 1 \<le> i64_max"
  shows "floor_ok (raise_floor (n + 1) (resolve_txs n j))"
proof -
  let ?j = "raise_floor (n + 1) (resolve_txs n j)"
  have n: "0 \<le> n + 1" using assms(2) by simp
  have same: "floor_value (resolve_txs n j) = floor_value j" by (simp add: floor_value_def)
  have ge: "n + 1 \<le> floor_value ?j" "floor_value j \<le> floor_value ?j"
    using floor_value_raise_ge [OF n assms(3)] floor_value_raise_mono [OF n assms(3)] same by metis+
  have res: "nonce t < floor_value ?j" if "t \<in> set (txs ?j)" "tx_state t = ''resolved''" for t
  proof -
    from that(1) obtain q where q: "q \<in> set (txs j)"
      and t: "t = (if nonce q = n then q\<lparr>tx_state := ''resolved''\<rparr> else q)"
      by (auto simp: resolve_txs_def in_upd_where_iff)
    show ?thesis
    proof (cases "nonce q = n")
      case True
      then show ?thesis using t ge(1) by simp
    next
      case False
      then have "tx_state q = ''resolved''" "nonce t = nonce q" using t that(2) by simp_all
      then have "nonce t < floor_value j" using assms(1) q by (simp add: floor_ok_def)
      then show ?thesis using ge(2) by linarith
    qed
  qed
  have "\<exists>i. 0 \<le> i \<and> i \<le> i64_max \<and> v = Text (show_int i)" if "meta ?j NONCE_FLOOR_KEY = Some v" for v
  proof -
    let ?i = "case meta j NONCE_FLOOR_KEY of
                None \<Rightarrow> n + 1 | Some v \<Rightarrow> max (mval_int v) (sql_int (show_int (n + 1)))"
    have "sql_int (show_int (n + 1)) = n + 1"
      using n assms(3) by (simp add: sql_int_show_int i64_min_def)
    then have "0 \<le> ?i \<and> ?i \<le> i64_max"
      using n assms(3) mval_int_range by (auto simp: max_def split: option.splits)
    moreover have "v = Text (show_int ?i)" using that by (simp add: meta_raise_floor)
    ultimately show ?thesis by blast
  qed
  then show ?thesis using res by (simp add: floor_ok_def)
qed

section \<open>Job bookkeeping\<close>

text \<open>The meta keys on which the safety of the lane and of the evidence rests.\<close>

definition PROTECTED :: "string list" where
  "PROTECTED = [''nonce_floor'', ''sweep:attempt'', ''finalized_checkpoint'', ''soft_checkpoint'',
     ''finality:mismatch'', ''finality:recovery:fill'', ''scope'', ''schema_version'', ''instance_id'', ''coordinator_kind'']"

text \<open>Nothing changed but jobs, audit events and unprotected meta keys.\<close>

definition bookkeeping :: "journal \<Rightarrow> journal \<Rightarrow> bool" where
  "bookkeeping j j' = (txs j' = txs j \<and> members j' = members j
     \<and> finalized_receipts j' = finalized_receipts j \<and> soft_marks j' = soft_marks j
     \<and> epoch_work j' = epoch_work j \<and> round_work j' = round_work j
     \<and> (\<forall>q \<in> set PROTECTED. meta j' q = meta j q) \<and> (audit_ok j \<longrightarrow> audit_ok j'))"

lemma PROTECTED_dropped [simp]: "q \<in> set PROTECTED \<Longrightarrow> q \<noteq> ''audit:dropped''"
  by (auto simp: PROTECTED_def)

lemma bookkeeping_refl [simp, intro]: "bookkeeping j j"
  by (simp add: bookkeeping_def)

lemma bookkeeping_trans [trans]: "bookkeeping i j \<Longrightarrow> bookkeeping j k \<Longrightarrow> bookkeeping i k"
  by (auto simp: bookkeeping_def)

lemma bookkeeping_update_jobs [simp, intro]: "bookkeeping j (update_jobs P f j)"
  by (simp add: bookkeeping_def)

lemma bookkeeping_insert_job [simp, intro]: "bookkeeping j (insert_job i d j)"
  by (simp add: bookkeeping_def)

lemma bookkeeping_meta_put [intro]: "k \<notin> set PROTECTED \<Longrightarrow> bookkeeping j (meta_put k v j)"
  by (auto simp: bookkeeping_def)

lemma bookkeeping_meta_delete [intro]:
  "\<forall>q \<in> set PROTECTED. \<not> P q \<Longrightarrow> bookkeeping j (meta_delete P j)"
  by (simp add: bookkeeping_def)

lemma bookkeeping_meta_insert [intro]:
  "k \<notin> set PROTECTED \<Longrightarrow> bookkeeping j (fst (meta_insert k v j))"
  by (auto simp: meta_insert_def)

lemma bookkeeping_foldR:
  "foldR f xs j = Inr j' \<Longrightarrow> (\<And>x s s'. f x s = Inr s' \<Longrightarrow> bookkeeping s s') \<Longrightarrow> bookkeeping j j'"
  by (rule foldR_invariant [where P = "bookkeeping j"]) (auto intro: bookkeeping_trans)

lemma bookkeepingD:
  assumes "bookkeeping j j'"
  shows "txs j' = txs j" "members j' = members j" "soft_marks j' = soft_marks j"
    "finalized_receipts j' = finalized_receipts j" "epoch_work j' = epoch_work j"
    "round_work j' = round_work j"
    "meta j' NONCE_FLOOR_KEY = meta j NONCE_FLOOR_KEY"
    "meta j' SWEEP_ATTEMPT_KEY = meta j SWEEP_ATTEMPT_KEY"
    "audit_ok j \<Longrightarrow> audit_ok j'" "owners j' = owners j"
    "floor_value j' = floor_value j" "floor_ok j' = floor_ok j" "marks_ok j' = marks_ok j"
    "meta j' ''finality:mismatch'' = meta j ''finality:mismatch''"
    "meta j' ''finality:recovery:fill'' = meta j ''finality:recovery:fill''"
  using assms
  by (auto simp: bookkeeping_def PROTECTED_def NONCE_FLOOR_KEY_def SWEEP_ATTEMPT_KEY_def
      owners_def floor_value_def floor_ok_def marks_ok_def)

lemma clear_backoffs_bookkeeping [simp, intro]: "bookkeeping j (clear_backoffs i j)"
  unfolding clear_backoffs_def
  by (rule bookkeeping_meta_delete)
     (simp add: PROTECTED_def prepare_retry_key_def preflight_retry_key_def batch_exclude_key_def)

lemma jobs_clear_backoffs [simp]: "jobs (clear_backoffs i j) = jobs j"
  by (simp add: clear_backoffs_def)

lemma set_resolved_state_bookkeeping [intro]: "bookkeeping j (snd (set_resolved_state i st j))"
  by (auto simp: set_resolved_state_def Let_def intro: bookkeeping_trans)

lemma mark_members_signed_bookkeeping:
  "mark_members_signed ms j = Inr j' \<Longrightarrow> bookkeeping j j'"
  unfolding mark_members_signed_def
  by (erule bookkeeping_foldR) (auto simp: result_simps)

lemma batch_exclude_unprotected: "batch_exclude_key i \<notin> set PROTECTED"
  by (simp add: PROTECTED_def batch_exclude_key_def)

lemma preflight_unprotected: "preflight_retry_key i \<notin> set PROTECTED"
  by (simp add: PROTECTED_def preflight_retry_key_def)

lemma prepare_unprotected: "prepare_retry_key i \<notin> set PROTECTED"
  by (simp add: PROTECTED_def prepare_retry_key_def)

text \<open>What a batch member's row becomes.\<close>

definition resolved_job :: "string \<Rightarrow> job \<Rightarrow> job" where
  "resolved_job st r =
     (if st = ''reprove'' then r\<lparr>job_state := ''pending'', job_proof := None, job_call := None\<rparr>
      else r\<lparr>job_state := st\<rparr>)"

definition member_outcome :: "string \<Rightarrow> job \<Rightarrow> job" where
  "member_outcome st r =
     (if st = ''prepared'' then r\<lparr>job_state := (if job_call r = None then ''pending'' else ''prepared'')\<rparr>
      else resolved_job st r)"

lemma resolved_job_id [simp]: "job_id (resolved_job st r) = job_id r"
  by (simp add: resolved_job_def)

lemma member_outcome_id [simp]: "job_id (member_outcome st r) = job_id r"
  by (simp add: member_outcome_def)

lemma set_resolved_state_jobs:
  "fst (set_resolved_state i st j) = count_where (\<lambda>r. job_id r = i) (jobs j)"
  "jobs (snd (set_resolved_state i st j)) = upd_where (\<lambda>r. job_id r = i) (resolved_job st) (jobs j)"
  by (auto simp: set_resolved_state_def Let_def resolved_job_def [abs_def])

lemma settle_member_prepared:
  "settle_member (i, ''prepared'') j =
     ensure (count_where (\<lambda>r. job_id r = i) (jobs j) = 1) BatchMemberMissing
       (Inr (meta_delete (\<lambda>k. k = preflight_retry_key i)
          (fst (meta_insert (batch_exclude_key i) (Text ''1'')
             (update_jobs (\<lambda>r. job_id r = i)
               (\<lambda>r. r\<lparr>job_state := (if job_call r = None then ''pending'' else ''prepared'')\<rparr>) j)))))"
  by (simp add: settle_member_def)

lemma settle_member_other:
  "st \<noteq> ''prepared'' \<Longrightarrow> settle_member (i, st) j =
     ensure (fst (set_resolved_state i st j) = 1) BatchMemberMissing (Inr (snd (set_resolved_state i st j)))"
  by (simp add: settle_member_def split_def Let_def)

lemma jobs_meta_insert [simp]: "jobs (fst (meta_insert k v j)) = jobs j"
  by (simp add: meta_insert_def)

lemma settle_member_Inr:
  assumes "settle_member (i, st) j = Inr j'"
  shows "bookkeeping j j' \<and> jobs j' = upd_where (\<lambda>r. job_id r = i) (member_outcome st) (jobs j)
    \<and> count_where (\<lambda>r. job_id r = i) (jobs j) = 1"
proof (cases "st = ''prepared''")
  case True
  let ?j1 = "update_jobs (\<lambda>r. job_id r = i)
               (\<lambda>r. r\<lparr>job_state := (if job_call r = None then ''pending'' else ''prepared'')\<rparr>) j"
  let ?j2 = "fst (meta_insert (batch_exclude_key i) (Text ''1'') ?j1)"
  have j': "j' = meta_delete (\<lambda>k. k = preflight_retry_key i) ?j2"
    and c: "count_where (\<lambda>r. job_id r = i) (jobs j) = 1"
    using assms unfolding True settle_member_prepared ensure_Inr_iff by simp_all
  have "bookkeeping j ?j2"
    using bookkeeping_meta_insert [OF batch_exclude_unprotected] by (rule bookkeeping_trans [rotated]) simp
  moreover have "bookkeeping ?j2 j'"
    unfolding j' using preflight_unprotected by (intro bookkeeping_meta_delete) metis
  moreover have "member_outcome st =
      (\<lambda>r. r\<lparr>job_state := (if job_call r = None then ''pending'' else ''prepared'')\<rparr>)"
    by (simp add: member_outcome_def [abs_def] True)
  ultimately show ?thesis using c by (auto simp: j' intro: bookkeeping_trans)
next
  case False
  then have j': "j' = snd (set_resolved_state i st j)"
    and c: "count_where (\<lambda>r. job_id r = i) (jobs j) = 1"
    using assms unfolding settle_member_other [OF False] ensure_Inr_iff set_resolved_state_jobs by simp_all
  have "member_outcome st = resolved_job st"
    by (simp add: member_outcome_def [abs_def] False)
  then show ?thesis
    using c set_resolved_state_bookkeeping by (simp add: j' set_resolved_state_jobs)
qed

section \<open>What each operation leaves\<close>

lemma member_live_signed [simp]: "member_live (r\<lparr>job_state := ''signed''\<rparr>)"
  by (simp add: member_live_def)

lemma count_where_upd_where:
  assumes "\<And>r. Q r \<Longrightarrow> P (f r) = P r"
  shows "count_where P (upd_where Q f rows) = count_where P rows"
proof (induction rows)
  case (Cons r rows)
  have "P (if Q r then f r else r) = P r" using assms by simp
  then show ?case using Cons by simp
qed simp

lemma upd_where_upd_where:
  "(\<And>r. P (f r) = P r) \<Longrightarrow> (\<And>r. f (f r) = f r) \<Longrightarrow>
   upd_where P f (upd_where Q f rows) = upd_where (\<lambda>r. P r \<or> Q r) f rows"
  by (simp add: upd_where_def)

lemma upd_where_cong:
  "(\<And>r. P r = Q r) \<Longrightarrow> upd_where P f rows = upd_where Q f rows"
  by (simp add: upd_where_def)

text \<open>Every member is marked, and each was live exactly once.\<close>

lemma mark_members_signed_jobs:
  "mark_members_signed ms j = Inr j' \<Longrightarrow>
   jobs j' = upd_where (\<lambda>r. job_id r \<in> set ms \<and> member_live r) (\<lambda>r. r\<lparr>job_state := ''signed''\<rparr>) (jobs j)
   \<and> (\<forall>i \<in> set ms. count_where (\<lambda>r. job_id r = i \<and> member_live r) (jobs j) = 1)"
proof (induction ms arbitrary: j)
  case Nil
  then show ?case by (simp add: mark_members_signed_def upd_where_def)
next
  case (Cons i ms)
  let ?sig = "\<lambda>r::job. r\<lparr>job_state := ''signed''\<rparr>"
  let ?live = "\<lambda>i r. job_id r = i \<and> member_live r"
  from Cons.prems have one: "count_where (?live i) (jobs j) = 1"
    and rest: "mark_members_signed ms (update_jobs (?live i) ?sig j) = Inr j'"
    unfolding mark_members_signed_def by (simp_all add: result_simps)
  note IH = Cons.IH [OF rest, unfolded update_jobs_frame]
  have cnt: "count_where (?live k) (upd_where (?live i) ?sig (jobs j)) = count_where (?live k) (jobs j)" for k
    by (rule count_where_upd_where) simp
  have "jobs j' = upd_where (\<lambda>r. job_id r \<in> set (i # ms) \<and> member_live r) ?sig (jobs j)"
    unfolding IH [THEN conjunct1] by (auto simp: upd_where_def)
  then show ?case
    using one IH [THEN conjunct2] cnt by simp
qed

lemma set_epoch_state_frame [frame]:
  assumes "set_epoch_state key st e j = Inr j'"
  shows "txs j' = txs j" "meta j' = meta j" "jobs j' = jobs j" "members j' = members j"
    "soft_marks j' = soft_marks j" "finalized_receipts j' = finalized_receipts j"
    "audit_ok j' = audit_ok j"
  using assms by (auto simp: set_epoch_state_def table_def result_simps)

text \<open>The part of a journal the lane's safety is about.\<close>

definition lane_view :: "journal \<Rightarrow> attempt list \<times> mval option list" where
  "lane_view j = (txs j, map (meta j)
     [NONCE_FLOOR_KEY, SWEEP_ATTEMPT_KEY, ''finality:mismatch'', ''finality:recovery:fill''])"

lemma lane_view_bookkeeping: "bookkeeping j j' \<Longrightarrow> lane_view j' = lane_view j"
  by (simp add: lane_view_def bookkeepingD)

lemma lane_view_write_mark_opt: "write_mark_opt m j = Inr j' \<Longrightarrow> lane_view j' = lane_view j"
  by (simp add: lane_view_def write_mark_opt_frame)

lemma lane_view_set_epoch_state: "set_epoch_state key st e j = Inr j' \<Longrightarrow> lane_view j' = lane_view j"
  by (simp add: lane_view_def set_epoch_state_frame)

lemma lane_viewD:
  assumes "lane_view j' = lane_view j"
  shows "txs j' = txs j" "meta j' NONCE_FLOOR_KEY = meta j NONCE_FLOOR_KEY"
    "meta j' SWEEP_ATTEMPT_KEY = meta j SWEEP_ATTEMPT_KEY" "owners j' = owners j"
    "floor_value j' = floor_value j" "floor_ok j' = floor_ok j"
    "meta j' ''finality:mismatch'' = meta j ''finality:mismatch''"
    "meta j' ''finality:recovery:fill'' = meta j ''finality:recovery:fill''"
  using assms by (simp_all add: lane_view_def owners_def floor_value_def floor_ok_def)

text \<open>Signing, single or batch, adds one attempt to the lane and changes nothing else of it.\<close>

lemma signed_marked_lane:
  assumes "signed_marked a m j = Inr j'"
  shows "\<exists>j1. claim_lane a j = Inr j1 \<and> lane_view j' = lane_view j1"
proof -
  from assms obtain j1 j2 where j1: "claim_lane a j = Inr j1" and j2: "write_mark_opt m j1 = Inr j2"
    and rest: "(if starts_with ''epoch'' (tx_kind a) then
            set_epoch_state (tx_job a) ''signed'' EpochWorkMissing j2
          else if is_batch_job (tx_job a) then
            (let ms = members_in (tx_job a) j2 in
             ensure (ms \<noteq> []) BatchMembersMissing (mark_members_signed ms j2))
          else
            ensure (count_where (\<lambda>r. job_id r = tx_job a) (jobs j2) = 1) GameWorkMissing
              (Inr (update_jobs (\<lambda>r. job_id r = tx_job a) (\<lambda>r. r\<lparr>job_state := ''signed''\<rparr>) j2))) = Inr j'"
    unfolding signed_marked_def ensure_Inr_iff bindR_Inr_iff by blast
  from rest have "lane_view j' = lane_view j2"
    by (auto simp: ensure_Inr_iff Let_def split: if_splits
        intro: lane_view_set_epoch_state lane_view_bookkeeping mark_members_signed_bookkeeping)
  then show ?thesis using j1 lane_view_write_mark_opt [OF j2] by simp
qed

lemma insert_member_frame [frame]:
  assumes "insert_member job p j = Inr j'"
  shows "lane_view j' = lane_view j" "jobs j' = jobs j" "soft_marks j' = soft_marks j"
    "audit_ok j' = audit_ok j" "meta j' = meta j" "finalized_receipts j' = finalized_receipts j"
    "epoch_work j' = epoch_work j"
  using assms by (auto simp: insert_member_def result_simps lane_view_def)

lemma insert_members_frame:
  assumes "foldR (insert_member job) ps j = Inr j'"
  shows "lane_view j' = lane_view j \<and> jobs j' = jobs j \<and> soft_marks j' = soft_marks j
     \<and> audit_ok j' = audit_ok j"
  by (rule foldR_invariant [where P = "\<lambda>s. lane_view s = lane_view j \<and> jobs s = jobs j
        \<and> soft_marks s = soft_marks j \<and> audit_ok s = audit_ok j", OF assms])
     (simp_all add: insert_member_frame)

lemma signed_batch_parts:
  assumes "signed_batch_marked keccak_hex a ms m j = Inr j'"
  obtains j1 j2 j3 where "batch_key keccak_hex ms = Inr (tx_job a)" and "distinct ms"
    and "\<forall>i \<in> set ms. member_conflicts (tx_job a) i j = 0"
    and "claim_lane a j = Inr j1" and "write_mark_opt m j1 = Inr j2"
    and "(if members_in (tx_job a) j2 = [] then foldR (insert_member (tx_job a)) (enumerate 0 ms) j2
          else ensure (members_in (tx_job a) j2 = ms) BatchMembersChanged (Inr j2)) = Inr j3"
    and "mark_members_signed ms j3 = Inr j'"
  using assms
  unfolding signed_batch_marked_def ensure_Inr_iff bindR_Inr_iff Let_def list_all_iff
    length_remdups_eq remdups_id_iff_distinct
  by blast

lemma signed_batch_lane:
  assumes "signed_batch_marked keccak_hex a ms m j = Inr j'"
  shows "\<exists>j1. claim_lane a j = Inr j1 \<and> lane_view j' = lane_view j1"
proof -
  from assms obtain j1 j2 j3 where j1: "claim_lane a j = Inr j1" and j2: "write_mark_opt m j1 = Inr j2"
    and j3: "(if members_in (tx_job a) j2 = [] then foldR (insert_member (tx_job a)) (enumerate 0 ms) j2
          else ensure (members_in (tx_job a) j2 = ms) BatchMembersChanged (Inr j2)) = Inr j3"
    and j': "mark_members_signed ms j3 = Inr j'"
    by (rule signed_batch_parts)
  have "lane_view j3 = lane_view j2"
    using j3 insert_members_frame by (auto simp: ensure_Inr_iff split: if_splits)
  then show ?thesis
    using j1 lane_view_write_mark_opt [OF j2]
      lane_view_bookkeeping [OF mark_members_signed_bookkeeping [OF j']] by simp
qed

lemma lane_view_settle_cong:
  assumes "lane_view j1 = lane_view j"
  shows "lane_view (raise_floor k (resolve_txs n j1)) = lane_view (raise_floor k (resolve_txs n j))"
  using lane_viewD [OF assms]
  by (simp add: lane_view_def meta_raise_floor resolve_txs_def)

text \<open>Every settlement resolves the attempts of its nonce and raises the floor past it.\<close>

lemma resolve_nonce_lane:
  "resolve_nonce n j = Inr j' \<Longrightarrow>
   n + 1 \<le> i64_max \<and> lane_view j' = lane_view (raise_floor (n + 1) (resolve_txs n j))"
  by (auto simp: resolve_nonce_def result_simps)

lemma resolve_nonce_job_lane:
  assumes "resolve_nonce_job_marked n job st m j = Inr j'"
  shows "n + 1 \<le> i64_max \<and> lane_view j' = lane_view (raise_floor (n + 1) (resolve_txs n j))"
proof -
  from assms obtain j1 where n: "n + 1 \<le> i64_max" and j1: "write_mark_opt m j = Inr j1"
    and j': "j' = snd (set_resolved_state job st (raise_floor (n + 1) (resolve_txs n j1)))"
    unfolding resolve_nonce_job_marked_def Let_def split_def bindR_Inr_iff ok_or_Inr_iff
      i64_checked_add_Some_iff ensure_Inr_iff by blast
  show ?thesis
    using n lane_view_settle_cong [OF lane_view_write_mark_opt [OF j1]]
      lane_view_bookkeeping [OF set_resolved_state_bookkeeping] by (simp add: j')
qed

lemma resolve_nonce_epoch_lane:
  assumes "resolve_nonce_epoch_marked n key st m j = Inr j'"
  shows "n + 1 \<le> i64_max \<and> lane_view j' = lane_view (raise_floor (n + 1) (resolve_txs n j))"
proof -
  from assms obtain j1 where n: "n + 1 \<le> i64_max" and j1: "write_mark_opt m j = Inr j1"
    and j': "set_epoch_state key st EpochReceiptMissing (raise_floor (n + 1) (resolve_txs n j1)) = Inr j'"
    unfolding resolve_nonce_epoch_marked_def bindR_Inr_iff ok_or_Inr_iff i64_checked_add_Some_iff by blast
  show ?thesis
    using n lane_view_settle_cong [OF lane_view_write_mark_opt [OF j1]]
      lane_view_set_epoch_state [OF j'] by simp
qed

lemma resolve_batch_parts:
  assumes "resolve_nonce_batch_marked n key states m j = Inr j'"
  obtains j1 where "n + 1 \<le> i64_max" and "write_mark_opt m j = Inr j1" and "members_in key j \<noteq> []"
    and "distinct (map fst states)" and "length states = length (members_in key j)"
    and "set (members_in key j) \<subseteq> set (map fst states)"
    and "foldR settle_member states (raise_floor (n + 1) (resolve_txs n j1)) = Inr j'"
proof -
  have d: "distinct (map fst states)" if "length (remdups (map fst states)) = length states"
    using that by (metis length_map length_remdups_eq remdups_id_iff_distinct)
  from assms obtain j1 where "n + 1 \<le> i64_max" "write_mark_opt m j = Inr j1" "members_in key j \<noteq> []"
    and l: "length (remdups (map fst states)) = length states"
      "length (remdups (map fst states)) = length (members_in key j)"
      "\<forall>i \<in> set (members_in key j). i \<in> set (remdups (map fst states))"
    and "foldR settle_member states (raise_floor (n + 1) (resolve_txs n j1)) = Inr j'"
    unfolding resolve_nonce_batch_marked_def Let_def bindR_Inr_iff ok_or_Inr_iff
      i64_checked_add_Some_iff ensure_Inr_iff list_all_iff by blast
  moreover have "length states = length (members_in key j)" using l(1,2) by simp
  moreover have "set (members_in key j) \<subseteq> set (map fst states)" using l(3) by auto
  ultimately show thesis using that d [OF l(1)] by blast
qed

lemma settle_members_bookkeeping:
  "foldR settle_member states j = Inr j' \<Longrightarrow> bookkeeping j j'"
  by (erule bookkeeping_foldR) (metis settle_member_Inr prod.collapse)

lemma resolve_nonce_batch_lane:
  assumes "resolve_nonce_batch_marked n key states m j = Inr j'"
  shows "n + 1 \<le> i64_max \<and> lane_view j' = lane_view (raise_floor (n + 1) (resolve_txs n j))"
proof -
  from assms obtain j1 where n: "n + 1 \<le> i64_max" and j1: "write_mark_opt m j = Inr j1"
    and j': "foldR settle_member states (raise_floor (n + 1) (resolve_txs n j1)) = Inr j'"
    by (rule resolve_batch_parts)
  show ?thesis
    using n lane_view_settle_cong [OF lane_view_write_mark_opt [OF j1]]
      lane_view_bookkeeping [OF settle_members_bookkeeping [OF j']] by simp
qed

lemmas settle_lane = resolve_nonce_lane resolve_nonce_job_lane resolve_nonce_epoch_lane
  resolve_nonce_batch_lane

lemmas enter_lane = signed_marked_lane signed_batch_lane

lemma owners_enter:
  assumes "\<exists>j1. claim_lane a j = Inr j1 \<and> lane_view j' = lane_view j1"
  shows "owners j \<subseteq> {(nonce a, tx_job a)} \<and> owners j' = {(nonce a, tx_job a)}
    \<and> meta j SWEEP_ATTEMPT_KEY = None"
  using assms claim_lane_owners lane_viewD(4) by (metis claim_lane_Inr_iff)

lemma owners_settle:
  assumes "n + 1 \<le> i64_max \<and> lane_view j' = lane_view (raise_floor (n + 1) (resolve_txs n j))"
  shows "owners j' = {p \<in> owners j. fst p \<noteq> n}"
  using lane_viewD(4) [OF assms [THEN conjunct2]]
  by (simp add: owners_txs [of "raise_floor (n + 1) (resolve_txs n j)"] resolve_txs_owners)

section \<open>The journal is a nonce lane\<close>

text \<open>Single fulfillments, cancellations and epochs, settled by a receipt of a job or an epoch; and
  batches, settled member by member. An attempt with its nonce and job set is any attempt.\<close>

interpretation single: nonce_lane owners
  "\<lambda>n w x. signed_marked ((fst x)\<lparr>nonce := n, tx_job := w\<rparr>) (snd x)"
  "\<lambda>n. resolve_nonce_job_marked n job st m" for job st m
proof
  fix n w x s t
  assume "signed_marked ((fst x)\<lparr>nonce := n, tx_job := w\<rparr>) (snd x) s = Inr t"
  from owners_enter [OF signed_marked_lane [OF this]]
  show "owners s \<subseteq> {(n, w)} \<and> owners t = {(n, w)}" by simp
next
  fix n s t
  assume "resolve_nonce_job_marked n job st m s = Inr t"
  then show "owners t = {p \<in> owners s. fst p \<noteq> n}"
    using owners_settle resolve_nonce_job_lane by blast
qed

interpretation epoch: nonce_lane owners
  "\<lambda>n w x. signed_marked ((fst x)\<lparr>nonce := n, tx_job := w\<rparr>) (snd x)"
  "\<lambda>n. resolve_nonce_epoch_marked n key st m" for key st m
proof
  fix n w x s t
  assume "signed_marked ((fst x)\<lparr>nonce := n, tx_job := w\<rparr>) (snd x) s = Inr t"
  from owners_enter [OF signed_marked_lane [OF this]]
  show "owners s \<subseteq> {(n, w)} \<and> owners t = {(n, w)}" by simp
next
  fix n s t
  assume "resolve_nonce_epoch_marked n key st m s = Inr t"
  then show "owners t = {p \<in> owners s. fst p \<noteq> n}"
    using owners_settle resolve_nonce_epoch_lane by blast
qed

interpretation batch: nonce_lane owners
  "\<lambda>n w x. signed_batch_marked keccak_hex ((fst x)\<lparr>nonce := n, tx_job := w\<rparr>) (fst (snd x)) (snd (snd x))"
  "\<lambda>n. resolve_nonce_batch_marked n key states m" for keccak_hex key states m
proof
  fix n w x s t
  assume "signed_batch_marked keccak_hex ((fst x)\<lparr>nonce := n, tx_job := w\<rparr>) (fst (snd x)) (snd (snd x)) s = Inr t"
  from owners_enter [OF signed_batch_lane [OF this]]
  show "owners s \<subseteq> {(n, w)} \<and> owners t = {(n, w)}" by simp
next
  fix n s t
  assume "resolve_nonce_batch_marked n key states m s = Inr t"
  then show "owners t = {p \<in> owners s. fst p \<noteq> n}"
    using owners_settle resolve_nonce_batch_lane by blast
qed

section \<open>Batches commit together\<close>

definition member_row :: "string \<Rightarrow> nat \<times> string \<Rightarrow> member" where
  "member_row job p = \<lparr>mb_job = job, request_id = snd p, position = int (fst p)\<rparr>"

lemma insert_members_result:
  "foldR (insert_member job) ps j = Inr j' \<Longrightarrow> members j' = members j @ map (member_row job) ps"
proof (induction ps arbitrary: j)
  case (Cons p ps)
  then obtain j1 where j1: "insert_member job p j = Inr j1" and rest: "foldR (insert_member job) ps j1 = Inr j'"
    by (auto simp: bindR_Inr_iff)
  from j1 have "members j1 = members j @ [member_row job p]"
    by (auto simp: insert_member_def result_simps member_row_def)
  then show ?case using Cons.IH [OF rest] by simp
qed simp

lemma members_in_insert:
  assumes "foldR (insert_member job) (enumerate 0 ms) j = Inr j'" and "members_in job j = []"
  shows "members_in job j' = ms"
proof -
  have none: "filter (\<lambda>m. mb_job m = job) (members j) = []"
    using assms(2) by (simp add: members_in_def) (metis length_0_conv length_sort)
  have "filter (\<lambda>m. mb_job m = job) (members j') = map (member_row job) (enumerate 0 ms)"
    unfolding insert_members_result [OF assms(1)] by (simp add: none member_row_def)
  moreover have "map position (map (member_row job) (enumerate 0 ms)) = map int (map fst (enumerate 0 ms))"
    by (simp only: map_map comp_def member_row_def member.simps)
  then have "sorted (map position (map (member_row job) (enumerate 0 ms)))"
    by (simp add: sorted_map sorted_wrt_iff_nth_less)
  ultimately have "members_in job j' = map request_id (map (member_row job) (enumerate 0 ms))"
    by (simp add: members_in_def sort_key_id_if_sorted)
  also have "\<dots> = map snd (enumerate 0 ms)" by (simp add: member_row_def comp_def)
  also have "\<dots> = ms" by simp
  finally show ?thesis .
qed

lemma members_in_cong: "members j' = members j \<Longrightarrow> members_in job j' = members_in job j"
  by (simp add: members_in_def)

text \<open>C1: A batch is signed as a whole. When signing a batch commits, the lane was free or already
  this batch's, the lane is this batch's alone, the member list on record is the one it was asked to
  sign (in order), every member is marked \<open>signed\<close>, no member was live under another
  job, and the attempt is on record before anything is broadcast.\<close>

theorem signed_batch_complete:
  assumes "signed_batch_marked keccak_hex a ms m j = Inr j'"
  shows "owners j \<subseteq> {(nonce a, tx_job a)} \<and> owners j' = {(nonce a, tx_job a)}
    \<and> batch_key keccak_hex ms = Inr (tx_job a) \<and> members_in (tx_job a) j' = ms \<and> distinct ms
    \<and> (\<forall>i \<in> set ms. member_conflicts (tx_job a) i j = 0
          \<and> (\<exists>r \<in> set (jobs j'). job_id r = i \<and> job_state r = ''signed'')
          \<and> (\<forall>r \<in> set (jobs j'). job_id r = i \<and> member_live r \<longrightarrow> job_state r = ''signed''))
    \<and> (\<exists>t \<in> set (txs j'). tx_hash t = tx_hash a \<and> raw t = raw a \<and> nonce t = nonce a
          \<and> tx_state t = ''signed'' \<and> broadcast t = 0)"
proof -
  from assms obtain j1 j2 j3 where key: "batch_key keccak_hex ms = Inr (tx_job a)" and d: "distinct ms"
    and conf: "\<forall>i \<in> set ms. member_conflicts (tx_job a) i j = 0"
    and j1: "claim_lane a j = Inr j1" and j2: "write_mark_opt m j1 = Inr j2"
    and j3: "(if members_in (tx_job a) j2 = [] then foldR (insert_member (tx_job a)) (enumerate 0 ms) j2
          else ensure (members_in (tx_job a) j2 = ms) BatchMembersChanged (Inr j2)) = Inr j3"
    and j': "mark_members_signed ms j3 = Inr j'"
    by (rule signed_batch_parts)
  have m3: "members_in (tx_job a) j3 = ms"
    using j3 members_in_insert by (auto simp: ensure_Inr_iff split: if_splits)
  have "members j' = members j3"
    using bookkeepingD(2) [OF mark_members_signed_bookkeeping [OF j']] .
  then have m': "members_in (tx_job a) j' = ms" using members_in_cong m3 by metis
  let ?sig = "\<lambda>r::job. r\<lparr>job_state := ''signed''\<rparr>"
  note marked = mark_members_signed_jobs [OF j']
  have sig: "(\<exists>r \<in> set (jobs j'). job_id r = i \<and> job_state r = ''signed'')
      \<and> (\<forall>r \<in> set (jobs j'). job_id r = i \<and> member_live r \<longrightarrow> job_state r = ''signed'')" if "i \<in> set ms" for i
  proof -
    have "count_where (\<lambda>r. job_id r = i \<and> member_live r) (jobs j3) = 1" using marked that by blast
    then obtain r where r: "r \<in> set (jobs j3)" "job_id r = i" "member_live r"
      by (metis (mono_tags, lifting) count_where_0_iff zero_neq_one)
    then have "?sig r \<in> set (jobs j')"
      unfolding marked [THEN conjunct1] set_upd_where using that by (auto intro!: image_eqI [of _ _ r])
    moreover have "job_id (?sig r) = i \<and> job_state (?sig r) = ''signed''" using r(2) by simp
    ultimately have "\<exists>r \<in> set (jobs j'). job_id r = i \<and> job_state r = ''signed''" by blast
    moreover have "\<forall>r \<in> set (jobs j'). job_id r = i \<and> member_live r \<longrightarrow> job_state r = ''signed''"
      unfolding marked [THEN conjunct1] set_upd_where using that by auto
    ultimately show ?thesis by simp
  qed
  have "txs j' = txs j1"
    using signed_batch_lane [OF assms] j1 by (auto simp: lane_view_def)
  then have "\<exists>t \<in> set (txs j'). tx_hash t = tx_hash a \<and> raw t = raw a \<and> nonce t = nonce a
          \<and> tx_state t = ''signed'' \<and> broadcast t = 0"
    using j1 by (auto simp: claim_lane_Inr_iff)
  then show ?thesis
    using owners_enter [OF signed_batch_lane [OF assms]] key m' d conf sig by simp
qed

text \<open>The rows after a batch settles, in one expression.\<close>

lemma settle_members_jobs:
  "foldR settle_member states j = Inr j' \<Longrightarrow> distinct (map fst states) \<Longrightarrow>
   jobs j' = map (\<lambda>r. case map_of states (job_id r) of None \<Rightarrow> r | Some st \<Rightarrow> member_outcome st r) (jobs j)
   \<and> (\<forall>i \<in> set (map fst states). count_where (\<lambda>r. job_id r = i) (jobs j) = 1)"
proof (induction states arbitrary: j)
  case Nil
  then show ?case by simp
next
  case (Cons p states)
  obtain i st where p: "p = (i, st)" by (cases p)
  from Cons.prems obtain j1 where j1: "settle_member (i, st) j = Inr j1"
    and rest: "foldR settle_member states j1 = Inr j'"
    by (auto simp: bindR_Inr_iff p)
  note s = settle_member_Inr [OF j1]
  have new: "i \<notin> fst ` set states" using Cons.prems(2) by (simp add: p)
  then have mo: "map_of states i = None" by (simp add: map_of_eq_None_iff)
  note IH = Cons.IH [OF rest] Cons.prems(2)
  have "jobs j' = map (\<lambda>r. case map_of (p # states) (job_id r) of None \<Rightarrow> r | Some st \<Rightarrow> member_outcome st r) (jobs j)"
    using IH s mo by (auto simp: upd_where_def p)
  moreover have "count_where (\<lambda>r. job_id r = k) (jobs j1) = count_where (\<lambda>r. job_id r = k) (jobs j)" for k
    using s count_where_upd_where [of _ "\<lambda>r. job_id r = k" "member_outcome st"] by simp
  ultimately show ?case using IH s by (simp add: p)
qed

text \<open>The primary key of \<open>batch_members\<close>.\<close>

definition members_ok :: "journal \<Rightarrow> bool" where
  "members_ok j = distinct (map (\<lambda>m. (mb_job m, request_id m)) (members j))"

lemma distinct_members_in: "members_ok j \<Longrightarrow> distinct (members_in job j)"
proof -
  assume "members_ok j"
  then have "distinct (map (\<lambda>m. (mb_job m, request_id m)) (filter (\<lambda>m. mb_job m = job) (members j)))"
    by (simp add: members_ok_def distinct_map_filter)
  then have "inj_on request_id (set (filter (\<lambda>m. mb_job m = job) (members j)))"
    "distinct (filter (\<lambda>m. mb_job m = job) (members j))"
    by (auto simp: distinct_map inj_on_def)
  then show ?thesis by (simp add: members_in_def distinct_map)
qed

text \<open>C2: A batch settles as a whole. When a batch's settlement commits, the states it was given
  name exactly the members on record; each member's row takes the outcome its state names (a live
  member of a reverted batch returns to \<open>prepared\<close> with its calldata, or to \<open>pending\<close> without one) and
  no other job changes; no attempt of the nonce is in the lane any more; and the nonce floor is past
  the nonce and not below where it was.\<close>

theorem resolve_batch_complete:
  assumes "resolve_nonce_batch_marked n key states m j = Inr j'" and "members_ok j"
    and "0 \<le> n" and "floor_ok j"
  shows "set (map fst states) = set (members_in key j) \<and> distinct (map fst states)
    \<and> jobs j' = map (\<lambda>r. case map_of states (job_id r) of None \<Rightarrow> r | Some st \<Rightarrow> member_outcome st r) (jobs j)
    \<and> owners j' = {p \<in> owners j. fst p \<noteq> n}
    \<and> floor_ok j' \<and> n < floor_value j' \<and> floor_value j \<le> floor_value j'"
proof -
  from assms(1) obtain j1 where n: "n + 1 \<le> i64_max" and j1: "write_mark_opt m j = Inr j1"
    and d: "distinct (map fst states)" and len: "length states = length (members_in key j)"
    and sub: "set (members_in key j) \<subseteq> set (map fst states)"
    and j': "foldR settle_member states (raise_floor (n + 1) (resolve_txs n j1)) = Inr j'"
    by (rule resolve_batch_parts)
  have "card (set (map fst states)) = card (set (members_in key j))"
    using d len distinct_members_in [OF assms(2)] by (metis distinct_card length_map)
  then have keys: "set (members_in key j) = set (map fst states)"
    using sub by (intro card_subset_eq) simp_all
  have rows: "jobs j' = map (\<lambda>r. case map_of states (job_id r) of None \<Rightarrow> r | Some st \<Rightarrow> member_outcome st r) (jobs j)"
    using settle_members_jobs [OF j' d] write_mark_opt_frame(1) [OF j1] by simp
  note lane = resolve_nonce_batch_lane [OF assms(1)]
  note view = lane_viewD [OF lane [THEN conjunct2]]
  have same: "floor_value (resolve_txs n j) = floor_value j" by (simp add: floor_value_def)
  have "n + 1 \<le> floor_value j'" "floor_value j \<le> floor_value j'"
    using floor_value_raise_ge [of "n + 1" "resolve_txs n j"]
      floor_value_raise_mono [of "n + 1" "resolve_txs n j"] assms(3) n same view(5) by simp_all
  moreover have "floor_ok j'" using floor_ok_settle [OF assms(4,3) n] view(6) by simp
  ultimately show ?thesis using keys d rows owners_settle [OF lane] by simp
qed

section \<open>A concrete batch\<close>

definition sample_keccak :: "string \<Rightarrow> string" where
  "sample_keccak s = ''00112233445566778899''"

definition sample_job :: "string \<Rightarrow> job" where
  "sample_job i = \<lparr>job_id = i, deadline = 100, job_state = ''prepared'', job_proof = Some ''p'',
     job_call = Some ''c'', callback_failed_observed = False\<rparr>"

definition sample_journal :: journal where
  "sample_journal = blank_journal\<lparr>jobs := [sample_job ''7'', sample_job ''9''], soft_marks := Some []\<rparr>"

definition sample_attempt :: attempt where
  "sample_attempt = \<lparr>tx_id = 0, tx_job = ''batch:7:2:0011223344556677'', nonce = 4, tx_hash = ''h'',
     raw = ''r'', tx_kind = ''fulfill_batch'', fee = ''1'', tx_state = [], gas = 1, priority = ''1'',
     payload = ''x'', created = 10, broadcast = 0\<rparr>"

definition sample_signed :: journal where
  "sample_signed = sample_journal\<lparr>
     txs := [sample_attempt\<lparr>tx_id := 1, tx_state := ''signed''\<rparr>],
     members := [\<lparr>mb_job = ''batch:7:2:0011223344556677'', request_id = ''7'', position = 0\<rparr>,
                 \<lparr>mb_job = ''batch:7:2:0011223344556677'', request_id = ''9'', position = 1\<rparr>],
     jobs := [(sample_job ''7'')\<lparr>job_state := ''signed''\<rparr>, (sample_job ''9'')\<lparr>job_state := ''signed''\<rparr>]\<rparr>"

lemmas sample_defs = sample_signed_def sample_journal_def sample_attempt_def sample_job_def
  sample_keccak_def blank_journal_def

lemma show_nat_2: "show_nat (Suc (Suc 0)) = ''2''"
  by code_simp

lemma sample_batch_signed:
  "signed_batch_marked sample_keccak sample_attempt [''7'', ''9''] None sample_journal = Inr sample_signed"
  by (simp add: signed_batch_marked_def sample_defs batch_key_def MAX_BATCH_MEMBERS_def show_nat_2 join_def member_conflicts_def claim_lane_def lane_conflicts_def SWEEP_ATTEMPT_KEY_def
      write_mark_opt_def members_in_def insert_member_def i64_try_def i64_max_def mark_members_signed_def
      member_live_def update_jobs_def job_events_def REPORTED_def next_rowid_def sql_max_def)

theorem signed_batch_complete_witness:
  "signed_batch_marked sample_keccak sample_attempt [''7'', ''9''] None sample_journal = Inr sample_signed
   \<and> members_in (tx_job sample_attempt) sample_signed = [''7'', ''9'']"
  using sample_batch_signed signed_batch_complete [OF sample_batch_signed] by simp

theorem resolve_batch_complete_witness:
  "\<exists>j'. resolve_nonce_batch_marked 4 ''batch:7:2:0011223344556677'' [(''7'', ''served''), (''9'', ''prepared'')]
            None sample_signed = Inr j' \<and> owners j' = {p \<in> owners sample_signed. fst p \<noteq> 4}"
proof -
  let ?r = "resolve_nonce_batch_marked 4 ''batch:7:2:0011223344556677'' [(''7'', ''served''), (''9'', ''prepared'')]
            None sample_signed"
  have "\<exists>j'. ?r = Inr j'"
    by (simp add: resolve_nonce_batch_marked_def sample_defs members_in_def i64_checked_add_def width_defs
        write_mark_opt_def settle_member_other settle_member_prepared set_resolved_state_jobs)
  then obtain j' where r: "?r = Inr j'" ..
  have "members_ok sample_signed" "floor_ok sample_signed"
    by (simp_all add: members_ok_def floor_ok_def sample_defs)
  then show ?thesis using r resolve_batch_complete [OF r] by simp
qed

end
