(* ===== verification/Sql_Spec.thy ===== *)
theory Sql_Spec
  imports Prelude
begin

text \<open>
  SQLite's \<open>LIMIT\<close> without an \<open>ORDER BY\<close>: some rows of the result, at most so many. A maintenance
  statement that updates rows found that way touches only rows that qualify, and at most that many.
\<close>

lemma list_all2_upd_where:
  "(\<And>r. r \<in> set rows \<Longrightarrow> Q r \<Longrightarrow> P r) \<Longrightarrow>
   list_all2 (\<lambda>r r'. r' = r \<or> (P r \<and> r' = f r)) rows (upd_where Q f rows)"
  by (induction rows) simp_all

locale limited =
  fixes pick :: "nat \<Rightarrow> 'r list \<Rightarrow> 'r list"
  assumes within: "set (pick n rows) \<subseteq> set rows"
    and at_most: "length (pick n rows) \<le> n"
begin

lemma touches_only:
  assumes "distinct (map key rows)"
  shows "list_all2 (\<lambda>r r'. r' = r \<or> (P r \<and> r' = f r)) rows
    (upd_where (\<lambda>r. key r \<in> set (map key (pick n (filter P rows)))) f rows)"
proof -
  have "P r" if "r \<in> set rows" "key r \<in> set (map key (pick n (filter P rows)))" for r
  proof -
    from that(2) obtain q where q: "q \<in> set (pick n (filter P rows))" "key q = key r" by auto
    then have "q \<in> set rows" "P q" using within [of n "filter P rows"] by auto
    moreover have "inj_on key (set rows)" using assms by (simp add: distinct_map)
    ultimately show ?thesis using that(1) q(2) by (metis inj_onD)
  qed
  then show ?thesis by (intro list_all2_upd_where) blast
qed

lemma touches_at_most:
  assumes "distinct (map key rows)"
  shows "count_where (\<lambda>r. key r \<in> set (map key (pick n (filter P rows)))) rows \<le> n"
proof -
  let ?ks = "map key (pick n (filter P rows))"
  have "count_where (\<lambda>r. key r \<in> set ?ks) rows = length (map key (filter (\<lambda>r. key r \<in> set ?ks) rows))"
    by (simp add: count_where_def)
  also have "\<dots> = card (set (map key (filter (\<lambda>r. key r \<in> set ?ks) rows)))"
    using assms by (metis distinct_card distinct_map_filter)
  also have "\<dots> \<le> card (set ?ks)" by (intro card_mono) auto
  also have "\<dots> \<le> length ?ks" by (rule card_length)
  also have "\<dots> \<le> n" using at_most by simp
  finally show ?thesis .
qed

end

text \<open>The rows in the order they were inserted are one choice SQLite may make.\<close>

interpretation first_rows: limited take
  by unfold_locales (auto dest: in_set_takeD)

end
