(* ===== verification/Jobs.thy ===== *)
theory Jobs
  imports Lane Sql_Spec
begin

text \<open>
  The job queue of the journal (\<open>journal.rs\<close>): discovery of requests, the preparation and preflight
  queues with their backoffs, rounds and requests that a replaced block moved or took, expiry and
  the compaction of history. Which rows a \<open>LIMIT\<close> without an order takes is SQLite's choice: the
  compaction is given that choice as an argument.
\<close>

definition RESPONSE_TIMEOUT_SECONDS :: nat where "RESPONSE_TIMEOUT_SECONDS = 60"

definition QUEUE_PAGE :: nat where "QUEUE_PAGE = 256"

text \<open>\<open>ORDER BY deadline,LENGTH(id),id\<close>.\<close>

definition queue_key :: "job \<Rightarrow> int \<times> nat \<times> string" where
  "queue_key r = (deadline r, length (job_id r), job_id r)"

definition meta_int :: "string \<Rightarrow> journal \<Rightarrow> int" where
  "meta_int k j = (case meta j k of None \<Rightarrow> 0 | Some v \<Rightarrow> mval_int v)"

text \<open>A transaction of the job itself, or of a batch it is a member of, that is not resolved.\<close>

definition own_open :: "string \<Rightarrow> journal \<Rightarrow> bool" where
  "own_open i j = list_ex (\<lambda>t. tx_job t = i \<and> tx_state t \<noteq> ''resolved'') (txs j)"

definition batch_open :: "string \<Rightarrow> journal \<Rightarrow> bool" where
  "batch_open i j = list_ex (\<lambda>m. request_id m = i \<and> own_open (mb_job m) j) (members j)"

section \<open>Discovery\<close>

definition set_cursor :: "string \<Rightarrow> journal \<Rightarrow> journal" where
  "set_cursor nxt j = meta_put ''cursor'' (Text nxt) j"

definition discovered_epoch :: "string \<Rightarrow> int \<Rightarrow> string \<Rightarrow> nat option \<Rightarrow> journal \<Rightarrow> error + journal" where
  "discovered_epoch i d nxt ep j =
     (let j1 = (if has_job i j then j else insert_job i d j) in
      bindR (case ep of
               None \<Rightarrow> Inr j1
             | Some e \<Rightarrow>
                 bindR (i64_try TryFromInt e) (\<lambda>e'.
                 bindR (table (epoch_demand j1)) (\<lambda>rows.
                   Inr (j1\<lparr>epoch_demand := Some
                     (if list_ex (\<lambda>r. ed_job r = i) rows
                      then upd_where (\<lambda>r. ed_job r = i) (\<lambda>r. r\<lparr>ed_epoch := e'\<rparr>) rows
                      else rows @ [\<lparr>ed_job = i, ed_epoch = e'\<rparr>])\<rparr>))))
        (\<lambda>j2. Inr (set_cursor nxt j2)))"

record round_assignment =
  as_beacon :: nat
  as_round :: nat
  as_fingerprint :: string
  as_lag :: int
  as_seen :: nat

text \<open>\<open>INSERT INTO round_demand ... ON CONFLICT(job) DO UPDATE\<close>: every column of a job that is new,
  and only what the chain has now of one that was known.\<close>

definition upsert_demand :: "bool \<Rightarrow> round_demand_row \<Rightarrow> round_demand_row list \<Rightarrow> round_demand_row list" where
  "upsert_demand fresh row rows =
     (if list_ex (\<lambda>r. rd_job r = rd_job row) rows
      then upd_where (\<lambda>r. rd_job r = rd_job row)
             (\<lambda>r. if fresh then row
                  else r\<lparr>rd_beacon := rd_beacon row, rd_round := rd_round row,
                         rd_fingerprint := rd_fingerprint row\<rparr>) rows
      else rows @ [row])"

definition put_demand :: "bool \<Rightarrow> string \<Rightarrow> round_assignment \<Rightarrow> journal \<Rightarrow> error + journal" where
  "put_demand fresh i a j =
     bindR (i64_try TryFromInt (as_round a)) (\<lambda>rnd.
     bindR (i64_try TryFromInt (as_seen a)) (\<lambda>seen.
     bindR (table (round_demand j)) (\<lambda>rows.
       Inr (j\<lparr>round_demand := Some (upsert_demand fresh
              \<lparr>rd_job = i, rd_beacon = int (as_beacon a), rd_round = rnd,
               rd_fingerprint = as_fingerprint a, rd_lag = Some (as_lag a), rd_seen = seen\<rparr> rows)\<rparr>))))"

definition revive :: "int \<Rightarrow> job \<Rightarrow> job" where
  "revive d r = r\<lparr>job_state := ''pending'', job_proof := None, job_call := None, deadline := d\<rparr>"

definition is_vanished :: "string \<Rightarrow> job \<Rightarrow> bool" where
  "is_vanished i r = (job_id r = i \<and> job_state r = ''vanished'')"

definition discovered_round ::
    "string \<Rightarrow> int \<Rightarrow> string \<Rightarrow> round_assignment \<Rightarrow> journal \<Rightarrow> error + bool \<times> journal" where
  "discovered_round i d nxt a j =
     (let known = has_job i j;
          new = (\<not> known \<or> count_where (is_vanished i) (jobs j) = 1);
          j1 = (if known then update_jobs (is_vanished i) (revive d) j else insert_job i d j);
          j2 = (if new then clear_backoffs i j1 else j1)
      in bindR (put_demand new i a j2) (\<lambda>j3. Inr (new, set_cursor nxt j3)))"

definition u8_try :: "int \<Rightarrow> error + nat" where
  "u8_try i = (if 0 \<le> i \<and> i \<le> 255 then Inr (nat i) else Inl TryFromInt)"

definition round_assignment_of :: "string \<Rightarrow> journal \<Rightarrow> error + round_assignment option" where
  "round_assignment_of i j =
     bindR (table (round_demand j)) (\<lambda>rows.
       optR (\<lambda>r. bindR (u8_try (rd_beacon r)) (\<lambda>b.
                 bindR (u64_try TryFromInt (rd_round r)) (\<lambda>rnd.
                 bindR (u64_try TryFromInt (rd_seen r)) (\<lambda>seen.
                   Inr \<lparr>as_beacon = b, as_round = rnd, as_fingerprint = rd_fingerprint r,
                        as_lag = (case rd_lag r of None \<Rightarrow> 0 | Some l \<Rightarrow> l), as_seen = seen\<rparr>))))
         (find (\<lambda>r. rd_job r = i) rows))"

record demanded_round =
  dr_beacon :: nat
  dr_round :: nat
  dr_requests :: nat
  dr_deadline :: nat

definition waiting :: "int \<Rightarrow> job \<Rightarrow> bool" where
  "waiting after r = (job_state r \<in> {''pending'', ''prepared'', ''signed'', ''submitted''} \<and> after < deadline r)"

text \<open>The join of \<open>round_demand\<close> with the jobs that wait: beacon, round and deadline of each.\<close>

definition demand_join :: "int \<Rightarrow> round_demand_row list \<Rightarrow> job list \<Rightarrow> ((int \<times> int) \<times> int) list" where
  "demand_join after rows js =
     concat (map (\<lambda>d. map (\<lambda>r. ((rd_beacon d, rd_round d), deadline r))
                      (filter (\<lambda>r. job_id r = rd_job d \<and> waiting after r) js)) rows)"

definition round_demand_read :: "nat \<Rightarrow> journal \<Rightarrow> error + demanded_round list" where
  "round_demand_read after j =
     bindR (i64_try TryFromInt after) (\<lambda>t.
     bindR (table (round_demand j)) (\<lambda>rows.
       let joined = demand_join t rows (jobs j);
           groups = map (\<lambda>k. let ds = map snd (filter (\<lambda>x. fst x = k) joined)
                             in (the (sql_min ds), k, length ds))
                        (remdups (map fst joined));
           ordered = sort_key (\<lambda>(d, k, c). (d, k)) groups
       in mapR (\<lambda>(d, (b, r), c).
            bindR (u8_try b) (\<lambda>b'.
            bindR (u64_try TryFromInt r) (\<lambda>r'.
            bindR (u64_try TryFromInt d) (\<lambda>d'.
              Inr \<lparr>dr_beacon = b', dr_round = r', dr_requests = c, dr_deadline = d'\<rparr>)))) ordered))"

section \<open>Preparation\<close>

definition pending_jobs :: "journal \<Rightarrow> job list" where
  "pending_jobs j =
     take 256 (sort_key (\<lambda>r. (deadline r, job_id r))
       (filter (\<lambda>r. job_state r \<in> {''pending'', ''prepared'', ''signed'', ''submitted''}) (jobs j)))"

definition prepare_retry :: "journal \<Rightarrow> job \<Rightarrow> int" where
  "prepare_retry j r = meta_int (prepare_retry_key (job_id r)) j"

definition preparable :: "int \<Rightarrow> int \<Rightarrow> journal \<Rightarrow> job \<Rightarrow> bool" where
  "preparable eligible wall j r =
     (job_state r = ''pending'' \<and> job_call r = None \<and> eligible < deadline r \<and> prepare_retry j r \<le> wall)"

text \<open>The two statements, HEAD and TAIL: by backoff, and within one backoff by the queue's order from
  either end.\<close>

definition preparation_order :: "bool \<Rightarrow> journal \<Rightarrow> job list \<Rightarrow> job list" where
  "preparation_order tail j rows =
     sort_key (prepare_retry j)
       (if tail then rev (sort_key queue_key rows) else sort_key queue_key rows)"

definition back_off :: "nat \<Rightarrow> job list \<Rightarrow> journal \<Rightarrow> journal" where
  "back_off wall js j =
     fold (\<lambda>r. meta_put (prepare_retry_key (job_id r)) (Text (show_nat (sat_add wall 250)))) js j"

text \<open>The rows the \<open>SELECT\<close> finds, and what both claims do with them.\<close>

definition claim_rows ::
    "nat \<Rightarrow> string list \<Rightarrow> bool \<Rightarrow> job list \<Rightarrow> journal \<Rightarrow> job list \<times> journal" where
  "claim_rows wall excluded tail rows j =
     (let page = take 16 (preparation_order tail j rows);
          picked = take 8 (filter (\<lambda>r. job_id r \<notin> set excluded) page)
      in (picked, back_off wall picked j))"

definition claim_preparation ::
    "nat \<Rightarrow> nat \<Rightarrow> string list \<Rightarrow> bool \<Rightarrow> journal \<Rightarrow> error + job list \<times> journal" where
  "claim_preparation wall eligible excluded tail j =
     ensure (length excluded \<le> 8) ExclusionTooLong
      (bindR (i64_try TryFromInt eligible) (\<lambda>e.
       bindR (i64_try TryFromInt wall) (\<lambda>w.
         Inr (claim_rows wall excluded tail (filter (preparable e w j) (jobs j)) j))))"

definition round_verified :: "round_demand_row list \<Rightarrow> round_row list \<Rightarrow> string \<Rightarrow> bool" where
  "round_verified demand work i =
     list_ex (\<lambda>d. rd_job d = i \<and> list_ex (\<lambda>w. rw_beacon w = rd_beacon d \<and> rw_round w = rd_round d
        \<and> rw_state w = ''verified'') work) demand"

definition claim_round_preparation ::
    "nat \<Rightarrow> nat \<Rightarrow> string list \<Rightarrow> bool \<Rightarrow> journal \<Rightarrow> error + job list \<times> journal" where
  "claim_round_preparation wall eligible excluded tail j =
     ensure (length excluded \<le> 8) ExclusionTooLong
      (bindR (i64_try TryFromInt eligible) (\<lambda>e.
       bindR (i64_try TryFromInt wall) (\<lambda>w.
       bindR (table (round_demand j)) (\<lambda>demand.
       bindR (table (round_work j)) (\<lambda>work.
         Inr (claim_rows wall excluded tail
           (filter (\<lambda>r. preparable e w j r \<and> round_verified demand work (job_id r)) (jobs j)) j))))))"

definition prepared :: "string \<Rightarrow> string \<Rightarrow> string \<Rightarrow> journal \<Rightarrow> journal" where
  "prepared i pr cl j =
     update_jobs (\<lambda>r. job_id r = i)
       (\<lambda>r. r\<lparr>job_proof := (case job_proof r of None \<Rightarrow> Some pr | Some p \<Rightarrow> Some p),
              job_call := (case job_call r of None \<Rightarrow> Some cl | Some c \<Rightarrow> Some c),
              job_state := ''prepared''\<rparr>) j"

section \<open>Requests a replaced block moved or took\<close>

definition REQUEST_MOVED_KEY :: string where "REQUEST_MOVED_KEY = ''observation:request_moved''"

definition moved_count :: "journal \<Rightarrow> int" where
  "moved_count j =
     (case meta j REQUEST_MOVED_KEY of
        None \<Rightarrow> 0
      | Some v \<Rightarrow> (case json_extract ''count'' v of Some (JNum n) \<Rightarrow> n | _ \<Rightarrow> 0))"

definition request_moved :: "string \<Rightarrow> round_assignment \<Rightarrow> nat \<Rightarrow> journal \<Rightarrow> error + journal" where
  "request_moved i a now j =
     bindR (i64_try TryFromInt (as_round a)) (\<lambda>rnd.
     bindR (table (round_demand j)) (\<lambda>rows.
       let j1 = j\<lparr>round_demand := Some (upd_where (\<lambda>r. rd_job r = i)
                  (\<lambda>r. r\<lparr>rd_beacon := int (as_beacon a), rd_round := rnd,
                         rd_fingerprint := as_fingerprint a\<rparr>) rows)\<rparr>;
           j2 = update_jobs (\<lambda>r. job_id r = i \<and> job_state r \<in> {''pending'', ''prepared''}
                    \<and> \<not> own_open (job_id r) j1 \<and> \<not> batch_open (job_id r) j1)
                  (\<lambda>r. r\<lparr>job_proof := None, job_call := None, job_state := ''pending''\<rparr>) j1;
           j3 = clear_backoffs i j2
       in Inr (meta_put REQUEST_MOVED_KEY
                 (Json (JObj [(''count'', JNum (moved_count j3 + 1)), (''request'', JStr i),
                              (''at'', JNum (int now))])) j3)))"

definition revive_round :: "string \<Rightarrow> int \<Rightarrow> round_assignment \<Rightarrow> journal \<Rightarrow> error + bool \<times> journal" where
  "revive_round i d a j =
     (let revived = (count_where (is_vanished i) (jobs j) = 1);
          j1 = update_jobs (is_vanished i) (revive d) j
      in if revived then bindR (put_demand True i a (clear_backoffs i j1)) (\<lambda>j2. Inr (True, j2))
         else Inr (False, j1))"

definition lowest_vanished :: "journal \<Rightarrow> error + nat option" where
  "lowest_vanished j =
     optR (u64_try TryFromInt)
       (sql_min (map (\<lambda>r. sql_int (job_id r)) (filter (\<lambda>r. job_state r = ''vanished'') (jobs j))))"

definition vanished :: "string \<Rightarrow> journal \<Rightarrow> journal" where
  "vanished i j =
     update_jobs (\<lambda>r. job_id r = i)
       (\<lambda>r. r\<lparr>job_state := ''vanished'', job_proof := None, job_call := None\<rparr>) j"

definition job_of :: "string \<Rightarrow> journal \<Rightarrow> job option" where
  "job_of i j = find (\<lambda>r. job_id r = i) (jobs j)"

section \<open>The prepared queue\<close>

definition prepared_page :: "nat \<Rightarrow> bool \<Rightarrow> journal \<Rightarrow> error + job list" where
  "prepared_page now tail j =
     bindR (i64_try TryFromInt now) (\<lambda>n.
       let rows = sort_key queue_key
             (filter (\<lambda>r. job_state r = ''prepared'' \<and> job_call r \<noteq> None
                \<and> meta_int (preflight_retry_key (job_id r)) j \<le> n) (jobs j))
       in Inr (take QUEUE_PAGE (if tail then rev rows else rows)))"

definition pending_oldest :: "nat \<Rightarrow> nat \<Rightarrow> nat \<Rightarrow> journal \<Rightarrow> error + job list" where
  "pending_oldest now min_age limit j =
     bindR (i64_try TryFromInt now) (\<lambda>n.
     bindR (i64_try TryFromInt (sat_sub (sat_add now RESPONSE_TIMEOUT_SECONDS) min_age)) (\<lambda>upto.
       Inr (take limit (sort_key queue_key
         (filter (\<lambda>r. job_state r \<in> {''pending'', ''prepared''} \<and> n < deadline r \<and> deadline r \<le> upto
            \<and> \<not> own_open (job_id r) j \<and> \<not> batch_open (job_id r) j) (jobs j))))))"

definition pending_queue :: "nat \<Rightarrow> journal \<Rightarrow> error + nat \<times> nat option" where
  "pending_queue now j =
     bindR (i64_try TryFromInt now) (\<lambda>n.
       let open_jobs = filter (\<lambda>r. job_state r \<in> {''pending'', ''prepared''} \<and> n < deadline r) (jobs j)
       in bindR (optR (u64_try TryFromInt) (sql_min (map deadline open_jobs))) (\<lambda>oldest.
            Inr (length open_jobs, oldest)))"

definition preflight_next :: "string option \<Rightarrow> journal \<Rightarrow> journal" where
  "preflight_next i j = (case i of
      Some i \<Rightarrow> meta_put ''preflight_next'' (Text i) j
    | None \<Rightarrow> meta_delete (\<lambda>k. k = ''preflight_next'') j)"

definition preflight_backoff :: "string \<Rightarrow> nat \<Rightarrow> journal \<Rightarrow> journal" where
  "preflight_backoff i until j = meta_put (preflight_retry_key i) (Text (show_nat until)) j"

definition preflight_backoff_many :: "string list \<Rightarrow> nat \<Rightarrow> journal \<Rightarrow> journal" where
  "preflight_backoff_many is until j = fold (\<lambda>i. preflight_backoff i until) is j"

definition exclude_from_batches :: "string \<Rightarrow> journal \<Rightarrow> journal" where
  "exclude_from_batches i j = fst (meta_insert (batch_exclude_key i) (Text ''1'') j)"

definition batch_excluded_prepared :: "journal \<Rightarrow> string list" where
  "batch_excluded_prepared j =
     map job_id (filter (\<lambda>r. job_state r = ''prepared'' \<and> job_call r \<noteq> None
        \<and> meta j (batch_exclude_key (job_id r)) \<noteq> None) (jobs j))"

definition expire_unstarted :: "int \<Rightarrow> journal \<Rightarrow> journal" where
  "expire_unstarted now j =
     update_jobs (\<lambda>r. deadline r < now \<and> job_state r \<in> {''pending'', ''prepared'', ''blocked''})
       (\<lambda>r. r\<lparr>job_state := ''expired''\<rparr>) j"

definition enable_public_service :: "nat \<Rightarrow> journal \<Rightarrow> error + journal" where
  "enable_public_service now j =
     (if meta j ''consumer_access'' = Some (Text ''public'') then Inr j
      else bindR (i64_try TryFromInt now) (\<lambda>n.
        let j1 = update_jobs (\<lambda>r. job_state r = ''ignored'' \<and> n < deadline r \<and> \<not> own_open (job_id r) j)
                   (\<lambda>r. r\<lparr>job_state := (if job_call r = None then ''pending'' else ''prepared'')\<rparr>) j
        in Inr (meta_put ''consumer_access'' (Text ''public'') (meta_put ''cursor'' (Text ''1'') j1))))"

section \<open>Compaction of history\<close>

datatype finality_mode = Finalized | Soft

definition TERMINAL_JOBS :: "string list" where
  "TERMINAL_JOBS = [''served'', ''callback_failed'', ''refunded'', ''expired'', ''ignored'']"

definition job_compactable :: "journal \<Rightarrow> job \<Rightarrow> bool" where
  "job_compactable j r =
     (job_state r \<in> set TERMINAL_JOBS \<and> (job_proof r \<noteq> None \<or> job_call r \<noteq> None)
      \<and> \<not> own_open (job_id r) j \<and> \<not> batch_open (job_id r) j)"

definition epoch_compactable :: "journal \<Rightarrow> epoch_row \<Rightarrow> bool" where
  "epoch_compactable j r =
     (ew_state r \<in> {''committed'', ''expired''} \<and> (ew_api r \<noteq> None \<or> ew_selection r \<noteq> None)
      \<and> \<not> own_open (ew_key r) j)"

text \<open>\<open>COMPACT_TXS\<close> and \<open>COMPACT_TXS_AUDITED\<close>.\<close>

definition tx_compactable :: "finality_mode \<Rightarrow> journal \<Rightarrow> attempt \<Rightarrow> bool" where
  "tx_compactable mode j t =
     (tx_state t = ''resolved'' \<and> (raw t \<noteq> [] \<or> payload t \<noteq> [])
      \<and> \<not> list_ex (\<lambda>u. nonce u = nonce t \<and> tx_state u \<noteq> ''resolved'') (txs j)
      \<and> \<not> own_open (tx_job t) j
      \<and> (case mode of Finalized \<Rightarrow> True
         | Soft \<Rightarrow> list_ex (\<lambda>r. rc_hash r = tx_hash t) (finalized_receipts j)))"

definition compact_history_for ::
    "(nat \<Rightarrow> job list \<Rightarrow> job list) \<Rightarrow> (nat \<Rightarrow> epoch_row list \<Rightarrow> epoch_row list)
     \<Rightarrow> (nat \<Rightarrow> attempt list \<Rightarrow> attempt list) \<Rightarrow> nat \<Rightarrow> finality_mode \<Rightarrow> journal \<Rightarrow> error + journal" where
  "compact_history_for pick_jobs pick_epochs pick_txs now mode j =
     bindR (i64_try TryFromInt now) (\<lambda>n.
       if n < meta_int ''history:compact_after'' j then Inr j
       else
         let ids = map job_id (pick_jobs 128 (filter (job_compactable j) (jobs j)));
             j1 = update_jobs (\<lambda>r. job_id r \<in> set ids) (\<lambda>r. r\<lparr>job_proof := None, job_call := None\<rparr>) j;
             j2 = (case epoch_work j1 of
                     None \<Rightarrow> j1
                   | Some rows \<Rightarrow>
                       let keys = map ew_key (pick_epochs 128 (filter (epoch_compactable j1) rows))
                       in j1\<lparr>epoch_work := Some (upd_where (\<lambda>r. ew_key r \<in> set keys)
                             (\<lambda>r. r\<lparr>ew_api := None, ew_selection := None\<rparr>) rows)\<rparr>);
             tids = map tx_id (pick_txs 128 (filter (tx_compactable mode j2) (txs j2)));
             j3 = j2\<lparr>txs := upd_where (\<lambda>t. tx_id t \<in> set tids) (\<lambda>t. t\<lparr>raw := [], payload := []\<rparr>) (txs j2)\<rparr>
         in Inr (meta_put ''history:compact_after'' (Text (show_int (i64_sat_add n 60))) j3))"

section \<open>Keys of the tables\<close>

definition jobs_ok :: "journal \<Rightarrow> bool" where
  "jobs_ok j = distinct (map job_id (jobs j))"

definition txs_ok :: "journal \<Rightarrow> bool" where
  "txs_ok j = (distinct (map tx_id (txs j)) \<and> distinct (map tx_hash (txs j)))"

text \<open>A row found by its key is the row.\<close>

lemma distinct_key_eq:
  "distinct (map key rows) \<Longrightarrow> r \<in> set rows \<Longrightarrow> q \<in> set rows \<Longrightarrow> key r = key q \<Longrightarrow> r = q"
  by (auto simp: distinct_map dest: inj_onD)

section \<open>Preparation is fair\<close>

text \<open>At most eight rows are excluded, so the page of sixteen always holds the first eight others:
  the limit in the statement changes nothing.\<close>

lemma length_filter_in_le:
  assumes "distinct (map key xs)"
  shows "length (filter (\<lambda>x. key x \<in> set ks) xs) \<le> length ks"
proof -
  have "length (filter (\<lambda>x. key x \<in> set ks) xs) = card (key ` set (filter (\<lambda>x. key x \<in> set ks) xs))"
    using assms by (metis distinct_card distinct_map_filter length_map list.set_map)
  also have "\<dots> \<le> card (set ks)" by (intro card_mono) auto
  also have "\<dots> \<le> length ks" by (rule card_length)
  finally show ?thesis .
qed

lemma take_filter_page:
  assumes "distinct (map key xs)" and "length ks \<le> k"
  shows "take k (filter (\<lambda>x. key x \<notin> set ks) (take (2 * k) xs)) = take k (filter (\<lambda>x. key x \<notin> set ks) xs)"
proof (cases "length xs \<le> 2 * k")
  case True
  then show ?thesis by simp
next
  case False
  let ?P = "\<lambda>x. key x \<notin> set ks"
  have "distinct (map key (take (2 * k) xs))" using assms(1) by (metis distinct_take take_map)
  then have "length (filter (\<lambda>x. key x \<in> set ks) (take (2 * k) xs)) \<le> k"
    using length_filter_in_le assms(2) le_trans by blast
  moreover have "length (filter (\<lambda>x. key x \<in> set ks) (take (2 * k) xs)) + length (filter ?P (take (2 * k) xs))
      = length (take (2 * k) xs)"
    using sum_length_filter_compl [of "\<lambda>x. key x \<in> set ks"] by simp
  moreover have "length (take (2 * k) xs) = 2 * k" using False by simp
  ultimately have "k \<le> length (filter ?P (take (2 * k) xs))"
    by linarith
  then have "take k (filter ?P (take (2 * k) xs)) = take k (filter ?P (take (2 * k) xs) @ filter ?P (drop (2 * k) xs))"
    by simp
  also have "\<dots> = take k (filter ?P xs)"
    by (metis append_take_drop_id filter_append)
  finally show ?thesis .
qed

lemma mset_preparation_order: "set (preparation_order tail j rows) = set rows"
  by (simp add: preparation_order_def)

lemma distinct_sort_key_map:
  "distinct (map key rows) \<Longrightarrow> distinct (map key (sort_key f rows))"
  by (metis distinct_map distinct_sort set_sort)

lemma distinct_preparation_order:
  "distinct (map job_id rows) \<Longrightarrow> distinct (map job_id (preparation_order tail j rows))"
  unfolding preparation_order_def
  by (intro distinct_sort_key_map) (simp add: distinct_sort_key_map rev_map [symmetric])

lemma back_off_frame [simp]:
  "jobs (back_off w js j) = jobs j" "txs (back_off w js j) = txs j"
  "round_demand (back_off w js j) = round_demand j" "round_work (back_off w js j) = round_work j"
  by (induction js arbitrary: j) (simp_all add: back_off_def)

lemma back_off_bookkeeping: "bookkeeping j (back_off w js j)"
proof (induction js arbitrary: j)
  case (Cons r js)
  have "bookkeeping j (meta_put (prepare_retry_key (job_id r)) (Text (show_nat (sat_add w 250))) j)"
    using prepare_unprotected by (rule bookkeeping_meta_put)
  then show ?case using Cons bookkeeping_trans by (simp add: back_off_def)
qed (simp add: back_off_def)

lemma meta_back_off:
  "meta (back_off w js j) (prepare_retry_key i) =
     (if i \<in> job_id ` set js then Some (Text (show_nat (sat_add w 250)))
      else meta j (prepare_retry_key i))"
proof (induction js arbitrary: j)
  case (Cons r js)
  then show ?case by (auto simp: back_off_def)
qed (simp add: back_off_def)

lemma prepare_retry_back_off:
  assumes "r \<in> set js" and "int w \<le> i64_max"
  shows "prepare_retry (back_off w js j) r = min (int w + 250) i64_max"
proof -
  have "int (sat_add w 250) = min (int w + 250) (int u64_max)"
    by (simp add: sat_add_def min_def)
  moreover have "sql_int (show_nat n) = min (int n) i64_max" for n
  proof -
    obtain c cs where c: "show_nat n = c # cs" "is_digit c" using show_nat_hd by blast
    have "(case show_nat n of c # cs \<Rightarrow> if c = CHR ''-'' then (True, cs)
             else if c = CHR ''+'' then (False, cs) else (False, show_nat n) | [] \<Rightarrow> (False, []))
          = (False, show_nat n)"
      using c digit_not_sign [OF c(2)] by simp
    then show ?thesis by (simp add: sql_int_def)
  qed
  ultimately show ?thesis
    using assms by (auto simp: prepare_retry_def meta_int_def meta_back_off mval_int_def width_defs min_def)
qed

text \<open>The first eight preparable jobs that are not excluded, in the order of the queue.\<close>

definition first_eight :: "nat \<Rightarrow> nat \<Rightarrow> string list \<Rightarrow> bool \<Rightarrow> journal \<Rightarrow> job list" where
  "first_eight wall eligible excluded tail j =
     take 8 (filter (\<lambda>r. job_id r \<notin> set excluded)
       (preparation_order tail j (filter (preparable (int eligible) (int wall) j) (jobs j))))"

lemma claim_rows_subset: "set (fst (claim_rows wall excluded tail rows j)) \<subseteq> set rows"
proof -
  have "set (take k (filter P (take n xs))) \<subseteq> set xs" for k P n and xs :: "job list"
    by (meson filter_is_subset order_trans set_take_subset)
  from this [of 8 _ 16 "preparation_order tail j rows"]
  show ?thesis unfolding mset_preparation_order by (simp add: claim_rows_def Let_def)
qed

lemma claim_rows_first_eight:
  assumes "length excluded \<le> 8" and "distinct (map job_id rows)"
  shows "fst (claim_rows wall excluded tail rows j)
    = take 8 (filter (\<lambda>r. job_id r \<notin> set excluded) (preparation_order tail j rows))"
  using take_filter_page [OF distinct_preparation_order [OF assms(2)] assms(1), of tail j]
  by (simp add: claim_rows_def Let_def)

text \<open>C9: Preparation is fair and bounded. Whatever up to eight jobs are excluded, a claim takes exactly
  the first eight other preparable jobs in the order of the queue (the statement's own limit of sixteen
  never costs one); the jobs themselves do not change; and a job just claimed is not claimed again
  for 250 milliseconds, whatever is excluded then.\<close>

theorem claim_preparation_fair:
  assumes "claim_preparation wall eligible excluded tail j = Inr (picked, j')" and "jobs_ok j"
  shows "picked = first_eight wall eligible excluded tail j \<and> jobs j' = jobs j \<and> length picked \<le> 8
    \<and> (\<forall>r \<in> set picked. preparable (int eligible) (int wall) j r)
    \<and> (\<forall>wall' eligible' excluded' tail' picked' j''.
          claim_preparation wall' eligible' excluded' tail' j' = Inr (picked', j'')
          \<and> int wall' < int wall + 250 \<and> int wall' < i64_max
          \<longrightarrow> set picked' \<inter> set picked = {})"
proof -
  let ?rows = "filter (preparable (int eligible) (int wall) j) (jobs j)"
  from assms(1) have ex: "length excluded \<le> 8" and w: "int wall \<le> i64_max"
    and claim: "claim_rows wall excluded tail ?rows j = (picked, j')"
    by (auto simp: claim_preparation_def result_simps)
  have "distinct (map job_id ?rows)"
    using assms(2) by (simp add: jobs_ok_def distinct_map_filter)
  then have first: "picked = first_eight wall eligible excluded tail j"
    using claim_rows_first_eight [OF ex, of ?rows wall tail j] claim by (simp add: first_eight_def)
  have j': "j' = back_off wall picked j"
    using claim by (auto simp: claim_rows_def Let_def)
  have sub: "set picked \<subseteq> set ?rows"
    using claim_rows_subset [of wall excluded tail ?rows j] claim by simp
  have "set picked' \<inter> set picked = {}"
    if c: "claim_preparation wall' eligible' excluded' tail' j' = Inr (picked', j'')"
      and soon: "int wall' < int wall + 250" "int wall' < i64_max"
    for wall' eligible' excluded' tail' picked' j''
  proof -
    let ?rows' = "filter (preparable (int eligible') (int wall') j') (jobs j')"
    from c have "claim_rows wall' excluded' tail' ?rows' j' = (picked', j'')"
      by (auto simp: claim_preparation_def result_simps)
    then have "set picked' \<subseteq> set ?rows'"
      using claim_rows_subset [of wall' excluded' tail' ?rows' j'] by simp
    moreover have "\<not> preparable (int eligible') (int wall') j' r" if "r \<in> set picked" for r
      using prepare_retry_back_off [OF that w, of j] soon by (auto simp: preparable_def j' min_le_iff_disj)
    ultimately show ?thesis by auto
  qed
  moreover have "length picked \<le> 8" by (simp add: first first_eight_def)
  moreover have "\<forall>r \<in> set picked. preparable (int eligible) (int wall) j r" using sub by auto
  moreover have "jobs j' = jobs j" by (simp add: j')
  ultimately show ?thesis using first by blast
qed

definition queue_sample :: journal where
  "queue_sample = blank_journal\<lparr>jobs := [new_job ''7'' 100, new_job ''9'' 90, new_job ''11'' 90]\<rparr>"

theorem claim_preparation_fair_witness:
  "\<exists>picked j'. claim_preparation 1000 50 [''9''] False queue_sample = Inr (picked, j')
     \<and> picked = first_eight 1000 50 [''9''] False queue_sample \<and> length picked = 2"
proof -
  obtain picked j' where c: "claim_preparation 1000 50 [''9''] False queue_sample = Inr (picked, j')"
    by (simp add: claim_preparation_def i64_try_def i64_max_def claim_rows_def Let_def)
  have "jobs_ok queue_sample"
    by (simp add: jobs_ok_def queue_sample_def new_job_def)
  moreover have "length (first_eight 1000 50 [''9''] False queue_sample) = 2"
    by (simp add: first_eight_def preparation_order_def preparable_def queue_sample_def new_job_def
        blank_journal_def prepare_retry_def meta_int_def queue_key_def)
  ultimately show ?thesis using c claim_preparation_fair [OF c] by auto
qed

section \<open>The queue's operations are bookkeeping\<close>

lemma cursor_unprotected: "''cursor'' \<notin> set PROTECTED"
  by (simp add: PROTECTED_def)

lemma set_cursor_bookkeeping: "bookkeeping j (set_cursor nxt j)"
  unfolding set_cursor_def by (rule bookkeeping_meta_put [OF cursor_unprotected])

lemma bookkeeping_demand [simp]:
  "bookkeeping j (j'\<lparr>epoch_demand := x\<rparr>) = bookkeeping j j'"
  "bookkeeping j (j'\<lparr>round_demand := y\<rparr>) = bookkeeping j j'"
  by (simp_all add: bookkeeping_def)

lemma discovered_epoch_bookkeeping:
  assumes "discovered_epoch i d nxt ep j = Inr j'"
  shows "bookkeeping j j'"
proof -
  let ?j1 = "if has_job i j then j else insert_job i d j"
  have 1: "bookkeeping j ?j1" by simp
  have "\<exists>x. j' = set_cursor nxt ?j1 \<or> j' = set_cursor nxt (?j1\<lparr>epoch_demand := x\<rparr>)"
    using assms unfolding discovered_epoch_def Let_def
    by (cases ep) (auto simp only: result_simps option.simps)
  then obtain j2 where j2: "bookkeeping j j2" and j': "j' = set_cursor nxt j2"
    using 1 bookkeeping_demand(1) by metis
  show ?thesis unfolding j' using j2 set_cursor_bookkeeping by (rule bookkeeping_trans)
qed

lemma put_demand_bookkeeping: "put_demand fresh i a j = Inr j' \<Longrightarrow> bookkeeping j j'"
  by (auto simp: put_demand_def result_simps)

lemma discovered_round_bookkeeping:
  assumes "discovered_round i d nxt a j = Inr (new, j')"
  shows "bookkeeping j j'"
proof -
  let ?j1 = "if has_job i j then update_jobs (is_vanished i) (revive d) j else insert_job i d j"
  from assms obtain j3 where put: "put_demand new i a (if new then clear_backoffs i ?j1 else ?j1) = Inr j3"
    and j': "j' = set_cursor nxt j3"
    by (auto simp: discovered_round_def Let_def bindR_Inr_iff)
  have "bookkeeping j ?j1" by simp
  then have "bookkeeping j (if new then clear_backoffs i ?j1 else ?j1)"
    using bookkeeping_trans clear_backoffs_bookkeeping by simp
  then show ?thesis
    unfolding j' using put_demand_bookkeeping [OF put] set_cursor_bookkeeping bookkeeping_trans by metis
qed

lemma claim_rows_bookkeeping: "bookkeeping j (snd (claim_rows w ex tail rows j))"
  by (simp add: claim_rows_def Let_def back_off_bookkeeping)

lemma claim_preparation_bookkeeping:
  "claim_preparation w e ex tail j = Inr (js, j') \<Longrightarrow> bookkeeping j j'"
  using claim_rows_bookkeeping by (auto simp: claim_preparation_def result_simps) (metis snd_conv)

lemma claim_round_preparation_bookkeeping:
  "claim_round_preparation w e ex tail j = Inr (js, j') \<Longrightarrow> bookkeeping j j'"
  using claim_rows_bookkeeping by (auto simp: claim_round_preparation_def result_simps) (metis snd_conv)

lemma request_moved_bookkeeping:
  assumes "request_moved i a now j = Inr j'"
  shows "bookkeeping j j'"
proof -
  have "\<exists>P F X v. j' = meta_put REQUEST_MOVED_KEY v (clear_backoffs i (update_jobs P F (j\<lparr>round_demand := X\<rparr>)))"
    using assms unfolding request_moved_def bindR_Inr_iff Let_def sum.inject
    by (elim exE conjE) (intro exI, erule sym)
  then obtain P F X v where "j' = meta_put REQUEST_MOVED_KEY v (clear_backoffs i (update_jobs P F (j\<lparr>round_demand := X\<rparr>)))"
    by blast
  moreover have "bookkeeping j (update_jobs P F (j\<lparr>round_demand := X\<rparr>))"
    by (rule bookkeeping_trans [of _ "j\<lparr>round_demand := X\<rparr>"]) simp_all
  ultimately obtain j2 where j2: "bookkeeping j j2"
    and j': "\<exists>v. j' = meta_put REQUEST_MOVED_KEY v (clear_backoffs i j2)"
    by blast
  have "REQUEST_MOVED_KEY \<notin> set PROTECTED" by (simp add: PROTECTED_def REQUEST_MOVED_KEY_def)
  then show ?thesis
    using j' j2 bookkeeping_meta_put clear_backoffs_bookkeeping bookkeeping_trans by metis
qed

lemma revive_round_bookkeeping:
  assumes "revive_round i d a j = Inr (b, j')"
  shows "bookkeeping j j'"
proof (cases "count_where (is_vanished i) (jobs j) = 1")
  case True
  then have "put_demand True i a (clear_backoffs i (update_jobs (is_vanished i) (revive d) j)) = Inr j'"
    using assms by (auto simp: revive_round_def Let_def bindR_Inr_iff)
  then show ?thesis
    using put_demand_bookkeeping clear_backoffs_bookkeeping bookkeeping_update_jobs bookkeeping_trans by metis
next
  case False
  then show ?thesis using assms by (auto simp: revive_round_def)
qed

lemma preflight_bookkeeping:
  "bookkeeping j (preflight_next i j)" "bookkeeping j (preflight_backoff k u j)"
  "bookkeeping j (exclude_from_batches k j)"
  unfolding preflight_next_def preflight_backoff_def exclude_from_batches_def
  using preflight_unprotected batch_exclude_unprotected
  by (auto intro!: bookkeeping_meta_put bookkeeping_meta_delete bookkeeping_meta_insert
      simp: PROTECTED_def split: option.splits)

lemma preflight_backoff_many_bookkeeping: "bookkeeping j (preflight_backoff_many is u j)"
proof (induction "is" arbitrary: j)
  case (Cons i "is")
  then show ?case
    using preflight_bookkeeping(2) bookkeeping_trans by (simp add: preflight_backoff_many_def) blast
qed (simp add: preflight_backoff_many_def)

lemma update_bookkeeping:
  "bookkeeping j (prepared i pr cl j)" "bookkeeping j (vanished i j)"
  "bookkeeping j (expire_unstarted now j)" "bookkeeping j (set_state i st j)"
  "bookkeeping j (members_state job st j)" "bookkeeping j (callback_failed i j)"
  by (simp_all add: prepared_def vanished_def expire_unstarted_def set_state_def members_state_def
      callback_failed_def)

lemma enable_public_service_bookkeeping:
  assumes "enable_public_service now j = Inr j'"
  shows "bookkeeping j j'"
proof (cases "meta j ''consumer_access'' = Some (Text ''public'')")
  case True
  then show ?thesis using assms by (simp add: enable_public_service_def)
next
  case False
  have k: "''consumer_access'' \<notin> set PROTECTED" by (simp add: PROTECTED_def)
  from assms False obtain j1 where j1: "bookkeeping j j1"
    and j': "j' = meta_put ''consumer_access'' (Text ''public'') (meta_put ''cursor'' (Text ''1'') j1)"
    unfolding enable_public_service_def Let_def by (auto simp: bindR_Inr_iff)
  have "bookkeeping j (meta_put ''cursor'' (Text ''1'') j1)"
    by (rule bookkeeping_trans [OF j1 bookkeeping_meta_put [OF cursor_unprotected]])
  then show ?thesis unfolding j' by (rule bookkeeping_trans [OF _ bookkeeping_meta_put [OF k]])
qed

lemmas queue_bookkeeping = discovered_epoch_bookkeeping discovered_round_bookkeeping
  set_cursor_bookkeeping claim_preparation_bookkeeping claim_round_preparation_bookkeeping
  request_moved_bookkeeping revive_round_bookkeeping preflight_bookkeeping
  preflight_backoff_many_bookkeeping update_bookkeeping enable_public_service_bookkeeping

section \<open>Compaction spares what is live\<close>

lemma tx_compactable_cong:
  "txs j' = txs j \<Longrightarrow> finalized_receipts j' = finalized_receipts j \<Longrightarrow>
   tx_compactable mode j' = tx_compactable mode j"
  by (rule ext) (simp add: tx_compactable_def own_open_def split: finality_mode.split)



end
