(* ===== verification/Incident.thy ===== *)
theory Incident
  imports Jobs
begin

text \<open>
  The finality of what a soft keeper acted on (\<open>journal.rs\<close>): mismatches and their acknowledgement,
  the audit of the marks, and the operations of the recovery on the lane (reopening a nonce, parking
  and returning the other attempts, filling a nonce, clearing the incident).
\<close>

record mismatch =
  mm_kind :: string
  mm_number :: nat
  mm_ref :: string
  expected :: string
  actual :: string
  detected_at :: nat

record acknowledgement =
  ack_id :: string
  acknowledged_at :: nat

record suspected =
  sp_mismatch :: mismatch
  checks :: nat
  endpoints :: nat
  answered :: nat

datatype finality_state = Clear | Recovering mismatch "acknowledgement option"

datatype audit =
    Stopped mismatch
  | Idle
  | Audited nat nat "nat \<times> string"     \<comment> \<open>blocks, receipts, checkpoint\<close>
  | Mismatched mismatch

datatype reopened = Reopened_Lane | NoBytes

definition MISMATCH_KEY :: string where "MISMATCH_KEY = ''finality:mismatch''"
definition ACK_KEY :: string where "ACK_KEY = ''finality:ack''"
definition ALERTED_KEY :: string where "ALERTED_KEY = ''finality:alerted''"
definition UNCONFIRMED_ALERTED_KEY :: string where
  "UNCONFIRMED_ALERTED_KEY = ''finality:unconfirmed_alerted''"
definition SUSPECTED_KEY :: string where "SUSPECTED_KEY = ''finality:suspected''"
definition LAST_RECOVERY_KEY :: string where "LAST_RECOVERY_KEY = ''finality:last_recovery''"
definition RECOVERY_PREFIX :: string where "RECOVERY_PREFIX = ''finality:recovery:''"

lemmas incident_keys = MISMATCH_KEY_def ACK_KEY_def ALERTED_KEY_def UNCONFIRMED_ALERTED_KEY_def
  SUSPECTED_KEY_def LAST_RECOVERY_KEY_def RECOVERY_PREFIX_def

section \<open>Records in \<open>meta\<close>\<close>

definition encode_mismatch :: "mismatch \<Rightarrow> json" where
  "encode_mismatch m = JObj [(''kind'', JStr (mm_kind m)), (''number'', JNum (int (mm_number m))),
     (''reference'', JStr (mm_ref m)), (''expected'', JStr (expected m)), (''actual'', JStr (actual m)),
     (''detected_at'', JNum (int (detected_at m)))]"

definition decode_mismatch :: "json \<Rightarrow> mismatch option" where
  "decode_mismatch v =
     Option.bind (field_str ''kind'' v) (\<lambda>k.
     Option.bind (field_nat ''number'' v) (\<lambda>n.
     Option.bind (field_str ''reference'' v) (\<lambda>r.
     Option.bind (field_str ''expected'' v) (\<lambda>e.
     Option.bind (field_str ''actual'' v) (\<lambda>a.
     Option.bind (field_nat ''detected_at'' v) (\<lambda>d.
       Some \<lparr>mm_kind = k, mm_number = n, mm_ref = r, expected = e, actual = a, detected_at = d\<rparr>))))))"

definition encode_ack :: "acknowledgement \<Rightarrow> json" where
  "encode_ack a = JObj [(''id'', JStr (ack_id a)), (''acknowledged_at'', JNum (int (acknowledged_at a)))]"

definition decode_ack :: "json \<Rightarrow> acknowledgement option" where
  "decode_ack v =
     Option.bind (field_str ''id'' v) (\<lambda>i.
     Option.bind (field_nat ''acknowledged_at'' v) (\<lambda>t. Some \<lparr>ack_id = i, acknowledged_at = t\<rparr>))"

definition encode_suspected :: "suspected \<Rightarrow> json" where
  "encode_suspected s = JObj [(''mismatch'', encode_mismatch (sp_mismatch s)),
     (''checks'', JNum (int (checks s))), (''endpoints'', JNum (int (endpoints s))),
     (''answered'', JNum (int (answered s)))]"

definition decode_suspected :: "json \<Rightarrow> suspected option" where
  "decode_suspected v =
     Option.bind (Option.bind (json_field ''mismatch'' v) decode_mismatch) (\<lambda>m.
     Option.bind (field_nat ''checks'' v) (\<lambda>c.
     Option.bind (field_nat ''endpoints'' v) (\<lambda>e.
     Option.bind (field_nat ''answered'' v) (\<lambda>a.
       Some \<lparr>sp_mismatch = m, checks = c, endpoints = e, answered = a\<rparr>))))"

text \<open>\<open>Mismatch::id\<close>: six bytes of the hash, in hex.\<close>

definition mismatch_id :: "(string \<Rightarrow> string) \<Rightarrow> mismatch \<Rightarrow> string" where
  "mismatch_id keccak_hex m =
     take 12 (keccak_hex (join ''|'' [mm_kind m, show_nat (mm_number m), mm_ref m, expected m, actual m,
                                      show_nat (detected_at m)]))"

definition recorded_mismatch :: "journal \<Rightarrow> error + mismatch option" where
  "recorded_mismatch j =
     optR (\<lambda>v. ok_or MalformedJson (Option.bind (as_json v) decode_mismatch)) (meta j MISMATCH_KEY)"

definition stored_ack :: "journal \<Rightarrow> acknowledgement option" where
  "stored_ack j = Option.bind (meta j ACK_KEY) (\<lambda>v. Option.bind (as_json v) decode_ack)"

definition suspicion_note :: "journal \<Rightarrow> suspected option" where
  "suspicion_note j = Option.bind (meta j SUSPECTED_KEY) (\<lambda>v. Option.bind (as_json v) decode_suspected)"

definition note_suspicion :: "suspected \<Rightarrow> journal \<Rightarrow> journal" where
  "note_suspicion s j = meta_put SUSPECTED_KEY (Json (encode_suspected s)) j"

definition clear_suspicion_note :: "journal \<Rightarrow> journal" where
  "clear_suspicion_note j = meta_delete (\<lambda>k. k = SUSPECTED_KEY) j"

definition set_meta :: "string \<Rightarrow> mval \<Rightarrow> journal \<Rightarrow> journal" where
  "set_meta k v j = meta_put k v j"

definition record_finality_mismatch :: "mismatch \<Rightarrow> journal \<Rightarrow> bool \<times> journal" where
  "record_finality_mismatch m j =
     (let (j', inserted) = meta_insert MISMATCH_KEY (Json (encode_mismatch m)) j in (inserted, j'))"

definition confirm_finality_mismatch :: "mismatch \<Rightarrow> string \<Rightarrow> json \<Rightarrow> journal \<Rightarrow> bool \<times> journal" where
  "confirm_finality_mismatch m key evidence j =
     (let (j1, recorded) = meta_insert MISMATCH_KEY (Json (encode_mismatch m)) j;
          j2 = (if recorded then meta_put key (Json evidence) j1 else j1)
      in (recorded, clear_suspicion_note j2))"

text \<open>The mismatch an operator names: the one on record, or the suspected one, which is recorded.\<close>

definition acknowledged_mismatch ::
    "(string \<Rightarrow> string) \<Rightarrow> string \<Rightarrow> journal \<Rightarrow> error + mismatch \<times> journal" where
  "acknowledged_mismatch keccak_hex i j =
     bindR (recorded_mismatch j) (\<lambda>found.
       case found of
         Some recorded \<Rightarrow> Inr (recorded, j)
       | None \<Rightarrow>
           bindR (ok_or NothingToAcknowledge (suspicion_note j)) (\<lambda>s.
             ensure (mismatch_id keccak_hex (sp_mismatch s) = i) OtherSuspicion
               (Inr (sp_mismatch s,
                  clear_suspicion_note
                    (fst (meta_insert MISMATCH_KEY (Json (encode_mismatch (sp_mismatch s))) j))))))"

definition acknowledgement_of :: "(string \<Rightarrow> string) \<Rightarrow> mismatch \<Rightarrow> journal \<Rightarrow> acknowledgement option" where
  "acknowledgement_of keccak_hex m j =
     (case stored_ack j of
        Some a \<Rightarrow> if ack_id a = mismatch_id keccak_hex m then Some a else None
      | None \<Rightarrow> None)"

definition acknowledge_finality ::
    "(string \<Rightarrow> string) \<Rightarrow> string \<Rightarrow> nat \<Rightarrow> journal \<Rightarrow> error + acknowledgement \<times> journal" where
  "acknowledge_finality keccak_hex given now j =
     (let i = to_ascii_lowercase (trim given) in
      bindR (acknowledged_mismatch keccak_hex i j) (\<lambda>(recorded, j1).
        ensure (mismatch_id keccak_hex recorded = i) OtherMismatch
          (case acknowledgement_of keccak_hex recorded j1 of
             Some a \<Rightarrow> Inr (a, j1)
           | None \<Rightarrow>
               (let a = \<lparr>ack_id = mismatch_id keccak_hex recorded, acknowledged_at = now\<rparr>
                in Inr (a, meta_put ACK_KEY (Json (encode_ack a)) j1)))))"

definition finality_state_of :: "(string \<Rightarrow> string) \<Rightarrow> journal \<Rightarrow> error + finality_state" where
  "finality_state_of keccak_hex j =
     bindR (recorded_mismatch j) (\<lambda>found. Inr (case found of
         None \<Rightarrow> Clear
       | Some m \<Rightarrow> Recovering m (acknowledgement_of keccak_hex m j)))"

section \<open>The audit of the marks\<close>

text \<open>The marks of one block: the first that is not the chain's is a mismatch.\<close>

fun audit_block :: "nat \<Rightarrow> string \<Rightarrow> nat \<Rightarrow> mark_row list \<Rightarrow> error + (mismatch + mark list)" where
  "audit_block number chain now [] = Inr (Inr [])"
| "audit_block number chain now (r # rs) =
     bindR (kind_parse (mr_kind r)) (\<lambda>k.
     bindR (u64_try TryFromInt (mr_created r)) (\<lambda>c.
     bindR (optR (u64_try TryFromInt) (mr_status r)) (\<lambda>s.
       if \<not> eq_ignore_ascii_case (mr_hash r) chain
       then Inr (Inl \<lparr>mm_kind = kind_name k, mm_number = number, mm_ref = mr_ref r,
                      expected = mr_hash r, actual = chain, detected_at = now\<rparr>)
       else bindR (audit_block number chain now rs) (\<lambda>res. Inr (case res of
              Inl m \<Rightarrow> Inl m
            | Inr ms \<Rightarrow> Inr (\<lparr>mk_kind = k, mk_number = number, mk_hash = mr_hash r, mk_ref = mr_ref r,
                             mk_created = c, mk_status = s\<rparr> # ms))))))"

fun audit_read :: "nat \<Rightarrow> journal \<Rightarrow> (nat \<times> string) list \<Rightarrow> error + (mismatch + mark list)" where
  "audit_read now j [] = Inr (Inr [])"
| "audit_read now j ((number, chain) # rest) =
     bindR (i64_try TryFromInt number) (\<lambda>n.
     bindR (table (soft_marks j)) (\<lambda>rows.
     bindR (audit_block number chain now
              (sort_key (\<lambda>r. (mr_kind r, mr_ref r)) (filter (\<lambda>r. mr_number r = n) rows))) (\<lambda>res.
       case res of
         Inl m \<Rightarrow> Inr (Inl m)
       | Inr ms \<Rightarrow> bindR (audit_read now j rest) (\<lambda>res'. Inr (case res' of
             Inl m \<Rightarrow> Inl m
           | Inr ms' \<Rightarrow> Inr (ms @ ms'))))))"

text \<open>\<open>Iterator::max_by_key\<close>: the last of the highest.\<close>

definition highest_mark :: "mark \<Rightarrow> mark list \<Rightarrow> mark" where
  "highest_mark m ms = fold (\<lambda>x best. if mk_number best \<le> mk_number x then x else best) ms m"

text \<open>Each receipt mark becomes a finalized receipt, or is in conflict with one.\<close>

fun audit_receipts :: "nat \<Rightarrow> mark list \<Rightarrow> receipt list \<Rightarrow> error + (mismatch + receipt list)" where
  "audit_receipts now [] rows = Inr (Inr rows)"
| "audit_receipts now (m # ms) rows =
     bindR (i64_try TryFromInt (mk_number m)) (\<lambda>n.
     bindR (ok_or ReceiptWithoutStatus (mk_status m)) (\<lambda>s.
     bindR (i64_try TryFromInt s) (\<lambda>st.
       let row = \<lparr>rc_hash = mk_ref m, block_number = n, block_hash = mk_hash m, rc_status = st\<rparr>;
           rows' = insert_receipt row rows
       in bindR (find_receipt (mk_ref m) rows') (\<lambda>stored.
            if stored \<noteq> row
            then bindR (u64_try TryFromInt (block_number stored)) (\<lambda>b.
                   Inr (Inl \<lparr>mm_kind = ''finalized_receipt'', mm_number = b, mm_ref = mk_ref m,
                             expected = block_hash stored, actual = [], detected_at = now\<rparr>))
            else audit_receipts now ms rows'))))"

definition delete_blocks :: "(nat \<times> string) list \<Rightarrow> journal \<Rightarrow> error + journal" where
  "delete_blocks canonical j =
     foldR (\<lambda>b j. bindR (i64_try TryFromInt (fst b)) (\<lambda>n. delete_marks (\<lambda>r. mr_number r = n) j)) canonical j"

text \<open>The last steps of an audit whose marks are all the chain's: \<open>marks\<close> is not empty, its highest
  mark is \<open>last_mark\<close>, and \<open>rows\<close> is \<open>finalized_receipts\<close> with their receipts.\<close>

definition audit_commit ::
    "(nat \<times> string) list \<Rightarrow> nat \<Rightarrow> mark list \<Rightarrow> mark \<Rightarrow> receipt list \<Rightarrow> journal \<Rightarrow> error + audit \<times> journal" where
  "audit_commit canonical now marks last_mark rows j =
     (let highest = mk_number last_mark; highest_hash = mk_hash last_mark;
          commit = bindR (checkpoint FINALIZED_CHECKPOINT highest highest_hash (j\<lparr>finalized_receipts := rows\<rparr>))
                     (\<lambda>j1. bindR (delete_blocks canonical j1) (\<lambda>j2.
                       Inr (Audited (length (remdups (map mk_number marks)))
                              (count_where (\<lambda>m. mk_kind m = Receipt) marks) (highest, highest_hash), j2)))
      in case meta j (cp_key FINALIZED_CHECKPOINT) of
           None \<Rightarrow> commit
         | Some saved \<Rightarrow>
             bindR (ok_or MalformedJson (decode_block saved)) (\<lambda>(number, hash).
               if number = highest \<and> \<not> eq_ignore_ascii_case hash highest_hash
               then Inr (Mismatched \<lparr>mm_kind = ''finalized_checkpoint'', mm_number = number, mm_ref = [],
                           expected = hash, actual = highest_hash, detected_at = now\<rparr>, j)
               else commit))"

definition audit_marks :: "(nat \<times> string) list \<Rightarrow> nat \<Rightarrow> journal \<Rightarrow> error + audit \<times> journal" where
  "audit_marks canonical now j =
     bindR (recorded_mismatch j) (\<lambda>found.
       case found of
         Some m \<Rightarrow> Inr (Stopped m, j)
       | None \<Rightarrow>
           bindR (audit_read now j canonical) (\<lambda>res.
             case res of
               Inl m \<Rightarrow> Inr (Mismatched m, j)
             | Inr [] \<Rightarrow> Inr (Idle, j)
             | Inr (m # ms) \<Rightarrow>
                 bindR (audit_receipts now (filter (\<lambda>m. mk_kind m = Receipt) (m # ms)) (finalized_receipts j))
                   (\<lambda>res'. case res' of
                      Inl mm \<Rightarrow> Inr (Mismatched mm, j)
                    | Inr rows \<Rightarrow> audit_commit canonical now (m # ms) (highest_mark m ms) rows j)))"

section \<open>The recovery's operations on the lane\<close>

definition parked_state :: "string \<Rightarrow> string" where
  "parked_state st = ''parked_'' @ st"

definition park :: "(attempt \<Rightarrow> bool) \<Rightarrow> attempt list \<Rightarrow> attempt list" where
  "park P ts = upd_where (\<lambda>t. active t \<and> P t) (\<lambda>t. t\<lparr>tx_state := parked_state (tx_state t)\<rparr>) ts"

definition is_parked :: "attempt \<Rightarrow> bool" where
  "is_parked t = (tx_state t = ''parked_signed'' \<or> tx_state t = ''parked_submitted'')"

text \<open>\<open>substr(state,8)\<close>.\<close>

definition unpark :: "attempt list \<Rightarrow> attempt list" where
  "unpark ts = upd_where is_parked (\<lambda>t. t\<lparr>tx_state := drop 7 (tx_state t)\<rparr>) ts"

definition served_again :: "string \<times> bool \<Rightarrow> journal \<Rightarrow> error + journal" where
  "served_again p j =
     (if snd p
      then bindR (table (epoch_work j)) (\<lambda>rows.
             Inr (j\<lparr>epoch_work := Some (upd_where (\<lambda>r. ew_key r = fst p) (\<lambda>r. r\<lparr>ew_state := ''submitted''\<rparr>) rows)\<rparr>))
      else if is_batch_job (fst p) then Inr (members_state (fst p) ''submitted'' j)
      else Inr (set_state (fst p) ''submitted'' j))"

definition delete_nonce_marks :: "int \<Rightarrow> string list \<Rightarrow> journal \<Rightarrow> error + journal" where
  "delete_nonce_marks n hashes j =
     bindR (foldR (\<lambda>h. delete_marks (\<lambda>r. mr_kind r = ''receipt'' \<and> mr_ref r = h)) hashes j)
       (delete_marks (\<lambda>r. mr_kind r = ''nonce'' \<and> mr_ref r = show_int n))"

definition nonce_started_key :: "int \<Rightarrow> string" where
  "nonce_started_key n = ''nonce_started:'' @ show_int n"

text \<open>The transaction once the journal holds bytes for the nonce; \<open>rows\<close> are its attempts.\<close>

definition reopen_rows :: "int \<Rightarrow> int \<Rightarrow> nat \<Rightarrow> attempt list \<Rightarrow> journal \<Rightarrow> error + journal" where
  "reopen_rows n now wall_time rows j =
     (let j1 = j\<lparr>txs := park (\<lambda>t. nonce t \<noteq> n) (txs j)\<rparr> in
      bindR (delete_nonce_marks n (map tx_hash rows) j1) (\<lambda>j2.
        let j3 = j2\<lparr>txs := upd_where (\<lambda>t. nonce t = n)
                     (\<lambda>t. t\<lparr>tx_state := ''submitted'', created := now, broadcast := 0\<rparr>) (txs j2)\<rparr> in
        bindR (foldR served_again
                 (sort (remdups (map (\<lambda>t. (tx_job t, starts_with ''epoch'' (tx_kind t))) rows))) j3)
          (\<lambda>j4. Inr (meta_put (nonce_started_key n) (Text (show_nat wall_time)) j4))))"

definition reopen_nonce :: "nat \<Rightarrow> nat \<Rightarrow> nat \<Rightarrow> journal \<Rightarrow> error + reopened \<times> journal" where
  "reopen_nonce nonce' chain_time wall_time j =
     bindR (i64_try TryFromInt nonce') (\<lambda>n.
     bindR (i64_try TryFromInt chain_time) (\<lambda>now.
       let rows = sort_key tx_id (filter (\<lambda>t. nonce t = n) (txs j)) in
       if rows = [] \<or> raw (last rows) = [] then Inr (NoBytes, j)
       else bindR (reopen_rows n now wall_time rows j) (\<lambda>j'. Inr (Reopened_Lane, j'))))"

definition begin_fill :: "string \<Rightarrow> mval \<Rightarrow> journal \<Rightarrow> journal" where
  "begin_fill key value j = meta_put key value (j\<lparr>txs := park (\<lambda>_. True) (txs j)\<rparr>)"

definition set_meta_marked :: "string \<Rightarrow> mval \<Rightarrow> mark option \<Rightarrow> journal \<Rightarrow> error + journal" where
  "set_meta_marked key value m j = write_mark_opt m (meta_put key value j)"

definition settle_fill :: "string \<Rightarrow> nat \<Rightarrow> string list \<Rightarrow> mark option \<Rightarrow> journal \<Rightarrow> error + journal" where
  "settle_fill key nonce' hashes fresh j =
     bindR (delete_nonce_marks (int nonce') hashes j) (\<lambda>j1.
     bindR (write_mark_opt fresh j1) (\<lambda>j2. Inr (meta_delete (\<lambda>k. k = key) j2)))"

definition unpark_lanes :: "journal \<Rightarrow> nat \<times> journal" where
  "unpark_lanes j = (count_where is_parked (txs j), j\<lparr>txs := unpark (txs j)\<rparr>)"

definition parked_lanes :: "journal \<Rightarrow> nat" where
  "parked_lanes j = count_where is_parked (txs j)"

text \<open>\<open>LIKE 'prefix%'\<close>, which ignores ASCII case; the prefix has no wildcard.\<close>

definition like_prefix :: "string \<Rightarrow> string \<Rightarrow> bool" where
  "like_prefix p k = starts_with (to_ascii_lowercase p) (to_ascii_lowercase k)"

definition incident_key :: "string \<Rightarrow> bool" where
  "incident_key k = (k = MISMATCH_KEY \<or> k = ACK_KEY \<or> k = ALERTED_KEY \<or> k = UNCONFIRMED_ALERTED_KEY
     \<or> k = SUSPECTED_KEY \<or> like_prefix RECOVERY_PREFIX k)"

text \<open>The finalized record the incident named, which goes with it.\<close>

definition drop_named_record :: "mismatch \<Rightarrow> journal \<Rightarrow> error + journal" where
  "drop_named_record m j =
     (if mm_kind m = ''finalized_receipt'' then
        bindR (i64_try TryFromInt (mm_number m)) (\<lambda>n.
          Inr (j\<lparr>finalized_receipts := del_where (\<lambda>r. rc_hash r = mm_ref m \<and> block_number r = n
                    \<and> block_hash r = expected m) (finalized_receipts j)\<rparr>))
      else if mm_kind m = ''finalized_checkpoint'' then
        Inr (if meta j (cp_key FINALIZED_CHECKPOINT) = Some (encode_block (mm_number m) (expected m))
             then meta_delete (\<lambda>k. k = cp_key FINALIZED_CHECKPOINT) j else j)
      else Inr j)"

definition clear_finality_incident :: "json \<Rightarrow> journal \<Rightarrow> error + journal" where
  "clear_finality_incident summary j =
     bindR (recorded_mismatch j) (\<lambda>found.
     bindR (case found of None \<Rightarrow> Inr j | Some m \<Rightarrow> drop_named_record m j) (\<lambda>j1.
       Inr (meta_put LAST_RECOVERY_KEY (Json summary)
              (meta_delete incident_key (j1\<lparr>txs := unpark (txs j1)\<rparr>)))))"

section \<open>Records read back\<close>

lemma decode_encode_mismatch [simp]: "decode_mismatch (encode_mismatch m) = Some m"
  by (simp add: decode_mismatch_def encode_mismatch_def field_str_def field_nat_def)

lemma decode_encode_ack [simp]: "decode_ack (encode_ack a) = Some a"
  by (simp add: decode_ack_def encode_ack_def field_str_def field_nat_def)

lemma decode_encode_suspected [simp]: "decode_suspected (encode_suspected s) = Some s"
proof -
  have [simp]: "json_field ''mismatch'' (encode_suspected s) = Some (encode_mismatch (sp_mismatch s))"
    "field_nat ''checks'' (encode_suspected s) = Some (checks s)"
    "field_nat ''endpoints'' (encode_suspected s) = Some (endpoints s)"
    "field_nat ''answered'' (encode_suspected s) = Some (answered s)"
    by (simp_all add: encode_suspected_def field_nat_def)
  show ?thesis by (simp add: decode_suspected_def)
qed

lemma incident_keys_simps [simp]:
  "MISMATCH_KEY \<noteq> ''audit:dropped''" "ACK_KEY \<noteq> ''audit:dropped''" "SUSPECTED_KEY \<noteq> ''audit:dropped''"
  "LAST_RECOVERY_KEY \<noteq> ''audit:dropped''" "MISMATCH_KEY \<noteq> ACK_KEY" "ACK_KEY \<noteq> MISMATCH_KEY"
  "MISMATCH_KEY \<noteq> SUSPECTED_KEY" "SUSPECTED_KEY \<noteq> MISMATCH_KEY" "ACK_KEY \<noteq> SUSPECTED_KEY"
  "SUSPECTED_KEY \<noteq> ACK_KEY" "LAST_RECOVERY_KEY \<noteq> MISMATCH_KEY" "MISMATCH_KEY \<noteq> LAST_RECOVERY_KEY"
  "MISMATCH_KEY \<noteq> NONCE_FLOOR_KEY" "NONCE_FLOOR_KEY \<noteq> MISMATCH_KEY"
  "MISMATCH_KEY \<noteq> SWEEP_ATTEMPT_KEY" "SWEEP_ATTEMPT_KEY \<noteq> MISMATCH_KEY"
  by (simp_all add: incident_keys NONCE_FLOOR_KEY_def SWEEP_ATTEMPT_KEY_def)

section \<open>Parking\<close>

lemma is_parked_not_active: "is_parked t \<Longrightarrow> \<not> active t"
  by (auto simp: is_parked_def active_def)

lemma park_parked: "active t \<Longrightarrow> is_parked (t\<lparr>tx_state := parked_state (tx_state t)\<rparr>)"
  by (auto simp: is_parked_def active_def parked_state_def)

lemma drop_parked_state [simp]: "drop 7 (parked_state st) = st"
  by (simp add: parked_state_def)

text \<open>What was parked returns in the state it had.\<close>

lemma unpark_park: "\<forall>t \<in> set ts. \<not> is_parked t \<Longrightarrow> unpark (park P ts) = ts"
proof (induction ts)
  case Nil
  show ?case by (simp add: unpark_def park_def)
next
  case (Cons t ts)
  have IH: "unpark (park P ts) = ts" using Cons by simp
  show ?case
  proof (cases "active t \<and> P t")
    case True
    then have "is_parked (t\<lparr>tx_state := parked_state (tx_state t)\<rparr>)" by (simp add: park_parked)
    then show ?thesis using True IH by (simp add: unpark_def park_def)
  next
    case False
    then show ?thesis using Cons.prems IH by (auto simp: unpark_def park_def)
  qed
qed

lemma owners_of_park: "owners_of (park P ts) = owners_of (filter (\<lambda>t. \<not> P t) ts)"
proof (induction ts)
  case Nil
  show ?case by (simp add: park_def)
next
  case (Cons t ts)
  have "\<not> active (t\<lparr>tx_state := parked_state (tx_state t)\<rparr>)" by (simp add: active_def parked_state_def)
  then show ?case using Cons by (auto simp: park_def)
qed

section \<open>Reopening a nonce\<close>

lemma delete_marks_frame [frame]:
  assumes "delete_marks P j = Inr j'"
  shows "txs j' = txs j" "jobs j' = jobs j" "meta j' = meta j" "members j' = members j"
    "finalized_receipts j' = finalized_receipts j" "epoch_work j' = epoch_work j"
    "audit_ok j' = audit_ok j"
  using assms by (auto simp: result_simps)

lemma delete_nonce_marks_frame:
  assumes "delete_nonce_marks n hs j = Inr j'"
  shows "txs j' = txs j \<and> jobs j' = jobs j \<and> meta j' = meta j \<and> members j' = members j
    \<and> finalized_receipts j' = finalized_receipts j \<and> epoch_work j' = epoch_work j
    \<and> (audit_ok j \<longrightarrow> audit_ok j') \<and> (marks_ok j \<longrightarrow> marks_ok j')"
proof -
  let ?I = "\<lambda>s. txs s = txs j \<and> jobs s = jobs j \<and> meta s = meta j \<and> members s = members j
    \<and> finalized_receipts s = finalized_receipts j \<and> epoch_work s = epoch_work j
    \<and> (audit_ok j \<longrightarrow> audit_ok s) \<and> (marks_ok j \<longrightarrow> marks_ok s)"
  obtain j1 where j1: "foldR (\<lambda>h. delete_marks (\<lambda>r. mr_kind r = ''receipt'' \<and> mr_ref r = h)) hs j = Inr j1"
    and j': "delete_marks (\<lambda>r. mr_kind r = ''nonce'' \<and> mr_ref r = show_int n) j1 = Inr j'"
    using assms by (auto simp: delete_nonce_marks_def bindR_Inr_iff)
  have "?I j1"
    by (rule foldR_invariant [where P = ?I, OF j1]) (simp_all add: delete_marks_frame delete_marks_ok)
  then show ?thesis using j' by (simp add: delete_marks_frame delete_marks_ok)
qed

lemma delete_marks_rows:
  "delete_marks P j = Inr j' \<Longrightarrow>
   \<exists>rows. soft_marks j = Some rows \<and> soft_marks j' = Some (del_where P rows)"
  by (auto simp: result_simps)

lemma delete_all_marks_gone:
  "foldR (\<lambda>h. delete_marks (P h)) hs j = Inr j' \<Longrightarrow> soft_marks j = Some rows \<Longrightarrow>
   soft_marks j' = Some (del_where (\<lambda>r. \<exists>h \<in> set hs. P h r) rows)"
proof (induction hs arbitrary: j rows)
  case Nil
  then show ?case by (simp add: del_where_def)
next
  case (Cons h hs)
  then obtain j1 where j1: "delete_marks (P h) j = Inr j1" "foldR (\<lambda>h. delete_marks (P h)) hs j1 = Inr j'"
    by (auto simp: bindR_Inr_iff)
  have "soft_marks j1 = Some (del_where (P h) rows)"
    using delete_marks_rows [OF j1(1)] Cons.prems(2) by auto
  from Cons.IH [OF j1(2) this] show ?case by (auto simp: del_where_def intro!: filter_cong)
qed

lemma served_again_lane:
  assumes "served_again p j = Inr j'"
  shows "lane_view j' = lane_view j \<and> soft_marks j' = soft_marks j
    \<and> finalized_receipts j' = finalized_receipts j \<and> (audit_ok j \<longrightarrow> audit_ok j')"
proof (cases "snd p")
  case True
  then show ?thesis
    using assms by (auto simp: served_again_def table_def result_simps lane_view_def)
next
  case False
  then have "bookkeeping j j'"
    using assms update_bookkeeping(4,5) by (auto simp: served_again_def split: if_splits)
  then show ?thesis by (simp add: lane_view_bookkeeping bookkeepingD)
qed

lemma nonce_started_key_neq [simp]:
  "nonce_started_key n \<noteq> ''audit:dropped''" "nonce_started_key n \<noteq> NONCE_FLOOR_KEY"
  "NONCE_FLOOR_KEY \<noteq> nonce_started_key n" "SWEEP_ATTEMPT_KEY \<noteq> nonce_started_key n"
  by (simp_all add: nonce_started_key_def NONCE_FLOOR_KEY_def SWEEP_ATTEMPT_KEY_def)

lemma reopen_rows_Inr:
  assumes "reopen_rows n now wall rows j = Inr j'"
  shows "txs j' = upd_where (\<lambda>t. nonce t = n)
      (\<lambda>t. t\<lparr>tx_state := ''submitted'', created := now, broadcast := 0\<rparr>) (park (\<lambda>t. nonce t \<noteq> n) (txs j))
    \<and> meta j' NONCE_FLOOR_KEY = meta j NONCE_FLOOR_KEY
    \<and> meta j' SWEEP_ATTEMPT_KEY = meta j SWEEP_ATTEMPT_KEY
    \<and> meta j' (nonce_started_key n) = Some (Text (show_nat wall))
    \<and> finalized_receipts j' = finalized_receipts j \<and> (marks_ok j \<longrightarrow> marks_ok j')
    \<and> (audit_ok j \<longrightarrow> audit_ok j')
    \<and> (\<forall>ms. soft_marks j = Some ms \<longrightarrow> soft_marks j' = Some (del_where (\<lambda>r.
          (mr_kind r = ''receipt'' \<and> mr_ref r \<in> tx_hash ` set rows)
          \<or> (mr_kind r = ''nonce'' \<and> mr_ref r = show_int n)) ms))"
proof -
  let ?j1 = "j\<lparr>txs := park (\<lambda>t. nonce t \<noteq> n) (txs j)\<rparr>"
  from assms obtain j2 j4 where j2: "delete_nonce_marks n (map tx_hash rows) ?j1 = Inr j2"
    and j4: "foldR served_again
           (sort (remdups (map (\<lambda>t. (tx_job t, starts_with ''epoch'' (tx_kind t))) rows)))
           (j2\<lparr>txs := upd_where (\<lambda>t. nonce t = n)
              (\<lambda>t. t\<lparr>tx_state := ''submitted'', created := now, broadcast := 0\<rparr>) (txs j2)\<rparr>) = Inr j4"
    and j': "j' = meta_put (nonce_started_key n) (Text (show_nat wall)) j4"
    unfolding reopen_rows_def Let_def bindR_Inr_iff sum.inject by blast
  let ?j3 = "j2\<lparr>txs := upd_where (\<lambda>t. nonce t = n)
              (\<lambda>t. t\<lparr>tx_state := ''submitted'', created := now, broadcast := 0\<rparr>) (txs j2)\<rparr>"
  let ?I = "\<lambda>s. lane_view s = lane_view ?j3 \<and> soft_marks s = soft_marks ?j3
    \<and> finalized_receipts s = finalized_receipts ?j3 \<and> (audit_ok ?j3 \<longrightarrow> audit_ok s)"
  have I: "?I j4"
    by (rule foldR_invariant [where P = ?I, OF j4]) (simp_all add: served_again_lane)
  note d = delete_nonce_marks_frame [OF j2]
  have marks: "soft_marks j2 = Some (del_where (\<lambda>r. (mr_kind r = ''receipt'' \<and> mr_ref r \<in> tx_hash ` set rows)
          \<or> (mr_kind r = ''nonce'' \<and> mr_ref r = show_int n)) ms)" if ms: "soft_marks j = Some ms" for ms
  proof -
    obtain ja where ja: "foldR (\<lambda>h. delete_marks (\<lambda>r. mr_kind r = ''receipt'' \<and> mr_ref r = h)) (map tx_hash rows) ?j1 = Inr ja"
      and jb: "delete_marks (\<lambda>r. mr_kind r = ''nonce'' \<and> mr_ref r = show_int n) ja = Inr j2"
      using j2 by (auto simp: delete_nonce_marks_def bindR_Inr_iff)
    have "soft_marks ja = Some (del_where (\<lambda>r. \<exists>h \<in> set (map tx_hash rows). mr_kind r = ''receipt'' \<and> mr_ref r = h) ms)"
      using delete_all_marks_gone [OF ja] ms by simp
    then have "soft_marks j2 = Some (del_where (\<lambda>r. mr_kind r = ''nonce'' \<and> mr_ref r = show_int n)
        (del_where (\<lambda>r. \<exists>h \<in> set (map tx_hash rows). mr_kind r = ''receipt'' \<and> mr_ref r = h) ms))"
      using delete_marks_rows [OF jb] by auto
    then show ?thesis by (auto simp: del_where_def intro!: filter_cong)
  qed
  have soft: "soft_marks j' = soft_marks j2" using I by (simp add: j')
  have "marks_ok ?j1 = marks_ok j" by (simp add: marks_ok_def)
  then have ok: "marks_ok j \<longrightarrow> marks_ok j'" using d marks_ok_soft_marks [OF soft] by blast
  have view: "txs j4 = txs ?j3" "meta j4 NONCE_FLOOR_KEY = meta ?j3 NONCE_FLOOR_KEY"
      "meta j4 SWEEP_ATTEMPT_KEY = meta ?j3 SWEEP_ATTEMPT_KEY"
    using I lane_viewD(1-3) by blast+
  show ?thesis
    using I d marks ok soft view by (simp add: j')
qed

section \<open>What an audit reads and writes\<close>

lemma optR_u64_Inr: "optR (u64_try e) x = Inr y \<Longrightarrow> map_option int y = x"
  by (cases x) (auto simp: optR_def result_simps)

lemma case_sum_Inr_iff:
  "(case res of Inl m \<Rightarrow> Inl m | Inr y \<Rightarrow> Inr (f y)) = Inr x \<longleftrightarrow> (\<exists>y. res = Inr y \<and> x = f y)"
  by (cases res) auto

lemma audit_block_Inr:
  "audit_block number chain now rows = Inr (Inr ms) \<Longrightarrow> \<forall>r \<in> set rows. mr_number r = int number \<Longrightarrow>
   map row_of ms = rows \<and> (\<forall>r \<in> set rows. eq_ignore_ascii_case (mr_hash r) chain)
   \<and> (\<forall>m \<in> set ms. mk_number m = number)"
proof (induction rows arbitrary: ms)
  case Nil
  then show ?case by simp
next
  case (Cons r rs)
  from Cons.prems(1) obtain k c s ms' where k: "kind_parse (mr_kind r) = Inr k"
    and c: "u64_try TryFromInt (mr_created r) = Inr c" and s: "optR (u64_try TryFromInt) (mr_status r) = Inr s"
    and eq: "eq_ignore_ascii_case (mr_hash r) chain"
    and rest: "audit_block number chain now rs = Inr (Inr ms')"
    and ms: "ms = \<lparr>mk_kind = k, mk_number = number, mk_hash = mr_hash r, mk_ref = mr_ref r,
                   mk_created = c, mk_status = s\<rparr> # ms'"
    by (auto simp: bindR_Inr_iff case_sum_Inr_iff split: if_splits)
  have "row_of (hd ms) = r"
    using k c optR_u64_Inr [OF s] Cons.prems(2)
    by (simp add: ms row_of_def kind_parse_Inr_iff u64_try_Inr_iff)
  then show ?case
    using Cons.IH [OF rest] Cons.prems(2) eq by (simp add: ms)
qed

lemma audit_read_Inr:
  assumes "audit_read now j canonical = Inr (Inr ms)" and "soft_marks j = Some rows"
  shows "(\<forall>b \<in> set canonical. \<forall>r \<in> set rows. mr_number r = int (fst b) \<longrightarrow>
            eq_ignore_ascii_case (mr_hash r) (snd b) \<and> r \<in> row_of ` set ms)
    \<and> (\<forall>m \<in> set ms. row_of m \<in> set rows \<and> mk_number m \<in> fst ` set canonical)
    \<and> (\<forall>b \<in> set canonical. int (fst b) \<le> i64_max)"
  using assms(1)
proof (induction canonical arbitrary: ms)
  case Nil
  then show ?case by simp
next
  case (Cons b rest)
  obtain number chain where b: "b = (number, chain)" by (cases b)
  let ?block = "sort_key (\<lambda>r. (mr_kind r, mr_ref r)) (filter (\<lambda>r. mr_number r = int number) rows)"
  from Cons.prems obtain res where n: "int number \<le> i64_max"
    and blk0: "audit_block number chain now ?block = Inr res"
    and rst0: "(case res of Inl m \<Rightarrow> Inr (Inl m)
       | Inr ms \<Rightarrow> bindR (audit_read now j rest) (\<lambda>res'. Inr (case res' of
             Inl m \<Rightarrow> Inl m | Inr ms' \<Rightarrow> Inr (ms @ ms')))) = Inr (Inr ms)"
    by (auto simp: b bindR_Inr_iff i64_try_Inr_iff table_def assms(2))
  from rst0 obtain ms1 ms2 where blk: "audit_block number chain now ?block = Inr (Inr ms1)"
    and rst: "audit_read now j rest = Inr (Inr ms2)" and ms: "ms = ms1 @ ms2"
    using blk0 by (cases res) (auto simp: bindR_Inr_iff case_sum_Inr_iff)
  have "\<forall>r \<in> set ?block. mr_number r = int number" by simp
  note B = audit_block_Inr [OF blk this]
  have rows1: "row_of ` set ms1 = set ?block" using B by (metis list.set_map)
  note IH = Cons.IH [OF rst]
  have "eq_ignore_ascii_case (mr_hash r) (snd c) \<and> r \<in> row_of ` set ms"
    if "c \<in> set (b # rest)" "r \<in> set rows" "mr_number r = int (fst c)" for c r
  proof (cases "c = b")
    case True
    then have "r \<in> set ?block" using that by (simp add: b)
    then show ?thesis using B rows1 True by (auto simp: b ms)
  next
    case False
    then have "c \<in> set rest" using that(1) by simp
    then have "eq_ignore_ascii_case (mr_hash r) (snd c) \<and> r \<in> row_of ` set ms2"
      using IH that(2,3) by blast
    then show ?thesis by (simp add: ms image_Un)
  qed
  moreover have "row_of m \<in> set rows \<and> mk_number m \<in> fst ` set (b # rest)" if "m \<in> set ms" for m
  proof (cases "m \<in> set ms1")
    case True
    then have "row_of m \<in> set ?block" using rows1 by blast
    then show ?thesis using B True by (simp add: b)
  next
    case False
    then show ?thesis using IH that by (simp add: ms)
  qed
  moreover have "\<forall>c \<in> set (b # rest). int (fst c) \<le> i64_max" using IH n by (simp add: b)
  ultimately show ?case by blast
qed

definition receipt_of :: "mark \<Rightarrow> receipt" where
  "receipt_of m = \<lparr>rc_hash = mk_ref m, block_number = int (mk_number m), block_hash = mk_hash m,
     rc_status = int (the (mk_status m))\<rparr>"

lemma set_insert_receipt: "set rows \<subseteq> set (insert_receipt r rows)"
  by (auto simp: insert_receipt_def)

lemma find_receipt_Inr: "find_receipt h rows = Inr r \<Longrightarrow> r \<in> set rows \<and> rc_hash r = h"
  by (auto simp: find_receipt_def result_simps find_Some_iff)

lemma audit_receipts_Inr:
  "audit_receipts now ms rows = Inr (Inr rows') \<Longrightarrow>
   set rows \<subseteq> set rows' \<and> (\<forall>m \<in> set ms. mk_status m \<noteq> None \<and> receipt_of m \<in> set rows')"
proof (induction ms arbitrary: rows)
  case Nil
  then show ?case by simp
next
  case (Cons m ms)
  from Cons.prems obtain s where s: "mk_status m = Some s"
    and fnd: "find_receipt (mk_ref m) (insert_receipt (receipt_of m) rows) = Inr (receipt_of m)"
    and rest: "audit_receipts now ms (insert_receipt (receipt_of m) rows) = Inr (Inr rows')"
    by (auto simp: bindR_Inr_iff result_simps Let_def receipt_of_def split: if_splits)
  note IH = Cons.IH [OF rest]
  have "receipt_of m \<in> set rows'"
    using find_receipt_Inr [OF fnd] IH by blast
  then show ?case using IH s set_insert_receipt [of rows "receipt_of m"] by auto
qed

lemma delete_blocks_Inr:
  "delete_blocks canonical j = Inr j' \<Longrightarrow> soft_marks j = Some rows \<Longrightarrow>
   soft_marks j' = Some (del_where (\<lambda>r. mr_number r \<in> (int \<circ> fst) ` set canonical) rows)
   \<and> txs j' = txs j \<and> jobs j' = jobs j \<and> meta j' = meta j \<and> members j' = members j
   \<and> finalized_receipts j' = finalized_receipts j \<and> epoch_work j' = epoch_work j \<and> audit_ok j' = audit_ok j"
proof (induction canonical arbitrary: j rows)
  case Nil
  then show ?case by (simp add: delete_blocks_def del_where_def)
next
  case (Cons b rest)
  from Cons.prems obtain j1 where j1: "delete_marks (\<lambda>r. mr_number r = int (fst b)) j = Inr j1"
    and rst: "delete_blocks rest j1 = Inr j'"
    by (auto simp: delete_blocks_def bindR_Inr_iff i64_try_Inr_iff)
  have s1: "soft_marks j1 = Some (del_where (\<lambda>r. mr_number r = int (fst b)) rows)"
    using delete_marks_rows [OF j1] Cons.prems(2) by auto
  note IH = Cons.IH [OF rst s1]
  have "soft_marks j' = Some (del_where (\<lambda>r. mr_number r \<in> (int \<circ> fst) ` set (b # rest)) rows)"
    using IH by (auto simp: del_where_def intro!: filter_cong)
  then show ?case using IH delete_marks_frame [OF j1] by simp
qed

lemma highest_mark_in: "highest_mark m ms \<in> set (m # ms)"
proof (induction ms arbitrary: m)
  case Nil
  show ?case by (simp add: highest_mark_def)
next
  case (Cons x ms)
  have "highest_mark m (x # ms) = highest_mark (if mk_number m \<le> mk_number x then x else m) ms"
    by (simp add: highest_mark_def)
  then show ?case using Cons.IH [of "if mk_number m \<le> mk_number x then x else m"] by auto
qed

lemma highest_mark_max: "x \<in> set (m # ms) \<Longrightarrow> mk_number x \<le> mk_number (highest_mark m ms)"
proof (induction ms arbitrary: m x)
  case Nil
  then show ?case by (simp add: highest_mark_def)
next
  case (Cons y ms)
  let ?m = "if mk_number m \<le> mk_number y then y else m"
  have h: "highest_mark m (y # ms) = highest_mark ?m ms"
    by (simp add: highest_mark_def)
  have "mk_number ?m \<le> mk_number (highest_mark ?m ms)" using Cons.IH [of ?m ?m] by simp
  moreover have "mk_number m \<le> mk_number ?m" "mk_number y \<le> mk_number ?m" by auto
  moreover have "x \<in> set ms \<Longrightarrow> mk_number x \<le> mk_number (highest_mark ?m ms)" using Cons.IH [of x ?m] by simp
  ultimately show ?case using Cons.prems h by auto
qed

lemma audit_block_Inl:
  "audit_block number chain now rows = Inr (Inl m) \<Longrightarrow>
   \<exists>r \<in> set rows. \<exists>k. m = \<lparr>mm_kind = kind_name k, mm_number = number, mm_ref = mr_ref r,
      expected = mr_hash r, actual = chain, detected_at = now\<rparr>
      \<and> \<not> eq_ignore_ascii_case (mr_hash r) chain"
proof (induction rows)
  case Nil
  then show ?case by simp
next
  case (Cons r rs)
  show ?case
  proof (cases "eq_ignore_ascii_case (mr_hash r) chain")
    case True
    have inl: "(case res of Inl m \<Rightarrow> Inl m | Inr y \<Rightarrow> Inr (f y)) = Inl x \<longleftrightarrow> res = Inl x"
      for res :: "mismatch + mark list" and f :: "mark list \<Rightarrow> mark list" and x
      by (cases res) auto
    have "audit_block number chain now rs = Inr (Inl m)"
      using Cons.prems True by (auto simp: bindR_Inr_iff inl)
    then show ?thesis using Cons.IH by auto
  next
    case False
    then show ?thesis using Cons.prems by (auto simp: bindR_Inr_iff)
  qed
qed

lemma audit_read_Inl:
  assumes "audit_read now j canonical = Inr (Inl m)" and "soft_marks j = Some rows"
  shows "(mm_number m, actual m) \<in> set canonical \<and> \<not> eq_ignore_ascii_case (expected m) (actual m)
    \<and> (\<exists>r \<in> set rows. mr_number r = int (mm_number m) \<and> mr_hash r = expected m \<and> mr_ref r = mm_ref m)"
  using assms(1)
proof (induction canonical)
  case Nil
  then show ?case by simp
next
  case (Cons b rest)
  obtain number chain where b: "b = (number, chain)" by (cases b)
  let ?block = "sort_key (\<lambda>r. (mr_kind r, mr_ref r)) (filter (\<lambda>r. mr_number r = int number) rows)"
  from Cons.prems obtain res where
    blk: "audit_block number chain now ?block = Inr res"
    and rst0: "(case res of Inl m \<Rightarrow> Inr (Inl m)
       | Inr ms \<Rightarrow> bindR (audit_read now j rest) (\<lambda>res'. Inr (case res' of
             Inl m \<Rightarrow> Inl m | Inr ms' \<Rightarrow> Inr (ms @ ms')))) = Inr (Inl m)"
    by (auto simp: b bindR_Inr_iff i64_try_Inr_iff table_def assms(2))
  show ?case
  proof (cases res)
    case (Inl m')
    then have "audit_block number chain now ?block = Inr (Inl m)" using blk rst0 by simp
    from audit_block_Inl [OF this] show ?thesis by (auto simp: b)
  next
    case (Inr ms)
    have inl: "(case r of Inl m \<Rightarrow> Inl m | Inr y \<Rightarrow> Inr (ms @ y)) = Inl m \<longleftrightarrow> r = Inl m"
      for r :: "mismatch + mark list" by (cases r) auto
    have "audit_read now j rest = Inr (Inl m)" using rst0 Inr by (auto simp: bindR_Inr_iff inl)
    then show ?thesis using Cons.IH by auto
  qed
qed

lemma audit_commit_cases:
  assumes "audit_commit canonical now marks lm rows j = Inr (res, j')"
  obtains (conflict) n h where "decode_block (the (meta j (cp_key FINALIZED_CHECKPOINT))) = Some (n, h)"
      and "res = Mismatched \<lparr>mm_kind = ''finalized_checkpoint'', mm_number = n, mm_ref = [],
                           expected = h, actual = mk_hash lm, detected_at = now\<rparr>" and "j' = j"
  | (commit) j1 where "checkpoint FINALIZED_CHECKPOINT (mk_number lm) (mk_hash lm) (j\<lparr>finalized_receipts := rows\<rparr>) = Inr j1"
      and "delete_blocks canonical j1 = Inr j'"
      and "res = Audited (length (remdups (map mk_number marks)))
                   (count_where (\<lambda>m. mk_kind m = Receipt) marks) (mk_number lm, mk_hash lm)"
proof (cases "meta j (cp_key FINALIZED_CHECKPOINT)")
  case None
  then show thesis
    using assms commit by (auto simp: audit_commit_def Let_def bindR_Inr_iff)
next
  case (Some saved)
  show thesis
  proof (cases "decode_block saved")
    case None
    then show thesis using assms Some by (simp add: audit_commit_def Let_def)
  next
    case (Some b)
    obtain n h where b: "b = (n, h)" by (cases b)
    show thesis
      using assms Some \<open>meta j (cp_key FINALIZED_CHECKPOINT) = Some saved\<close> conflict commit
      by (auto simp: audit_commit_def Let_def b bindR_Inr_iff split: if_splits)
  qed
qed

lemma audit_receipts_Inl:
  "audit_receipts now ms rows = Inr (Inl m) \<Longrightarrow> mm_kind m = ''finalized_receipt''"
proof (induction ms arbitrary: rows)
  case Nil
  then show ?case by simp
next
  case (Cons x ms)
  obtain row stored :: receipt and rows' where
    "(if stored \<noteq> row
      then bindR (u64_try TryFromInt (block_number stored)) (\<lambda>b.
             Inr (Inl \<lparr>mm_kind = ''finalized_receipt'', mm_number = b, mm_ref = mk_ref x,
                       expected = block_hash stored, actual = [], detected_at = now\<rparr>))
      else audit_receipts now ms rows') = Inr (Inl m)"
    using Cons.prems unfolding audit_receipts.simps bindR_Inr_iff Let_def
    by blast
  then show ?case
    using Cons.IH by (cases "stored = row") (auto simp: bindR_Inr_iff)
qed

lemma audit_marks_cases:
  assumes "audit_marks canonical now j = Inr (res, j')"
  obtains (stopped) m where "recorded_mismatch j = Inr (Some m)" and "res = Stopped m" and "j' = j"
  | (read) m where "audit_read now j canonical = Inr (Inl m)" and "res = Mismatched m" and "j' = j"
  | (idle) "audit_read now j canonical = Inr (Inr [])" and "res = Idle" and "j' = j"
  | (receipts) m where "mm_kind m = ''finalized_receipt''" and "res = Mismatched m" and "j' = j"
  | (commit) m ms rows where "audit_read now j canonical = Inr (Inr (m # ms))"
      and "audit_receipts now (filter (\<lambda>m. mk_kind m = Receipt) (m # ms)) (finalized_receipts j) = Inr (Inr rows)"
      and "audit_commit canonical now (m # ms) (highest_mark m ms) rows j = Inr (res, j')"
proof -
  obtain found where found: "recorded_mismatch j = Inr found"
    using assms by (cases "recorded_mismatch j") (simp_all add: audit_marks_def)
  show thesis
  proof (cases found)
    case (Some m)
    then have "res = Stopped m" "j' = j" using assms found by (simp_all add: audit_marks_def)
    then show thesis using found Some by (intro stopped) simp_all
  next
    case None
    obtain rd where rd: "audit_read now j canonical = Inr rd"
      using assms found None by (cases "audit_read now j canonical") (simp_all add: audit_marks_def)
    show thesis
    proof (cases rd)
      case (Inl m)
      then have "res = Mismatched m" "j' = j" using assms found None rd by (simp_all add: audit_marks_def)
      then show thesis using rd Inl by (intro read) simp_all
    next
      case (Inr marks)
      show thesis
      proof (cases marks)
        case Nil
        then have "res = Idle" "j' = j" using assms found None rd Inr by (simp_all add: audit_marks_def)
        then show thesis using rd Inr Nil by (intro idle) simp_all
      next
        case (Cons m ms)
        let ?r = "audit_receipts now (filter (\<lambda>m. mk_kind m = Receipt) (m # ms)) (finalized_receipts j)"
        have c: "bindR ?r (\<lambda>res'. case res' of
                      Inl mm \<Rightarrow> Inr (Mismatched mm, j)
                    | Inr rows \<Rightarrow> audit_commit canonical now (m # ms) (highest_mark m ms) rows j) = Inr (res, j')"
          using assms unfolding audit_marks_def found None rd Inr Cons bindR_simps option.case sum.case list.case .
        then obtain rr where rr: "?r = Inr rr" unfolding bindR_Inr_iff by blast
        show thesis
        proof (cases rr)
          case (Inl mm)
          then have "res = Mismatched mm" "j' = j" using c unfolding rr by simp_all
          then show thesis using audit_receipts_Inl rr Inl by (intro receipts) blast+
        next
          case (Inr rows)
          then have "audit_commit canonical now (m # ms) (highest_mark m ms) rows j = Inr (res, j')"
            using c unfolding rr by simp
          then show thesis using rd rr \<open>rd = Inr marks\<close> Cons Inr by (intro commit) simp_all
        qed
      qed
    qed
  qed
qed


definition audited_sample :: journal where
  "audited_sample = blank_journal\<lparr>soft_marks := Some [row_of \<lparr>mk_kind = Receipt, mk_number = 7,
     mk_hash = ''aa'', mk_ref = ''t1'', mk_created = 5, mk_status = Some 1\<rparr>]\<rparr>"

lemma aa_ignore_case: "eq_ignore_ascii_case ''aa'' ''AA''"
  by code_simp

lemma audited_sample_run:
  "\<exists>j'. audit_marks [(7, ''AA'')] 9 audited_sample = Inr (Audited 1 1 (7, ''aa''), j')"
  by (simp add: audit_marks_def audited_sample_def blank_journal_def recorded_mismatch_def optR_def table_def
      i64_try_def i64_max_def row_of_def kind_parse_def u64_try_def aa_ignore_case insert_receipt_def
      find_receipt_def audit_commit_def highest_mark_def FINALIZED_CHECKPOINT_def checkpoint_def
      delete_blocks_def delete_marks_def MISMATCH_KEY_def Let_def)


section \<open>The lane during a recovery\<close>

lemma reopen_lane_cases:
  assumes "reopen_nonce n ct wt j = Inr (r, j')"
  obtains (none) "r = NoBytes" and "j' = j"
  | (lane) "r = Reopened_Lane" and "int n \<le> i64_max" and "int ct \<le> i64_max"
      and "reopen_rows (int n) (int ct) wt (sort_key tx_id (filter (\<lambda>t. nonce t = int n) (txs j))) j = Inr j'"
proof (cases "sort_key tx_id (filter (\<lambda>t. nonce t = int n) (txs j)) = []
     \<or> raw (last (sort_key tx_id (filter (\<lambda>t. nonce t = int n) (txs j)))) = []")
  case True
  have "r = NoBytes" "j' = j"
    using assms unfolding reopen_nonce_def Let_def bindR_Inr_iff i64_try_Inr_iff
    by (auto simp: if_P [OF True])
  then show thesis by (rule none)
next
  case False
  have "r = Reopened_Lane \<and> int n \<le> i64_max \<and> int ct \<le> i64_max \<and>
      reopen_rows (int n) (int ct) wt (sort_key tx_id (filter (\<lambda>t. nonce t = int n) (txs j))) j = Inr j'"
    using assms unfolding reopen_nonce_def Let_def bindR_Inr_iff i64_try_Inr_iff
    by (auto simp: if_not_P [OF False] bindR_Inr_iff)
  then show thesis using lane by blast
qed

text \<open>The attempts after a nonce is reopened, one by one.\<close>

definition reopened_attempt :: "int \<Rightarrow> int \<Rightarrow> attempt \<Rightarrow> attempt" where
  "reopened_attempt n now t =
     (if nonce t = n then t\<lparr>tx_state := ''submitted'', created := now, broadcast := 0\<rparr>
      else if active t then t\<lparr>tx_state := parked_state (tx_state t)\<rparr> else t)"

lemma reopened_txs:
  "upd_where (\<lambda>t. nonce t = n) (\<lambda>t. t\<lparr>tx_state := ''submitted'', created := now, broadcast := 0\<rparr>)
     (park (\<lambda>t. nonce t \<noteq> n) ts) = map (reopened_attempt n now) ts"
  by (auto simp: upd_where_def park_def reopened_attempt_def)

lemma reopened_attempt_active: "active (reopened_attempt n now t) \<longleftrightarrow> nonce t = n"
  by (auto simp: reopened_attempt_def active_def parked_state_def)

lemma reopened_attempt_simps [simp]:
  "nonce (reopened_attempt n now t) = nonce t" "raw (reopened_attempt n now t) = raw t"
  "tx_hash (reopened_attempt n now t) = tx_hash t" "tx_job (reopened_attempt n now t) = tx_job t"
  "payload (reopened_attempt n now t) = payload t"
  by (simp_all add: reopened_attempt_def)


lemma sample_signed_bytes:
  "sort_key tx_id (filter (\<lambda>t. nonce t = int 4) (txs sample_signed))
     = [sample_attempt\<lparr>tx_id := 1, tx_state := ''signed''\<rparr>]"
  by (simp add: sample_defs)


lemma reopened_others_return:
  assumes none: "\<forall>t \<in> set (txs j). \<not> is_parked t" and "reopen_nonce n ct wt j = Inr (r, j')"
  shows "filter (\<lambda>t. nonce t \<noteq> int n) (unpark (txs j')) = filter (\<lambda>t. nonce t \<noteq> int n) (txs j)"
  using assms(2)
proof (cases rule: reopen_lane_cases)
  case none'': none
  have "unpark (txs j) = txs j" using none by (simp add: unpark_def)
  then show ?thesis using none'' by simp
next
  case lane
  have txs': "txs j' = map (reopened_attempt (int n) (int ct)) (txs j)"
    using reopen_rows_Inr [OF lane(4), unfolded reopened_txs] by blast
  have "filter (\<lambda>t. nonce t \<noteq> int n) (unpark (map (reopened_attempt (int n) (int ct)) ts))
      = filter (\<lambda>t. nonce t \<noteq> int n) ts" if "\<forall>t \<in> set ts. \<not> is_parked t" for ts
    using that
  proof (induction ts)
    case Nil
    show ?case by (simp add: unpark_def)
  next
    case (Cons t ts)
    have IH: "filter (\<lambda>t. nonce t \<noteq> int n) (upd_where is_parked (\<lambda>t. t\<lparr>tx_state := drop 7 (tx_state t)\<rparr>)
        (map (reopened_attempt (int n) (int ct)) ts)) = filter (\<lambda>t. nonce t \<noteq> int n) ts"
      using Cons by (simp add: unpark_def)
    have t: "\<not> is_parked t" using Cons.prems by simp
    show ?case
    proof (cases "nonce t = int n")
      case True
      then show ?thesis using IH by (auto simp: unpark_def)
    next
      case False
      then show ?thesis
        using IH t park_parked [of t]
          by (cases "active t") (simp_all add: unpark_def reopened_attempt_def [of _ _ t])
    qed
  qed
  then show ?thesis using none by (simp add: txs')
qed

text \<open>C5: Parking is undone exactly. Attempts that a fill or a reopened nonce parked return to the lane
  in the state they had: when none was parked before, returning them after a fill gives every attempt
  back, and after a reopened nonce every attempt of another nonce.\<close>

theorem parked_attempts_return:
  assumes "parked_lanes j = 0"
  shows "txs (snd (unpark_lanes (begin_fill key value j))) = txs j
    \<and> (\<forall>n ct wt r j'. reopen_nonce n ct wt j = Inr (r, j') \<longrightarrow>
         filter (\<lambda>t. nonce t \<noteq> int n) (txs (snd (unpark_lanes j'))) = filter (\<lambda>t. nonce t \<noteq> int n) (txs j))"
proof -
  have none: "\<forall>t \<in> set (txs j). \<not> is_parked t" using assms by (simp add: parked_lanes_def)
  have "txs (snd (unpark_lanes (begin_fill key value j))) = txs j"
    using unpark_park [OF none] by (simp add: unpark_lanes_def begin_fill_def)
  then show ?thesis using reopened_others_return [OF none] by (simp add: unpark_lanes_def)
qed

theorem parked_attempts_return_witness:
  "txs (snd (unpark_lanes (begin_fill ''finality:recovery:fill'' (Text ''x'') sample_signed))) = txs sample_signed
   \<and> (\<exists>r j'. reopen_nonce 5 50 60 sample_signed = Inr (r, j')
        \<and> filter (\<lambda>t. nonce t \<noteq> int 5) (txs (snd (unpark_lanes j'))) = txs sample_signed)"
proof -
  have p: "parked_lanes sample_signed = 0"
    by (simp add: parked_lanes_def is_parked_def sample_defs)
  have r: "reopen_nonce 5 50 60 sample_signed = Inr (NoBytes, sample_signed)"
    by (simp add: reopen_nonce_def i64_try_def i64_max_def sample_defs)
  have "filter (\<lambda>t. nonce t \<noteq> int 5) (txs sample_signed) = txs sample_signed"
    by (simp add: sample_defs)
  moreover note ret = parked_attempts_return [OF p, of "''finality:recovery:fill''" "Text ''x''"]
  moreover have "filter (\<lambda>t. nonce t \<noteq> int 5) (txs (snd (unpark_lanes sample_signed)))
      = filter (\<lambda>t. nonce t \<noteq> int 5) (txs sample_signed)"
    using ret r by blast
  ultimately show ?thesis using r by (intro conjI exI [of _ NoBytes] exI [of _ sample_signed]) simp_all
qed

section \<open>The end of an incident\<close>

lemma drop_named_record_frame:
  assumes "drop_named_record m j = Inr j'"
  shows "txs j' = txs j \<and> jobs j' = jobs j \<and> soft_marks j' = soft_marks j
    \<and> (\<forall>k. k \<noteq> cp_key FINALIZED_CHECKPOINT \<longrightarrow> meta j' k = meta j k)"
  using assms by (auto simp: drop_named_record_def result_simps split: if_splits)

lemma incident_key_others:
  "incident_key MISMATCH_KEY" "\<not> incident_key NONCE_FLOOR_KEY" "\<not> incident_key SWEEP_ATTEMPT_KEY"
  "\<not> incident_key LAST_RECOVERY_KEY"
  by code_simp+

text \<open>C6: Clearing an incident ends it. Afterwards no mismatch is on record and the keeper's state is
  clear, no attempt is parked, the nonce floor and a sweep under way are as they were, the soft marks
  and the jobs are untouched, and the summary is on record as the last recovery.\<close>

theorem cleared_incident_is_over:
  assumes "clear_finality_incident summary j = Inr j'"
  shows "finality_state_of keccak_hex j' = Inr Clear \<and> parked_lanes j' = 0
    \<and> floor_value j' = floor_value j \<and> meta j' SWEEP_ATTEMPT_KEY = meta j SWEEP_ATTEMPT_KEY
    \<and> soft_marks j' = soft_marks j \<and> jobs j' = jobs j
    \<and> meta j' LAST_RECOVERY_KEY = Some (Json summary)"
proof -
  from assms obtain found j1 where d: "(case found of None \<Rightarrow> Inr j | Some m \<Rightarrow> drop_named_record m j) = Inr j1"
    and j': "j' = meta_put LAST_RECOVERY_KEY (Json summary)
              (meta_delete incident_key (j1\<lparr>txs := unpark (txs j1)\<rparr>))"
    by (auto simp: clear_finality_incident_def bindR_Inr_iff)
  from d have j1: "txs j1 = txs j \<and> jobs j1 = jobs j \<and> soft_marks j1 = soft_marks j
      \<and> (\<forall>k. k \<noteq> cp_key FINALIZED_CHECKPOINT \<longrightarrow> meta j1 k = meta j k)"
    by (cases found) (simp_all add: drop_named_record_frame)
  have keys: "NONCE_FLOOR_KEY \<noteq> cp_key FINALIZED_CHECKPOINT" "SWEEP_ATTEMPT_KEY \<noteq> cp_key FINALIZED_CHECKPOINT"
    "LAST_RECOVERY_KEY \<noteq> NONCE_FLOOR_KEY" "LAST_RECOVERY_KEY \<noteq> SWEEP_ATTEMPT_KEY"
    by (simp_all add: NONCE_FLOOR_KEY_def SWEEP_ATTEMPT_KEY_def FINALIZED_CHECKPOINT_def LAST_RECOVERY_KEY_def)
  have "\<not> is_parked t" if "t \<in> set (unpark ts)" for t ts
  proof -
    from that obtain q where "t = (if is_parked q then q\<lparr>tx_state := drop 7 (tx_state q)\<rparr> else q)"
      unfolding unpark_def in_upd_where_iff by blast
    then show ?thesis by (auto simp: is_parked_def)
  qed
  then have "parked_lanes j' = 0" by (simp add: parked_lanes_def j')
  moreover have "recorded_mismatch j' = Inr None"
    by (simp add: recorded_mismatch_def optR_def j' incident_key_others)
  ultimately show ?thesis
    using j1 keys by (simp add: finality_state_of_def j' floor_value_def incident_key_others)
qed

theorem cleared_incident_is_over_witness:
  "\<exists>j'. clear_finality_incident (JObj []) sample_signed = Inr j' \<and> finality_state_of sample_keccak j' = Inr Clear"
proof -
  have "\<exists>j'. clear_finality_incident (JObj []) sample_signed = Inr j'"
    by (simp add: clear_finality_incident_def recorded_mismatch_def optR_def sample_defs)
  then obtain j' where a: "clear_finality_incident (JObj []) sample_signed = Inr j'" ..
  show ?thesis using a cleared_incident_is_over [OF a, of sample_keccak] by simp
qed

end
