(* ===== verification/Program.thy ===== *)
theory Program
  imports Store
begin

text \<open>
  Code that runs several statements outside one transaction. Such a piece of code is a function from
  its state to its result, or an error, and the state: what was done before an error stays. A
  transaction is one step of it, which an error leaves without effect. The state is the journal for
  the code that has no other (\<open>prog\<close>), and the worker for the steps of a tick.
\<close>

type_synonym ('s, 'a) program = "'s \<Rightarrow> (error + 'a) \<times> 's"

type_synonym 'a prog = "(journal, 'a) program"

definition pureP :: "'a \<Rightarrow> ('s, 'a) program" where
  "pureP a j = (Inr a, j)"

definition failP :: "error \<Rightarrow> ('s, 'a) program" where
  "failP e j = (Inl e, j)"

definition bindP :: "('s, 'a) program \<Rightarrow> ('a \<Rightarrow> ('s, 'b) program) \<Rightarrow> ('s, 'b) program" where
  "bindP m f j = (case m j of (Inl e, j') \<Rightarrow> (Inl e, j') | (Inr a, j') \<Rightarrow> f a j')"

text \<open>A read; a transaction; a transaction with a result; a statement that cannot fail; a value that
  may be an error.\<close>

definition readP :: "('s \<Rightarrow> 'a) \<Rightarrow> ('s, 'a) program" where
  "readP r j = (Inr (r j), j)"

definition readRP :: "('s \<Rightarrow> error + 'a) \<Rightarrow> ('s, 'a) program" where
  "readRP r j = (r j, j)"

definition txP :: "('s \<Rightarrow> error + 's) \<Rightarrow> ('s, unit) program" where
  "txP t j = (case t j of Inl e \<Rightarrow> (Inl e, j) | Inr j' \<Rightarrow> (Inr (), j'))"

definition txvP :: "('s \<Rightarrow> error + 'a \<times> 's) \<Rightarrow> ('s, 'a) program" where
  "txvP t j = (case t j of Inl e \<Rightarrow> (Inl e, j) | Inr (a, j') \<Rightarrow> (Inr a, j'))"

definition execP :: "('s \<Rightarrow> 's) \<Rightarrow> ('s, unit) program" where
  "execP f j = (Inr (), f j)"

definition liftP :: "error + 'a \<Rightarrow> ('s, 'a) program" where
  "liftP r j = (r, j)"

text \<open>The outcome of a program as a value: what \<open>match\<close> on its result sees.\<close>

definition tryP :: "('s, 'a) program \<Rightarrow> ('s, error + 'a) program" where
  "tryP p s = (Inr (fst (p s)), snd (p s))"

text \<open>A program run over the elements of a list in turn.\<close>

primrec eachP :: "('a \<Rightarrow> ('s, unit) program) \<Rightarrow> 'a list \<Rightarrow> ('s, unit) program" where
  "eachP f [] = pureP ()"
| "eachP f (x # xs) = bindP (f x) (\<lambda>_. eachP f xs)"

primrec mapP :: "('a \<Rightarrow> ('s, 'b) program) \<Rightarrow> 'a list \<Rightarrow> ('s, 'b list) program" where
  "mapP f [] = pureP []"
| "mapP f (x # xs) = bindP (f x) (\<lambda>y. bindP (mapP f xs) (\<lambda>ys. pureP (y # ys)))"

lemmas prog_defs = pureP_def failP_def bindP_def readP_def readRP_def txP_def txvP_def execP_def liftP_def

lemma bindP_Inr_iff:
  "bindP m f j = (Inr b, j') \<longleftrightarrow> (\<exists>a j1. m j = (Inr a, j1) \<and> f a j1 = (Inr b, j'))"
  by (auto simp: bindP_def split: prod.splits sum.splits)

lemma prog_Inr_iff:
  "pureP a j = (Inr b, j') \<longleftrightarrow> b = a \<and> j' = j"
  "failP e j \<noteq> (Inr b, j')"
  "readP r j = (Inr c, j') \<longleftrightarrow> c = r j \<and> j' = j"
  "readRP q j = (Inr d, j') \<longleftrightarrow> q j = Inr d \<and> j' = j"
  "txP t j = (Inr u, j') \<longleftrightarrow> t j = Inr j'"
  "txvP tv j = (Inr v, j') \<longleftrightarrow> tv j = Inr (v, j')"
  "execP f j = (Inr u, j') \<longleftrightarrow> j' = f j"
  "liftP s j = (Inr w, j') \<longleftrightarrow> s = Inr w \<and> j' = j"
  by (auto simp: prog_defs split: sum.splits)

section \<open>What a program keeps\<close>

text \<open>The program keeps the invariant, whether it ends with a result or an error.\<close>

definition keeps :: "('s \<Rightarrow> bool) \<Rightarrow> ('s, 'a) program \<Rightarrow> bool" where
  "keeps I p = (\<forall>j. I j \<longrightarrow> I (snd (p j)))"

named_theorems keeping

lemma keepsD: "keeps I p \<Longrightarrow> I j \<Longrightarrow> I (snd (p j))"
  by (simp add: keeps_def)

lemma keeps_bindP [keeping, intro]:
  assumes "keeps I m" and "\<And>a. keeps I (f a)"
  shows "keeps I (bindP m f)"
proof -
  have "I (snd (bindP m f j))" if "I j" for j
    using keepsD [OF assms(1) that] assms(2) by (auto simp: bindP_def keeps_def split: prod.splits sum.splits)
  then show ?thesis by (simp add: keeps_def)
qed

lemma keeps_reads [keeping, intro]:
  "keeps I (pureP a)" "keeps I (failP e)" "keeps I (readP r)" "keeps I (readRP q)" "keeps I (liftP s)"
  by (simp_all add: keeps_def prog_defs)

lemma keeps_txP [keeping]: "(\<And>j j'. I j \<Longrightarrow> t j = Inr j' \<Longrightarrow> I j') \<Longrightarrow> keeps I (txP t)"
  by (auto simp: keeps_def txP_def split: sum.splits)

lemma keeps_txvP [keeping]: "(\<And>j a j'. I j \<Longrightarrow> t j = Inr (a, j') \<Longrightarrow> I j') \<Longrightarrow> keeps I (txvP t)"
  by (auto simp: keeps_def txvP_def split: sum.splits)

lemma keeps_execP [keeping]: "(\<And>j. I j \<Longrightarrow> I (f j)) \<Longrightarrow> keeps I (execP f)"
  by (simp add: keeps_def execP_def)

lemma keeps_tryP [keeping, intro]: "keeps I p \<Longrightarrow> keeps I (tryP p)"
  by (simp add: keeps_def tryP_def)

lemma keeps_eachP [keeping, intro]: "(\<And>x. x \<in> set xs \<Longrightarrow> keeps I (f x)) \<Longrightarrow> keeps I (eachP f xs)"
  by (induction xs) auto

lemma keeps_mapP [keeping, intro]: "(\<And>x. x \<in> set xs \<Longrightarrow> keeps I (f x)) \<Longrightarrow> keeps I (mapP f xs)"
  by (induction xs) auto

section \<open>What a program does, step by step\<close>

text \<open>From a state with \<open>P\<close> the program runs through steps of \<open>R\<close>, and a result leaves \<open>Q\<close>.\<close>

definition does :: "('s \<Rightarrow> 's \<Rightarrow> bool) \<Rightarrow> ('s \<Rightarrow> bool) \<Rightarrow> ('s, 'a) program \<Rightarrow> ('a \<Rightarrow> 's \<Rightarrow> bool) \<Rightarrow> bool" where
  "does R P p Q = (\<forall>s. P s \<longrightarrow> rtranclp R s (snd (p s)) \<and> (\<forall>a. fst (p s) = Inr a \<longrightarrow> Q a (snd (p s))))"

named_theorems doing

lemma doesI:
  "(\<And>s. P s \<Longrightarrow> rtranclp R s (snd (p s)) \<and> (\<forall>a. fst (p s) = Inr a \<longrightarrow> Q a (snd (p s)))) \<Longrightarrow> does R P p Q"
  by (simp add: does_def)

lemma doesD:
  assumes "does R P p Q" and "P s"
  shows "rtranclp R s (snd (p s))" "fst (p s) = Inr a \<Longrightarrow> Q a (snd (p s))"
  using assms by (auto simp: does_def)

lemma does_bindP:
  assumes m: "does R P m Q" and f: "\<And>a. does R (Q a) (f a) S"
  shows "does R P (bindP m f) S"
proof (rule doesI)
  fix s assume P: "P s"
  obtain r t where mt: "m s = (r, t)" by (cases "m s")
  have st: "rtranclp R s t" using doesD(1) [OF m P] mt by simp
  show "rtranclp R s (snd (bindP m f s)) \<and> (\<forall>a. fst (bindP m f s) = Inr a \<longrightarrow> S a (snd (bindP m f s)))"
  proof (cases r)
    case (Inl e)
    then show ?thesis using mt st by (simp add: bindP_def)
  next
    case (Inr a)
    then have Q: "Q a t" using doesD(2) [OF m P, of a] mt by simp
    show ?thesis
      using Inr mt rtranclp_trans [OF st doesD(1) [OF f Q]] doesD(2) [OF f Q] by (simp add: bindP_def)
  qed
qed

lemma does_weaken:
  "does R P p Q \<Longrightarrow> (\<And>s. P' s \<Longrightarrow> P s) \<Longrightarrow> (\<And>a s. Q a s \<Longrightarrow> Q' a s) \<Longrightarrow> does R P' p Q'"
  by (simp add: does_def)

lemma does_pureP [doing]: "(\<And>s. P s \<Longrightarrow> Q a s) \<Longrightarrow> does R P (pureP a) Q"
  by (simp add: does_def pureP_def)

lemma does_failP [doing]: "does R P (failP e) Q"
  by (simp add: does_def failP_def)

lemma does_readP [doing]: "(\<And>s. P s \<Longrightarrow> Q (r s) s) \<Longrightarrow> does R P (readP r) Q"
  by (simp add: does_def readP_def)

lemma does_readRP [doing]: "(\<And>s a. P s \<Longrightarrow> r s = Inr a \<Longrightarrow> Q a s) \<Longrightarrow> does R P (readRP r) Q"
  by (simp add: does_def readRP_def)

lemma does_liftP [doing]: "(\<And>s a. P s \<Longrightarrow> x = Inr a \<Longrightarrow> Q a s) \<Longrightarrow> does R P (liftP x) Q"
  by (simp add: does_def liftP_def)

lemma does_execP: "(\<And>s. P s \<Longrightarrow> R s (f s) \<and> Q () (f s)) \<Longrightarrow> does R P (execP f) Q"
  by (auto simp: does_def execP_def)

lemma does_if [doing]:
  "(c \<Longrightarrow> does R P p Q) \<Longrightarrow> (\<not> c \<Longrightarrow> does R P q Q) \<Longrightarrow> does R P (if c then p else q) Q"
  by simp

lemma does_option [doing]:
  "(x = None \<Longrightarrow> does R P p Q) \<Longrightarrow> (\<And>a. x = Some a \<Longrightarrow> does R P (f a) Q) \<Longrightarrow>
   does R P (case x of None \<Rightarrow> p | Some a \<Rightarrow> f a) Q"
  by (cases x) auto

lemma does_pair [doing]: "(\<And>a b. x = (a, b) \<Longrightarrow> does R P (f a b) Q) \<Longrightarrow> does R P (case x of (a, b) \<Rightarrow> f a b) Q"
  by (cases x) auto

lemma does_invariant:
  assumes "does R P p Q" and "\<And>s t. R s t \<Longrightarrow> I s \<Longrightarrow> I t"
  shows "does R (\<lambda>s. I s \<and> P s) p (\<lambda>a s. I s \<and> Q a s)"
proof -
  have "I t" if "rtranclp R s t" "I s" for s t
    using that by (induction rule: rtranclp_induct) (auto intro: assms(2))
  then show ?thesis using assms(1) by (auto simp: does_def)
qed

section \<open>The meta table as text\<close>

definition meta_text :: "string \<Rightarrow> journal \<Rightarrow> string option" where
  "meta_text k j = map_option mval_text (meta j k)"

lemma meta_text_put [simp]:
  "q \<noteq> ''audit:dropped'' \<Longrightarrow> meta_text q (meta_put k v j) = (if q = k then Some (mval_text v) else meta_text q j)"
  by (simp add: meta_text_def)

lemma meta_text_delete [simp]:
  "meta_text q (meta_delete P j) = (if P q then None else meta_text q j)"
  by (simp add: meta_text_def)

end
