(* ===== verification/Health.thy ===== *)
theory Health
  imports Incident Program
begin

text \<open>
  The keeper's health observation (\<open>health.rs\<close>): the evidence of work that does not get done, kept in
  \<open>meta\<close> under keys of its own, the assessment of it into the list of faults, and the status
  that \<open>health\<close> and the watchdog read.
\<close>

record status =
  st_observed_at :: nat
  send_enabled :: bool
  healthy :: bool
  faults :: "string list"
  st_role :: "string option"
  primary_alive :: "bool option"

definition HEALTH_STATUS :: string where "HEALTH_STATUS = ''health:status''"
definition HEALTH_REJECTION :: string where "HEALTH_REJECTION = ''health:rejection''"
definition UNAUTHORIZED :: string where "UNAUTHORIZED = ''health:unauthorized''"
definition UNSUPPORTED_RECIPE :: string where "UNSUPPORTED_RECIPE = ''health:unsupported_recipe''"
definition AUDIT_STALLED :: string where "AUDIT_STALLED = ''health:finality_audit_stalled''"
definition ROUND_UNAVAILABLE :: string where "ROUND_UNAVAILABLE = ''health:round_unavailable''"
definition ROUND_RPC_ERROR :: string where "ROUND_RPC_ERROR = ''health:round_rpc_error''"
definition CLOCK_BEHIND :: string where "CLOCK_BEHIND = ''health:clock_behind''"
definition KEEPER_ROLE :: string where "KEEPER_ROLE = ''keeper:role''"
definition PRIMARY_ALIVE :: string where "PRIMARY_ALIVE = ''keeper:primary_alive''"
definition PREPARING :: string where "PREPARING = ''health:preparing:''"
definition LEGACY_PREPARATION :: string where "LEGACY_PREPARATION = ''health:blocked:preparation''"
definition PREPARED_AT :: string where "PREPARED_AT = ''health:prepared_at''"
definition BLOCKED :: string where "BLOCKED = ''health:blocked:''"
definition EXPIRED_PREPARATION_EVIDENCE_SECONDS :: nat where
  "EXPIRED_PREPARATION_EVIDENCE_SECONDS = 15 * 60"

section \<open>The status as the journal keeps it\<close>

definition json_bool :: "json \<Rightarrow> bool option" where
  "json_bool v = (case v of JBool b \<Rightarrow> Some b | _ \<Rightarrow> None)"

text \<open>An optional field: absent, null, or a value that decodes.\<close>

definition field_opt :: "(json \<Rightarrow> 'a option) \<Rightarrow> string \<Rightarrow> json \<Rightarrow> 'a option option" where
  "field_opt dec k v = (case json_field k v of
      None \<Rightarrow> Some None
    | Some JNull \<Rightarrow> Some None
    | Some x \<Rightarrow> map_option Some (dec x))"

definition json_strings :: "json \<Rightarrow> string list option" where
  "json_strings v = (case v of JArr xs \<Rightarrow> those (map json_str xs) | _ \<Rightarrow> None)"

definition encode_status :: "status \<Rightarrow> json" where
  "encode_status s =
     JObj ([(''observed_at'', JNum (int (st_observed_at s))), (''send_enabled'', JBool (send_enabled s)),
            (''healthy'', JBool (healthy s)), (''faults'', JArr (map JStr (faults s)))]
       @ (case st_role s of None \<Rightarrow> [] | Some r \<Rightarrow> [(''role'', JStr r)])
       @ (case primary_alive s of None \<Rightarrow> [] | Some b \<Rightarrow> [(''primary_alive'', JBool b)]))"

definition decode_status :: "json \<Rightarrow> status option" where
  "decode_status v =
     Option.bind (field_nat ''observed_at'' v) (\<lambda>o'.
     Option.bind (Option.bind (json_field ''send_enabled'' v) json_bool) (\<lambda>s.
     Option.bind (Option.bind (json_field ''healthy'' v) json_bool) (\<lambda>h.
     Option.bind (Option.bind (json_field ''faults'' v) json_strings) (\<lambda>f.
     Option.bind (field_opt json_str ''role'' v) (\<lambda>r.
     Option.bind (field_opt json_bool ''primary_alive'' v) (\<lambda>p.
       Some \<lparr>st_observed_at = o', send_enabled = s, healthy = h, faults = f, st_role = r,
             primary_alive = p\<rparr>))))))"

definition stored_status :: "journal \<Rightarrow> error + status option" where
  "stored_status j =
     optR (\<lambda>v. ok_or MalformedJson (Option.bind (as_json v) decode_status)) (meta j HEALTH_STATUS)"

definition primary_alive_of :: "journal \<Rightarrow> bool option" where
  "primary_alive_of j = map_option (\<lambda>t. t = ''true'') (meta_text PRIMARY_ALIVE j)"

section \<open>The evidence of preparation\<close>

definition preparing_key :: "string \<Rightarrow> string" where
  "preparing_key i = PREPARING @ i"

definition preparation_waiting :: "string \<Rightarrow> nat \<Rightarrow> journal \<Rightarrow> journal" where
  "preparation_waiting i at j = fst (meta_insert (preparing_key i) (Text (show_nat at)) j)"

definition preparation_progress :: "string \<Rightarrow> nat \<Rightarrow> journal \<Rightarrow> journal" where
  "preparation_progress i at j =
     meta_put PREPARED_AT (Text (show_nat at))
       (meta_delete (\<lambda>k. k = preparing_key i \<or> k = LEGACY_PREPARATION) j)"

text \<open>The rows of the evidence that stay: of a request that is open, or that expired unprepared after
  a wait of \<open>limit\<close>, not long ago and with no proof since. \<open>v\<close> is the value of the row.\<close>

definition evidence_kept :: "int \<Rightarrow> int \<Rightarrow> journal \<Rightarrow> mval \<Rightarrow> job \<Rightarrow> bool" where
  "evidence_kept at limit j v r =
     (job_call r = None
      \<and> ((job_state r = ''pending'' \<and> deadline r > at)
         \<or> (job_state r \<in> {''pending'', ''expired''} \<and> deadline r \<le> at
            \<and> at - deadline r \<le> int EXPIRED_PREPARATION_EVIDENCE_SECONDS
            \<and> deadline r - mval_int v \<ge> limit
            \<and> deadline r \<ge> (case meta j PREPARED_AT of None \<Rightarrow> 0 | Some p \<Rightarrow> mval_int p))))"

text \<open>\<open>key >= 'health:preparing:' AND key < 'health:preparing;'\<close>, and \<open>substr(key,18)\<close>.\<close>

definition in_preparing :: "string \<Rightarrow> bool" where
  "in_preparing k = (''health:preparing:'' \<le> k \<and> k < ''health:preparing;'')"

definition prune_evidence :: "int \<Rightarrow> int \<Rightarrow> journal \<Rightarrow> journal" where
  "prune_evidence at limit j =
     meta_delete (\<lambda>k. in_preparing k
        \<and> (case meta j k of
             None \<Rightarrow> False
           | Some v \<Rightarrow> \<not> list_ex (\<lambda>r. job_id r = drop 17 k \<and> evidence_kept at limit j v r) (jobs j))) j"

text \<open>The join of the evidence with the jobs, one row per job that has evidence.\<close>

definition evidence :: "journal \<Rightarrow> (mval \<times> job) list" where
  "evidence j = concat (map (\<lambda>r. case meta j (preparing_key (job_id r)) of
                                  None \<Rightarrow> [] | Some v \<Rightarrow> [(v, r)]) (jobs j))"

definition parse_i64 :: "string \<Rightarrow> int option" where
  "parse_i64 s = (case s of
      c # ds \<Rightarrow> if c = CHR ''-''
                then (if ds \<noteq> [] \<and> list_all is_digit ds \<and> - int (digits_value ds) \<ge> i64_min
                      then Some (- int (digits_value ds)) else None)
                else map_option int (parse_uint (nat i64_max) s)
    | [] \<Rightarrow> None)"

definition preparation_stalled :: "nat \<Rightarrow> nat \<Rightarrow> journal \<Rightarrow> error + bool \<times> journal" where
  "preparation_stalled at' limit' j =
     bindR (i64_try TryFromInt at') (\<lambda>at.
     bindR (i64_try TryFromInt limit') (\<lambda>limit.
       let j1 = prune_evidence at limit j;
           rows = evidence j1;
           stalled = list_ex (\<lambda>(v, r). deadline r \<le> at \<or> at - mval_int v \<ge> limit) rows;
           waiting = list_ex (\<lambda>(v, r). deadline r > at) rows
       in case meta_text LEGACY_PREPARATION j1 of
            None \<Rightarrow> Inr (stalled, j1)
          | Some started \<Rightarrow>
              if \<not> waiting then Inr (stalled, meta_delete (\<lambda>k. k = LEGACY_PREPARATION) j1)
              else bindR (ok_or ParseInt (parse_i64 started)) (\<lambda>s.
                     Inr (stalled \<or> i64_sat_sub at s \<ge> limit, j1))))"

section \<open>Observations\<close>

definition blocked_key :: "string \<Rightarrow> string" where
  "blocked_key stage = BLOCKED @ stage"

definition blocked :: "string \<Rightarrow> nat \<Rightarrow> journal \<Rightarrow> journal" where
  "blocked stage at j = fst (meta_insert (blocked_key stage) (Text (show_nat at)) j)"

definition recovered :: "string \<Rightarrow> journal \<Rightarrow> journal" where
  "recovered stage j = meta_delete (\<lambda>k. k = blocked_key stage) j"

definition unauthorized :: "string \<Rightarrow> journal \<Rightarrow> journal" where
  "unauthorized reason j = meta_put UNAUTHORIZED (Text reason) j"

definition authorized :: "journal \<Rightarrow> journal" where
  "authorized j = meta_delete (\<lambda>k. k = UNAUTHORIZED) j"

definition unsupported_recipe :: "nat \<Rightarrow> journal \<Rightarrow> journal" where
  "unsupported_recipe recipe j = meta_put UNSUPPORTED_RECIPE (Text (show_nat recipe)) j"

definition supported_recipe :: "journal \<Rightarrow> journal" where
  "supported_recipe j = meta_delete (\<lambda>k. k = UNSUPPORTED_RECIPE) j"

definition finality_audit_stalled :: "nat \<Rightarrow> journal \<Rightarrow> journal" where
  "finality_audit_stalled oldest j = meta_put AUDIT_STALLED (Text (show_nat oldest)) j"

definition finality_audit_current :: "journal \<Rightarrow> journal" where
  "finality_audit_current j = meta_delete (\<lambda>k. k = AUDIT_STALLED) j"

definition rejection :: "string \<Rightarrow> journal \<Rightarrow> journal" where
  "rejection reason j = meta_put HEALTH_REJECTION (Text reason) j"

definition clear_rejection :: "journal \<Rightarrow> journal" where
  "clear_rejection j = meta_delete (\<lambda>k. k = HEALTH_REJECTION) j"

section \<open>The assessment\<close>

definition marker_fault :: "string \<Rightarrow> string \<Rightarrow> journal \<Rightarrow> string list" where
  "marker_fault k fault j = (if meta j k \<noteq> None then [fault] else [])"

definition reason_fault :: "string \<Rightarrow> string \<Rightarrow> journal \<Rightarrow> string list" where
  "reason_fault k fault j = (case meta_text k j of None \<Rightarrow> [] | Some r \<Rightarrow> [fault @ r])"

definition standing_faults :: "journal \<Rightarrow> error + string list" where
  "standing_faults j =
     bindR (recorded_mismatch j) (\<lambda>found. Inr (
       (if found \<noteq> None then [''finality_mismatch'']
        else if meta j SUSPECTED_KEY \<noteq> None then [''finality_unconfirmed''] else [])
       @ reason_fault UNAUTHORIZED ''wallet_unauthorized:'' j
       @ reason_fault UNSUPPORTED_RECIPE ''epoch_recipe_unsupported:'' j
       @ marker_fault AUDIT_STALLED ''finality_audit_stalled'' j
       @ marker_fault ROUND_UNAVAILABLE ''round_unavailable'' j
       @ marker_fault ROUND_RPC_ERROR ''round_rpc_error'' j
       @ marker_fault CLOCK_BEHIND ''clock_behind'' j))"

definition STAGES :: "(string \<times> string) list" where
  "STAGES = [(''settlement'', ''settlement_stalled''), (''fee_budget'', ''fee_budget_exceeded''),
             (''epoch'', ''epoch_stalled'')]"

definition stage_faults :: "nat \<Rightarrow> nat \<Rightarrow> journal \<Rightarrow> error + string list" where
  "stage_faults at progress_limit j =
     bindR (mapR (\<lambda>(stage, fault). case meta_text (blocked_key stage) j of
              None \<Rightarrow> Inr []
            | Some started \<Rightarrow> bindR (ok_or ParseInt (parse_uint u64_max started)) (\<lambda>s.
                Inr (if progress_limit \<le> sat_sub at s then [fault] else []))) STAGES)
       (\<lambda>fs. Inr (concat fs))"

definition lane_faults :: "nat \<Rightarrow> int \<times> nat \<Rightarrow> nat \<Rightarrow> journal \<Rightarrow> string list" where
  "lane_faults at lane lane_limit j =
     (if lane_limit \<le> sat_sub at (snd lane) then [''nonce_stalled:'' @ show_int (fst lane)] else [])
     @ reason_fault HEALTH_REJECTION ''node_rejected:'' j"

definition assess :: "bool \<Rightarrow> nat \<Rightarrow> nat \<Rightarrow> (int \<times> nat) option \<Rightarrow> nat \<Rightarrow> status prog" where
  "assess send at progress_limit lane lane_limit =
     bindP (readRP standing_faults) (\<lambda>standing.
     bindP (txvP (preparation_stalled at progress_limit)) (\<lambda>preparation.
     bindP (if send then readRP (stage_faults at progress_limit) else pureP []) (\<lambda>stages.
     bindP (case lane of
              Some l \<Rightarrow> readP (lane_faults at l lane_limit)
            | None \<Rightarrow> bindP (execP clear_rejection) (\<lambda>_. pureP [])) (\<lambda>lanes.
     bindP (readP (\<lambda>j.
        let fs = standing @ (if send \<and> preparation then [''preparation_stalled''] else []) @ stages @ lanes
        in \<lparr>st_observed_at = at, send_enabled = send, healthy = (fs = []), faults = fs,
            st_role = meta_text KEEPER_ROLE j, primary_alive = primary_alive_of j\<rparr>)) (\<lambda>s.
     bindP (readRP stored_status) (\<lambda>previous.
     bindP (execP (meta_put HEALTH_STATUS (Json (encode_status s)))) (\<lambda>_. pureP s)))))))"

section \<open>The readers\<close>

definition read_status :: "journal \<Rightarrow> error + status" where
  "read_status j =
     bindR (stored_status j) (\<lambda>s. ok_or (Bail ''No health observation recorded yet'') s)"

definition check_freshness :: "nat \<Rightarrow> nat \<Rightarrow> status \<Rightarrow> status" where
  "check_freshness at max_age s =
     (let fault = (if st_observed_at s > at then Some ''observation_clock_anomaly''
                   else if at - st_observed_at s > max_age then Some ''observation_stale'' else None)
      in case fault of None \<Rightarrow> s | Some f \<Rightarrow> s\<lparr>healthy := False, faults := faults s @ [f]\<rparr>)"

definition require_healthy :: "status \<Rightarrow> error + unit" where
  "require_healthy s = ensure (healthy s) (Bail (''Keeper unhealthy: '' @ join '', '' (faults s))) (Inr ())"

text \<open>\<open>mark\<close>, with which a tick that could not run leaves an unhealthy observation.\<close>

definition mark_fault :: "bool \<Rightarrow> nat \<Rightarrow> string \<Rightarrow> unit prog" where
  "mark_fault send now fault =
     bindP (readRP stored_status) (\<lambda>saved.
     bindP (readP (\<lambda>j. case saved of
              Some s \<Rightarrow> s
            | None \<Rightarrow> \<lparr>st_observed_at = now, send_enabled = send, healthy = False, faults = [],
                       st_role = meta_text KEEPER_ROLE j, primary_alive = primary_alive_of j\<rparr>)) (\<lambda>s.
       execP (meta_put HEALTH_STATUS (Json (encode_status
         (s\<lparr>st_observed_at := now, healthy := False,
            faults := (if fault \<in> set (faults s) then faults s else faults s @ [fault])\<rparr>))))))"

definition tick_failed :: "bool \<Rightarrow> nat \<Rightarrow> unit prog" where
  "tick_failed send now = mark_fault send now ''tick_failed''"

definition rate_limited :: "bool \<Rightarrow> nat \<Rightarrow> unit prog" where
  "rate_limited send now = mark_fault send now ''rpc_rate_limited''"

definition rpc_unavailable :: "bool \<Rightarrow> nat \<Rightarrow> unit prog" where
  "rpc_unavailable send now = mark_fault send now ''rpc_unavailable''"

lemmas health_keys = HEALTH_STATUS_def HEALTH_REJECTION_def UNAUTHORIZED_def UNSUPPORTED_RECIPE_def
  AUDIT_STALLED_def ROUND_UNAVAILABLE_def ROUND_RPC_ERROR_def CLOCK_BEHIND_def KEEPER_ROLE_def
  PRIMARY_ALIVE_def LEGACY_PREPARATION_def PREPARED_AT_def

section \<open>The status reads back\<close>

lemma json_field_status:
  "json_field ''observed_at'' (encode_status s) = Some (JNum (int (st_observed_at s)))"
  "json_field ''send_enabled'' (encode_status s) = Some (JBool (send_enabled s))"
  "json_field ''healthy'' (encode_status s) = Some (JBool (healthy s))"
  "json_field ''faults'' (encode_status s) = Some (JArr (map JStr (faults s)))"
  "json_field ''role'' (encode_status s) = map_option JStr (st_role s)"
  "json_field ''primary_alive'' (encode_status s) = map_option JBool (primary_alive s)"
  by (simp_all add: encode_status_def map_of_append split: option.splits)

lemma those_json_str [simp]: "those (map json_str (map JStr xs)) = Some xs"
  by (induction xs) simp_all

lemma decode_encode_status [simp]: "decode_status (encode_status s) = Some s"
proof -
  have "json_strings (JArr (map JStr (faults s))) = Some (faults s)"
    using those_json_str [of "faults s"] by (simp add: json_strings_def)
  moreover have "field_opt json_str ''role'' (encode_status s) = Some (st_role s)"
    by (cases "st_role s") (simp_all add: field_opt_def json_field_status)
  moreover have "field_opt json_bool ''primary_alive'' (encode_status s) = Some (primary_alive s)"
    by (cases "primary_alive s") (simp_all add: field_opt_def json_field_status json_bool_def)
  ultimately show ?thesis
    by (simp add: decode_status_def field_nat_def json_field_status json_bool_def)
qed

lemma HEALTH_STATUS_not_dropped [simp]: "HEALTH_STATUS \<noteq> ''audit:dropped''"
  by (simp add: HEALTH_STATUS_def)

lemma stored_status_put [simp]:
  "stored_status (meta_put HEALTH_STATUS (Json (encode_status s)) j) = Inr (Some s)"
  by (simp add: stored_status_def optR_def ok_or_def)

section \<open>The evidence\<close>

lemma less_append_cancel: "(p @ x < p @ y) = (x < (y::string))"
  by (induction p) simp_all

lemma le_append_cancel: "(p @ x \<le> p @ y) = (x \<le> (y::string))"
  by (induction p) simp_all

lemma between_successors:
  assumes "of_char d = Suc (of_char c)"
  shows "p @ [c] \<le> k \<and> k < p @ [d] \<longleftrightarrow> (\<exists>x. k = p @ c # x)"
proof -
  have next': "c \<le> e \<and> e < d \<longleftrightarrow> e = c" for e
  proof
    assume "c \<le> e \<and> e < d"
    then have "of_char c \<le> (of_char e :: nat)" "of_char e \<le> (of_char c :: nat)"
      using assms by (simp_all add: less_eq_char_def less_char_def)
    from le_antisym [OF this] show "e = c" by simp
  qed (use assms in \<open>simp add: less_eq_char_def less_char_def\<close>)
  show ?thesis
  proof (induction p arbitrary: k)
    case Nil
    then show ?case using next' by (cases k) (auto simp: less_le)
  next
    case (Cons a p)
    show ?case
    proof (cases k)
      case (Cons e ks)
      show ?thesis using Cons.IH [of ks] unfolding Cons by auto
    qed simp
  qed
qed

lemma in_preparing_iff: "in_preparing k \<longleftrightarrow> (\<exists>i. k = preparing_key i)"
proof -
  have "of_char CHR '';'' = Suc (of_char CHR '':'')" by simp
  from between_successors [OF this, of "''health:preparing''" k]
  show ?thesis by (simp add: in_preparing_def preparing_key_def PREPARING_def)
qed

lemma drop_preparing_key [simp]: "drop 17 (preparing_key i) = i"
  by (simp add: preparing_key_def PREPARING_def)

lemma preparing_key_inject [simp]: "preparing_key i = preparing_key k \<longleftrightarrow> i = k"
  by (simp add: preparing_key_def)

lemma in_preparing_key [simp]: "in_preparing (preparing_key i)"
  by (auto simp: in_preparing_iff)

lemma not_in_preparing:
  "\<not> in_preparing LEGACY_PREPARATION" "\<not> in_preparing PREPARED_AT"
  by (simp_all add: in_preparing_def LEGACY_PREPARATION_def PREPARED_AT_def less_eq_char_def less_char_def)

lemma prune_evidence_frame [simp]:
  "jobs (prune_evidence at limit j) = jobs j" "txs (prune_evidence at limit j) = txs j"
  "\<not> in_preparing k \<Longrightarrow> meta (prune_evidence at limit j) k = meta j k"
  by (simp_all add: prune_evidence_def)

lemma evidence_pruned:
  assumes "jobs_ok j" and "r \<in> set (jobs j)"
  shows "meta (prune_evidence at limit j) (preparing_key (job_id r)) = Some v
    \<longleftrightarrow> meta j (preparing_key (job_id r)) = Some v \<and> evidence_kept at limit j v r"
proof -
  have "list_ex (\<lambda>q. job_id q = job_id r \<and> P q) (jobs j) \<longleftrightarrow> P r" for P
    using assms by (auto simp: list_ex_iff jobs_ok_def distinct_map inj_on_def)
  then show ?thesis by (auto simp: prune_evidence_def split: option.splits)
qed

lemma in_evidence:
  "(v, r) \<in> set (evidence j) \<longleftrightarrow> r \<in> set (jobs j) \<and> meta j (preparing_key (job_id r)) = Some v"
  by (auto simp: evidence_def split: option.splits)

lemma stalled_pruned:
  assumes "jobs_ok j"
  shows "list_ex P (evidence (prune_evidence at limit j))
    \<longleftrightarrow> (\<exists>r \<in> set (jobs j). \<exists>v. meta j (preparing_key (job_id r)) = Some v
           \<and> evidence_kept at limit j v r \<and> P (v, r))"
proof -
  have "list_ex P xs \<longleftrightarrow> (\<exists>r v. (v, r) \<in> set xs \<and> P (v, r))" for xs :: "(mval \<times> job) list"
    by (auto simp: list_ex_iff)
  then show ?thesis using evidence_pruned [OF assms] by (simp add: in_evidence) blast
qed


definition health_sample :: journal where
  "health_sample = blank_journal\<lparr>jobs := [new_job ''7'' 500],
     meta := [preparing_key ''7'' \<mapsto> Text ''100'']\<rparr>"


section \<open>What an observation says\<close>

lemma standing_faults_Nil:
  assumes "standing_faults j = Inr []"
  shows "recorded_mismatch j = Inr None \<and> meta j SUSPECTED_KEY = None \<and> meta j UNAUTHORIZED = None
    \<and> meta j UNSUPPORTED_RECIPE = None \<and> meta j AUDIT_STALLED = None \<and> meta j ROUND_UNAVAILABLE = None
    \<and> meta j ROUND_RPC_ERROR = None \<and> meta j CLOCK_BEHIND = None"
proof -
  from assms obtain found where f: "recorded_mismatch j = Inr found" "found = None"
    by (auto simp: standing_faults_def bindR_Inr_iff split: if_splits)
  then show ?thesis
    using assms
    by (simp add: standing_faults_def marker_fault_def reason_fault_def meta_text_def
        split: if_splits option.splits)
qed

lemma preparation_stalled_frame:
  assumes "preparation_stalled at limit j = Inr (b, j')"
  shows "jobs j' = jobs j \<and> txs j' = txs j \<and> soft_marks j' = soft_marks j
    \<and> (\<forall>k. \<not> in_preparing k \<longrightarrow> k \<noteq> LEGACY_PREPARATION \<longrightarrow> meta j' k = meta j k)"
proof -
  from assms have "j' = prune_evidence (int at) (int limit) j
      \<or> j' = meta_delete (\<lambda>k. k = LEGACY_PREPARATION) (prune_evidence (int at) (int limit) j)"
    unfolding preparation_stalled_def
    by (auto simp: bindR_Inr_iff i64_try_def Let_def split: option.splits if_splits)
  then show ?thesis by (auto simp: prune_evidence_def)
qed

text \<open>The steps of an assessment that returned.\<close>

lemma assessE:
  assumes "assess send at limit lane lane_limit j = (Inr s, j')"
  obtains standing prep j1 stages j2 lanes where
    "standing_faults j = Inr standing"
    "preparation_stalled at limit j = Inr (prep, j1)"
    "if send then stage_faults at limit j1 = Inr stages else stages = []"
    "(case lane of Some l \<Rightarrow> lanes = lane_faults at l lane_limit j1 \<and> j2 = j1
                 | None \<Rightarrow> lanes = [] \<and> j2 = clear_rejection j1)"
    "faults s = standing @ (if send \<and> prep then [''preparation_stalled''] else []) @ stages @ lanes"
    "healthy s = (faults s = [])" "st_observed_at s = at" "send_enabled s = send"
    "j' = meta_put HEALTH_STATUS (Json (encode_status s)) j2"
proof -
  from assms obtain standing prep j1 stages j2 lanes where
    a: "standing_faults j = Inr standing" "preparation_stalled at limit j = Inr (prep, j1)"
    and b: "(if send then readRP (stage_faults at limit) else pureP []) j1 = (Inr stages, j1)"
    and c: "(case lane of Some l \<Rightarrow> readP (lane_faults at l lane_limit)
            | None \<Rightarrow> bindP (execP clear_rejection) (\<lambda>_. pureP [])) j1 = (Inr lanes, j2)"
    and d: "s = (let fs = standing @ (if send \<and> prep then [''preparation_stalled''] else []) @ stages @ lanes
        in \<lparr>st_observed_at = at, send_enabled = send, healthy = (fs = []), faults = fs,
            st_role = meta_text KEEPER_ROLE j2, primary_alive = primary_alive_of j2\<rparr>)"
    and e: "j' = meta_put HEALTH_STATUS (Json (encode_status s)) j2"
    unfolding assess_def bindP_Inr_iff prog_Inr_iff
    by (cases send; cases lane) (auto simp: prog_Inr_iff bindP_Inr_iff)
  show thesis
  proof (rule that [OF a])
    show "if send then stage_faults at limit j1 = Inr stages else stages = []"
      using b by (simp add: prog_Inr_iff split: if_splits)
    show "case lane of Some l \<Rightarrow> lanes = lane_faults at l lane_limit j1 \<and> j2 = j1
                 | None \<Rightarrow> lanes = [] \<and> j2 = clear_rejection j1"
      using c by (simp add: prog_Inr_iff bindP_Inr_iff split: option.splits)
  qed (use d e in \<open>simp_all add: Let_def\<close>)
qed

lemma health_keys_apart:
  "HEALTH_STATUS \<noteq> MISMATCH_KEY" "HEALTH_STATUS \<noteq> NONCE_FLOOR_KEY" "HEALTH_REJECTION \<noteq> MISMATCH_KEY"
  "HEALTH_REJECTION \<noteq> NONCE_FLOOR_KEY" "LEGACY_PREPARATION \<noteq> MISMATCH_KEY"
  "LEGACY_PREPARATION \<noteq> NONCE_FLOOR_KEY" "MISMATCH_KEY \<noteq> ''audit:dropped''"
  "\<not> in_preparing MISMATCH_KEY" "\<not> in_preparing NONCE_FLOOR_KEY"
  by (simp_all add: health_keys MISMATCH_KEY_def NONCE_FLOOR_KEY_def in_preparing_def less_char_def less_eq_char_def)



text \<open>The watchdog accepts only a fresh, healthy observation. It accepts an observation exactly when it
  is healthy and neither from the future nor older than the age it allows; and after a tick that could
  not run has left its fault, whatever faults there were are still there and it accepts none, at any
  time and for any age.\<close>

theorem watchdog_accepts:
  "(require_healthy (check_freshness at max_age s) = Inr ()
      \<longleftrightarrow> healthy s \<and> st_observed_at s \<le> at \<and> at \<le> st_observed_at s + max_age)
   \<and> (mark_fault send now fault j = (Inr (), j') \<longrightarrow>
        (\<exists>s'. read_status j' = Inr s' \<and> fault \<in> set (faults s') \<and> st_observed_at s' = now
           \<and> (\<forall>q f. read_status j = Inr q \<longrightarrow> f \<in> set (faults q) \<longrightarrow> f \<in> set (faults s'))
           \<and> (\<forall>t m. require_healthy (check_freshness t m s') \<noteq> Inr ())))"
proof -
  have ok: "require_healthy (check_freshness t m q) = Inr ()
      \<longleftrightarrow> healthy q \<and> st_observed_at q \<le> t \<and> t \<le> st_observed_at q + m" for t m q
    by (auto simp: require_healthy_def check_freshness_def ensure_def Let_def)
  have "\<exists>s'. read_status j' = Inr s' \<and> fault \<in> set (faults s') \<and> st_observed_at s' = now
           \<and> (\<forall>q f. read_status j = Inr q \<longrightarrow> f \<in> set (faults q) \<longrightarrow> f \<in> set (faults s'))
           \<and> (\<forall>t m. require_healthy (check_freshness t m s') \<noteq> Inr ())"
    if "mark_fault send now fault j = (Inr (), j')"
  proof -
    from that obtain saved s0 where saved: "stored_status j = Inr saved"
      and s0: "s0 = (case saved of Some q \<Rightarrow> q
            | None \<Rightarrow> \<lparr>st_observed_at = now, send_enabled = send, healthy = False, faults = [],
                       st_role = meta_text KEEPER_ROLE j, primary_alive = primary_alive_of j\<rparr>)"
      and j': "j' = meta_put HEALTH_STATUS (Json (encode_status
         (s0\<lparr>st_observed_at := now, healthy := False,
            faults := (if fault \<in> set (faults s0) then faults s0 else faults s0 @ [fault])\<rparr>))) j"
      unfolding mark_fault_def bindP_Inr_iff prog_Inr_iff by blast
    have "faults q = faults s0" if "read_status j = Inr q" for q
      using that saved s0 by (auto simp: read_status_def ok_or_def split: option.splits)
    then show ?thesis by (auto simp: j' read_status_def ok_or_def ok)
  qed
  with ok show ?thesis by blast
qed

theorem watchdog_accepts_witness:
  "\<exists>j' s'. tick_failed True 9 blank_journal = (Inr (), j') \<and> read_status j' = Inr s'
     \<and> ''tick_failed'' \<in> set (faults s')"
proof -
  have "\<exists>j'. mark_fault True 9 ''tick_failed'' blank_journal = (Inr (), j')"
    by (simp add: mark_fault_def prog_defs stored_status_def optR_def blank_journal_def)
  then obtain j' where a: "mark_fault True 9 ''tick_failed'' blank_journal = (Inr (), j')" ..
  note watchdog_accepts [of 0 0 undefined True 9 "''tick_failed''" blank_journal j', THEN conjunct2, THEN mp, OF a]
  then show ?thesis using a by (auto simp: tick_failed_def)
qed

end
