(* ===== verification/Finality.thy ===== *)
theory Finality
  imports Health
begin

text \<open>
  The audit of soft finality (\<open>finality.rs\<close>): what the endpoints say of a block, the verdict on a
  block one of them shows with another hash, the blocks an audit may make final, the audit itself
  and the operator's two commands. What the endpoints answer is an argument of the definitions; a
  block hash is its text, as \<open>B256\<close> prints it.
\<close>

record head =
  hd_number :: nat
  hd_timestamp :: nat

record block_view =
  vw_endpoint :: nat
  vw_hash :: string
  vw_finalized :: "nat option"

definition AUDIT_BLOCKS :: nat where "AUDIT_BLOCKS = 64"
definition STATUS_MARKS :: nat where "STATUS_MARKS = 500"
definition FINALIZED_MIN_AGE_SECONDS :: nat where "FINALIZED_MIN_AGE_SECONDS = 600"
definition ABSENT :: string where "ABSENT = ''0x'' @ replicate 64 (CHR ''0'')"

section \<open>The blocks an audit may make final\<close>

definition final_bound :: "head \<Rightarrow> head list \<Rightarrow> nat \<Rightarrow> nat" where
  "final_bound first views now =
     (let heads = first # views in
      case sql_max (map hd_number (filter (\<lambda>h. sat_add (hd_timestamp h) FINALIZED_MIN_AGE_SECONDS \<le> now) heads)) of
        Some n \<Rightarrow> n
      | None \<Rightarrow> (case sql_min (map hd_number heads) of Some n \<Rightarrow> n | None \<Rightarrow> hd_number first))"

section \<open>The verdict of the endpoints on a block\<close>

datatype verdict =
    Changed string nat "nat list"
  | Unchanged nat "nat list"
  | Unresolved

definition same_hash :: "string \<Rightarrow> block_view \<Rightarrow> bool" where
  "same_hash expected' v = eq_ignore_ascii_case (vw_hash v) expected'"

text \<open>The other hashes in their order, each with how many endpoints show it.\<close>

definition others :: "string \<Rightarrow> block_view list \<Rightarrow> (string \<times> nat) list" where
  "others expected' views =
     (let hs = map vw_hash (filter (\<lambda>v. \<not> same_hash expected' v) views)
      in map (\<lambda>h. (h, count_list hs h)) (sort (remdups hs)))"

definition odd_endpoints :: "(block_view \<Rightarrow> bool) \<Rightarrow> block_view list \<Rightarrow> nat list" where
  "odd_endpoints kept views = map vw_endpoint (filter (\<lambda>v. \<not> kept v) views)"

definition verdict :: "string \<Rightarrow> block_view list \<Rightarrow> verdict" where
  "verdict expected' views =
     (let agreeing = count_where (same_hash expected') views;
          os = others expected' views;
          best = sql_max (map (\<lambda>(h, c). (c, h)) os);
          tied = (case best of None \<Rightarrow> False | Some (c, _) \<Rightarrow> count_where (\<lambda>(_, d). d = c) os > 1);
          unchanged = (if agreeing \<ge> 1 \<and> (case best of None \<Rightarrow> True | Some (c, _) \<Rightarrow> c < agreeing)
                       then Unchanged agreeing (odd_endpoints (same_hash expected') views) else Unresolved)
      in case best of
           Some (c, h) \<Rightarrow> if c \<ge> 2 \<and> c > agreeing \<and> \<not> tied
                          then Changed h c (odd_endpoints (\<lambda>v. vw_hash v = h) views) else unchanged
         | None \<Rightarrow> unchanged)"

definition verify :: "block_view list \<Rightarrow> string \<Rightarrow> bool \<Rightarrow> block_view list \<times> verdict" where
  "verify answers expected' absent =
     (let views = (if absent then answers else filter (\<lambda>v. vw_hash v \<noteq> ABSENT) answers)
      in (views, verdict expected' views))"

section \<open>The audit\<close>

text \<open>What the endpoints answer to the reads of one audit.\<close>

record audit_reads =
  rd_finalized :: "error + head"
  rd_admitted :: nat
  rd_heads :: "head list"
  rd_hashes :: "nat list \<Rightarrow> error + string list"
  rd_hash_views :: "nat list \<Rightarrow> string list list"
  rd_in_time :: bool

definition audit_sets :: "audit_reads \<Rightarrow> nat \<Rightarrow> journal \<Rightarrow> error + nat list \<times> string list list" where
  "audit_sets rd now j =
     bindR (rd_finalized rd) (\<lambda>fin.
     bindR (mark_numbers (hd_number fin) AUDIT_BLOCKS j) (\<lambda>numbers.
       if numbers = [] then Inr ([], [])
       else if rd_admitted rd < 2 then bindR (rd_hashes rd numbers) (\<lambda>hs. Inr (numbers, [hs]))
       else
         let kept = filter (\<lambda>n. n \<le> final_bound fin (rd_heads rd) now) numbers in
         if kept = [] then Inr ([], [])
         else if rd_hash_views rd kept = [] then bindR (rd_hashes rd kept) (\<lambda>hs. Inr (kept, [hs]))
         else Inr (kept, rd_hash_views rd kept)))"

definition differs :: "nat list \<Rightarrow> mark list \<Rightarrow> string list \<Rightarrow> bool" where
  "differs numbers marks hashes =
     list_ex (\<lambda>(n, h). list_ex (\<lambda>m. mk_number m = n \<and> \<not> eq_ignore_ascii_case (mk_hash m) h) marks)
       (zip numbers hashes)"

definition audit_compare :: "nat \<Rightarrow> nat list \<Rightarrow> string list list \<Rightarrow> audit option prog" where
  "audit_compare now numbers sets =
     (if numbers = [] then pureP (Some Idle)
      else if list_all (\<lambda>s. s = hd sets) sets
      then bindP (txvP (audit_marks (zip numbers (hd sets)) now)) (\<lambda>a. pureP (Some a))
      else bindP (readRP (marks_between (hd numbers) (last numbers))) (\<lambda>marks.
             case find (differs numbers marks) sets of
               None \<Rightarrow> pureP None
             | Some other \<Rightarrow> bindP (txvP (audit_marks (zip numbers other) now)) (\<lambda>a. pureP (Some a))))"

definition audit :: "audit_reads \<Rightarrow> nat \<Rightarrow> audit option prog" where
  "audit rd now =
     bindP (readRP recorded_mismatch) (\<lambda>found.
       case found of
         Some m \<Rightarrow> pureP (Some (Stopped m))
       | None \<Rightarrow>
           if \<not> rd_in_time rd then pureP None
           else bindP (readRP (audit_sets rd now)) (\<lambda>(numbers, sets). audit_compare now numbers sets))"

definition observe_lag :: "nat \<Rightarrow> nat \<Rightarrow> bool prog" where
  "observe_lag max_lag_seconds now =
     bindP (readRP oldest_mark_created) (\<lambda>oldest.
       case oldest of
         Some o' \<Rightarrow> if sat_sub now o' > max_lag_seconds
                    then bindP (execP (finality_audit_stalled o')) (\<lambda>_. pureP True)
                    else bindP (execP finality_audit_current) (\<lambda>_. pureP False)
       | None \<Rightarrow> bindP (execP finality_audit_current) (\<lambda>_. pureP False))"

section \<open>The operator's commands\<close>

definition initialized :: "journal \<Rightarrow> error + unit" where
  "initialized j = ensure (meta j ''scope'' \<noteq> None) (Bail ''Not an initialized keeper journal'') (Inr ())"

definition printed :: "(string \<Rightarrow> string) \<Rightarrow> mismatch \<Rightarrow> json" where
  "printed keccak_hex m = JObj [(''id'', JStr (mismatch_id keccak_hex m)), (''kind'', JStr (mm_kind m)),
     (''block'', JNum (int (mm_number m))), (''reference'', JStr (mm_ref m)),
     (''recorded_hash'', JStr (expected m)), (''chain_hash'', JStr (actual m)),
     (''detected_at'', JNum (int (detected_at m)))]"

text \<open>\<open>by_kind\<close>, which keeps the order in which the kinds were first seen.\<close>

fun count_kind :: "string \<Rightarrow> (string \<times> nat) list \<Rightarrow> (string \<times> nat) list" where
  "count_kind k [] = [(k, 1)]"
| "count_kind k ((k', n) # rest) = (if k' = k then (k', n + 1) # rest else (k', n) # count_kind k rest)"

definition by_kind :: "mark list \<Rightarrow> (string \<times> nat) list" where
  "by_kind marks = fold (\<lambda>m. count_kind (kind_name (mk_kind m))) marks []"

definition listed_mark :: "mark \<Rightarrow> json" where
  "listed_mark m = JObj [(''kind'', JStr (kind_name (mk_kind m))), (''block'', JNum (int (mk_number m))),
     (''hash'', JStr (mk_hash m)), (''reference'', JStr (mk_ref m)),
     (''status'', case mk_status m of None \<Rightarrow> JNull | Some s \<Rightarrow> JNum (int s)),
     (''created'', JNum (int (mk_created m)))]"

definition json_option :: "('a \<Rightarrow> json) \<Rightarrow> 'a option \<Rightarrow> json" where
  "json_option f x = (case x of None \<Rightarrow> JNull | Some a \<Rightarrow> f a)"

definition saved_json :: "string \<Rightarrow> journal \<Rightarrow> json" where
  "saved_json k j = json_option (\<lambda>t. t) (Option.bind (meta j k) as_json)"

definition NEXT_CLEAR :: string where
  "NEXT_CLEAR = ''No mismatch is on record or suspected; the keeper is not holding its sends.''"

definition NEXT_SUSPECTED :: string where
  "NEXT_SUSPECTED = ''One endpoint shows another block than the journal's and no second endpoint has confirmed it: the keeper sends nothing and asks the endpoints again by itself. Nothing is required. With a single RPC endpoint, add a second provider to RPC_URLS. If you are sure the chain changed, `finality --acknowledge <id>` with the id above makes the keeper recover from it at its next tick.''"

definition NEXT_RECOVERING :: string where
  "NEXT_RECOVERING = ''The endpoints agree that the chain changed. The keeper is recovering by itself: it takes the chain as it is now, settles the nonces and jobs again, and clears the record. It sends nothing new meanwhile. Nothing is required.''"

definition standing :: "finality_state \<Rightarrow> suspected option
    \<Rightarrow> string \<times> mismatch option \<times> suspected option \<times> acknowledgement option \<times> string" where
  "standing fs note = (case fs of
      Clear \<Rightarrow> (case note of
          None \<Rightarrow> (''clear'', None, None, None, NEXT_CLEAR)
        | Some noted \<Rightarrow> (''suspected'', Some (sp_mismatch noted), Some noted, None, NEXT_SUSPECTED))
    | Recovering found a \<Rightarrow> (''recovering'', Some found, None, a, NEXT_RECOVERING))"

definition suspected_json :: "suspected \<Rightarrow> json" where
  "suspected_json s = JObj [(''checks'', JNum (int (checks s))), (''endpoints'', JNum (int (endpoints s))),
     (''answered'', JNum (int (answered s)))]"

definition marks_json :: "mark list \<Rightarrow> json" where
  "marks_json marks = JObj [
     (''count'', JNum (int (length marks))),
     (''by_kind'', JObj (map (\<lambda>(k, n). (k, JNum (int n))) (by_kind marks))),
     (''listed'', JNum (int (length (take STATUS_MARKS marks)))),
     (''marks'', JArr (map listed_mark (take STATUS_MARKS marks)))]"

definition finality_status :: "(string \<Rightarrow> string) \<Rightarrow> journal \<Rightarrow> error + json" where
  "finality_status keccak_hex j =
     bindR (initialized j) (\<lambda>_.
     bindR (if soft_marks j = None then Inr [] else soft_marks_read j) (\<lambda>marks.
     bindR (finality_state_of keccak_hex j) (\<lambda>fs.
     bindR (nonce_floor j) (\<lambda>floor.
       let (state, mm, susp, ack, next) = standing fs (suspicion_note j)
       in Inr (JObj [
            (''state'', JStr state),
            (''mismatch'', json_option (printed keccak_hex) mm),
            (''suspected'', json_option suspected_json susp),
            (''acknowledged'', json_option encode_ack ack),
            (''next'', JStr next),
            (''confirmed'', saved_json ''finality:recovery:confirmed'' j),
            (''recovery'', saved_json ''finality:recovery:stats'' j),
            (''last_recovery'', saved_json LAST_RECOVERY_KEY j),
            (''nonce_floor'', JNum (int floor)),
            (''unaudited_marks'', marks_json marks)])))))"

definition ACKNOWLEDGED_NOTE :: string where
  "ACKNOWLEDGED_NOTE = ''The keeper recovers from the mismatch by itself: it takes the chain as it is now, broadcasts the signed bytes of a transaction the chain no longer has (or fills its nonce with a transfer to itself), reads the jobs again, and clears the record. Follow it with `finality --status` and `health`.''"

definition acknowledge :: "(string \<Rightarrow> string) \<Rightarrow> string \<Rightarrow> nat \<Rightarrow> journal \<Rightarrow> error + json \<times> journal" where
  "acknowledge keccak_hex given now j =
     bindR (initialized j) (\<lambda>_.
     bindR (acknowledge_finality keccak_hex given now j) (\<lambda>(ack, j').
       Inr (JObj [(''acknowledged'', JStr (ack_id ack)), (''acknowledged_at'', JNum (int (acknowledged_at ack))),
                  (''note'', JStr ACKNOWLEDGED_NOTE)], j')))"

section \<open>What a verdict means\<close>

definition shown :: "string \<Rightarrow> block_view list \<Rightarrow> nat" where
  "shown h views = count_where (\<lambda>v. vw_hash v = h) views"

lemma in_others:
  "(h, c) \<in> set (others e views) \<longleftrightarrow> \<not> eq_ignore_ascii_case h e \<and> c = shown h views \<and> 0 < c"
proof -
  have count: "count_list (map vw_hash (filter (\<lambda>v. \<not> same_hash e v) views)) h = shown h views"
    if "\<not> eq_ignore_ascii_case h e"
    using that by (induction views) (auto simp: shown_def count_where_def same_hash_def)
  have mem: "h \<in> vw_hash ` set views \<longleftrightarrow> 0 < shown h views"
    by (auto simp: shown_def count_where_def filter_empty_conv)
  show ?thesis
    using count mem by (auto simp: others_def Let_def same_hash_def image_iff)
qed

lemma distinct_others: "distinct (map fst (others e views))"
  by (simp add: others_def Let_def comp_def)

lemma count_where_one:
  assumes "distinct (map fst os)" and "(h, c) \<in> set os"
  shows "count_where (\<lambda>(_, d). d = c) os > 1 \<longleftrightarrow> (\<exists>h'. h' \<noteq> h \<and> (h', c) \<in> set os)"
proof -
  let ?xs = "filter (\<lambda>(_, d). d = c) os"
  have d: "distinct ?xs" using assms(1) by (simp add: distinct_map)
  have len: "length ?xs = card (set ?xs)" using distinct_card [OF d] by simp
  have mem: "(h, c) \<in> set ?xs" using assms(2) by simp
  have "card (set ?xs) > 1 \<longleftrightarrow> (\<exists>x \<in> set ?xs. x \<noteq> (h, c))"
  proof
    assume "card (set ?xs) > 1"
    then have "\<not> set ?xs \<subseteq> {(h, c)}" using card_mono [of "{(h, c)}" "set ?xs"] by auto
    then show "\<exists>x \<in> set ?xs. x \<noteq> (h, c)" by blast
  next
    assume "\<exists>x \<in> set ?xs. x \<noteq> (h, c)"
    then obtain x where "x \<in> set ?xs" "x \<noteq> (h, c)" by blast
    then have "card {x, (h, c)} \<le> card (set ?xs)" using mem by (intro card_mono) auto
    then show "card (set ?xs) > 1" using \<open>x \<noteq> (h, c)\<close> by simp
  qed
  also have "\<dots> \<longleftrightarrow> (\<exists>h'. h' \<noteq> h \<and> (h', c) \<in> set os)" by auto
  finally show ?thesis by (simp add: count_where_def len)
qed

text \<open>The endpoints' best other hash is the only one at its count and above every other.\<close>

lemma best_other:
  assumes best: "sql_max (map (\<lambda>(h, c). (c, h)) (others e views)) = Some (c, h)"
  shows "(h, c) \<in> set (others e views)" and "\<And>h' c'. (h', c') \<in> set (others e views) \<Longrightarrow> c' \<le> c"
  using sql_max_Some [OF best] by (force simp: less_eq_prod_def)+

lemma verdict_cases:
  obtains (none) "others e views = []" and "verdict e views =
      (if 1 \<le> count_where (same_hash e) views
       then Unchanged (count_where (same_hash e) views) (odd_endpoints (same_hash e) views) else Unresolved)"
  | (best) c h where "(h, c) \<in> set (others e views)"
      and "\<And>h' c'. (h', c') \<in> set (others e views) \<Longrightarrow> c' \<le> c"
      and "verdict e views =
        (if 2 \<le> c \<and> count_where (same_hash e) views < c \<and> (\<forall>h'. h' \<noteq> h \<longrightarrow> (h', c) \<notin> set (others e views))
         then Changed h c (odd_endpoints (\<lambda>v. vw_hash v = h) views)
         else if c < count_where (same_hash e) views
         then Unchanged (count_where (same_hash e) views) (odd_endpoints (same_hash e) views) else Unresolved)"
proof (cases "sql_max (map (\<lambda>(h, c). (c, h)) (others e views))")
  case None
  then have os: "others e views = []" by simp
  show thesis by (rule none [OF os]) (simp add: verdict_def Let_def os sql_max_def)
next
  case (Some b)
  obtain c h where b: "b = (c, h)" by (cases b)
  note best' = best_other [OF Some [unfolded b]]
  have tied: "Suc 0 < count_where (\<lambda>(_, d). d = c) (others e views)
      \<longleftrightarrow> \<not> (\<forall>h'. h' \<noteq> h \<longrightarrow> (h', c) \<notin> set (others e views))"
    using count_where_one [OF distinct_others best'(1)] by auto
  show thesis
    by (rule best [OF best']) (auto simp: verdict_def Let_def Some b tied)
qed

lemma shown_others: "\<not> eq_ignore_ascii_case h e \<Longrightarrow> shown h views = 0 \<or> (h, shown h views) \<in> set (others e views)"
  by (auto simp: in_others)

lemma verdict_iff:
  "(verdict e views = Changed h c aside \<longleftrightarrow>
      \<not> eq_ignore_ascii_case h e \<and> c = shown h views \<and> 2 \<le> c \<and> count_where (same_hash e) views < c
      \<and> (\<forall>h'. h' \<noteq> h \<longrightarrow> \<not> eq_ignore_ascii_case h' e \<longrightarrow> shown h' views < c)
      \<and> aside = map vw_endpoint (filter (\<lambda>v. vw_hash v \<noteq> h) views))
   \<and> (verdict e views = Unchanged a aside \<longleftrightarrow>
      a = count_where (same_hash e) views \<and> 1 \<le> a
      \<and> (\<forall>h'. \<not> eq_ignore_ascii_case h' e \<longrightarrow> shown h' views < a)
      \<and> aside = map vw_endpoint (filter (\<lambda>v. \<not> same_hash e v) views))"
  (is "(_ \<longleftrightarrow> ?changed) \<and> (_ \<longleftrightarrow> ?unchanged)")
proof (cases rule: verdict_cases [of e views])
  case none
  have "shown h' views = 0" if "\<not> eq_ignore_ascii_case h' e" for h'
    using shown_others [OF that, of views] none(1) by simp
  then show ?thesis using none(2) by (auto simp: odd_endpoints_def)
next
  case (best c' h1)
  have h1: "\<not> eq_ignore_ascii_case h1 e" "c' = shown h1 views" "0 < c'"
    using best(1) by (simp_all add: in_others)
  have le: "shown h' views \<le> c'" if "\<not> eq_ignore_ascii_case h' e" for h'
    using shown_others [OF that, of views] best(2) by auto
  have strict: "(\<forall>h'. h' \<noteq> h1 \<longrightarrow> (h', c') \<notin> set (others e views))
      \<longleftrightarrow> (\<forall>h'. h' \<noteq> h1 \<longrightarrow> \<not> eq_ignore_ascii_case h' e \<longrightarrow> shown h' views < c')"
  proof -
    have "(h', c') \<notin> set (others e views) \<longleftrightarrow> (\<not> eq_ignore_ascii_case h' e \<longrightarrow> shown h' views < c')" for h'
      using h1(3) le [of h'] by (cases "eq_ignore_ascii_case h' e") (simp_all add: in_others, linarith)
    then show ?thesis by simp
  qed
  have only: "h = h1" if "\<not> eq_ignore_ascii_case h e"
      "\<forall>h'. h' \<noteq> h \<longrightarrow> \<not> eq_ignore_ascii_case h' e \<longrightarrow> shown h' views < shown h views"
  proof (rule ccontr)
    assume "h \<noteq> h1"
    then have "shown h1 views < shown h views" using that(2) [rule_format, of h1] h1(1) by simp
    then show False using le [OF that(1)] h1(2) by simp
  qed
  have un: "c' < n \<longleftrightarrow> (\<forall>h'. \<not> eq_ignore_ascii_case h' e \<longrightarrow> shown h' views < n)" for n
  proof
    assume "c' < n"
    then show "\<forall>h'. \<not> eq_ignore_ascii_case h' e \<longrightarrow> shown h' views < n"
      by (intro allI impI) (rule le_less_trans [OF le])
  qed (use h1 in simp)
  show ?thesis
  proof
    show "verdict e views = Changed h c aside \<longleftrightarrow> ?changed"
    proof
      assume "verdict e views = Changed h c aside"
      then show ?changed
        unfolding best(3) strict using h1 by (auto simp: odd_endpoints_def split: if_splits)
    next
      assume ?changed
      moreover from this have "h = h1" by (intro only) auto
      ultimately show "verdict e views = Changed h c aside"
        unfolding best(3) strict using h1 by (auto simp: odd_endpoints_def)
    qed
    show "verdict e views = Unchanged a aside \<longleftrightarrow> ?unchanged"
    proof
      assume "verdict e views = Unchanged a aside"
      then have a: "a = count_where (same_hash e) views" and lt: "c' < count_where (same_hash e) views"
        and "aside = map vw_endpoint (filter (\<lambda>v. \<not> same_hash e v) views)"
        unfolding best(3) by (auto simp: odd_endpoints_def split: if_splits)
      then show ?unchanged unfolding un [of a, folded a, symmetric] by simp
    next
      assume u: ?unchanged
      then have "c' < count_where (same_hash e) views" using un by blast
      with u show "verdict e views = Unchanged a aside"
        unfolding best(3) by (auto simp: odd_endpoints_def)
    qed
  qed
qed

text \<open>C11: The verdict is the majority of the endpoints, and never one endpoint's word. It is that the chain
  changed to a hash exactly when at least two endpoints show that hash, more than show the
  journal's, and more than show any other one; that the journal's block stands exactly when an endpoint
  shows it and more do than show any other hash; and the endpoints it sets aside are exactly those
  that showed something else. Otherwise it is left unresolved.\<close>

theorem verdict_majority:
  "(verdict e views = Changed h c aside \<longleftrightarrow>
      \<not> eq_ignore_ascii_case h e \<and> c = shown h views \<and> 2 \<le> c \<and> count_where (same_hash e) views < c
      \<and> (\<forall>h'. h' \<noteq> h \<longrightarrow> \<not> eq_ignore_ascii_case h' e \<longrightarrow> shown h' views < c)
      \<and> aside = map vw_endpoint (filter (\<lambda>v. vw_hash v \<noteq> h) views))
   \<and> (verdict e views = Unchanged a aside \<longleftrightarrow>
      a = count_where (same_hash e) views \<and> 1 \<le> a
      \<and> (\<forall>h'. \<not> eq_ignore_ascii_case h' e \<longrightarrow> shown h' views < a)
      \<and> aside = map vw_endpoint (filter (\<lambda>v. \<not> same_hash e v) views))"
  by (rule verdict_iff)

theorem verdict_majority_witness:
  "verdict ''aa'' [\<lparr>vw_endpoint = 0, vw_hash = ''AA'', vw_finalized = None\<rparr>,
     \<lparr>vw_endpoint = 1, vw_hash = ''bb'', vw_finalized = Some 9\<rparr>,
     \<lparr>vw_endpoint = 2, vw_hash = ''bb'', vw_finalized = None\<rparr>] = Changed ''bb'' 2 [0]"
proof -
  have "\<not> eq_ignore_ascii_case ''bb'' ''aa''" "eq_ignore_ascii_case ''AA'' ''aa''" by code_simp+
  then show ?thesis
    using verdict_majority [of "''aa''" "[\<lparr>vw_endpoint = 0, vw_hash = ''AA'', vw_finalized = None\<rparr>,
     \<lparr>vw_endpoint = 1, vw_hash = ''bb'', vw_finalized = Some 9\<rparr>,
     \<lparr>vw_endpoint = 2, vw_hash = ''bb'', vw_finalized = None\<rparr>]" "''bb''" 2 "[0]"]
    by (auto simp: shown_def same_hash_def)
qed

section \<open>The bound of an audit\<close>

text \<open>C12: One endpoint alone does not decide what is final. The bound is the height of one of the heads
  that were answered; when one of them has stood for the minimum age it is at least as high as every
  head that has, and of such a head itself; and when none has, it is no higher than any of them.\<close>

theorem final_bound_aged:
  "\<exists>h \<in> set (first # views). final_bound first views now = hd_number h
     \<and> (if \<exists>a \<in> set (first # views). sat_add (hd_timestamp a) FINALIZED_MIN_AGE_SECONDS \<le> now
        then sat_add (hd_timestamp h) FINALIZED_MIN_AGE_SECONDS \<le> now
          \<and> (\<forall>a \<in> set (first # views). sat_add (hd_timestamp a) FINALIZED_MIN_AGE_SECONDS \<le> now
               \<longrightarrow> hd_number a \<le> hd_number h)
        else (\<forall>a \<in> set (first # views). hd_number h \<le> hd_number a))"
proof -
  let ?heads = "first # views"
  let ?aged = "filter (\<lambda>a. sat_add (hd_timestamp a) FINALIZED_MIN_AGE_SECONDS \<le> now) ?heads"
  show ?thesis
  proof (cases "sql_max (map hd_number ?aged)")
    case None
    then have none: "\<not> (\<exists>a \<in> set ?heads. sat_add (hd_timestamp a) FINALIZED_MIN_AGE_SECONDS \<le> now)"
      by (auto split: if_splits simp: filter_empty_conv)
    obtain m where m: "sql_min (map hd_number ?heads) = Some m" by (simp add: sql_min_def)
    from sql_min_Some [OF m] obtain h where h: "h \<in> set ?heads" "m = hd_number h"
      "\<forall>a \<in> set ?heads. hd_number h \<le> hd_number a" by auto
    have "final_bound first views now = hd_number h"
      using None m h(2) by (simp only: final_bound_def Let_def option.case)
    with h none show ?thesis by (intro bexI [of _ h]) simp_all
  next
    case (Some m)
    from sql_max_Some [OF Some] obtain h where h: "h \<in> set ?heads" "m = hd_number h"
      "sat_add (hd_timestamp h) FINALIZED_MIN_AGE_SECONDS \<le> now"
      "\<forall>a \<in> set ?heads. sat_add (hd_timestamp a) FINALIZED_MIN_AGE_SECONDS \<le> now \<longrightarrow> hd_number a \<le> hd_number h"
      by (auto split: if_splits)
    have "final_bound first views now = hd_number h"
      using Some h(2) by (simp only: final_bound_def Let_def option.case)
    with h show ?thesis by (intro bexI [of _ h]) auto
  qed
qed

theorem final_bound_aged_witness:
  "final_bound \<lparr>hd_number = 10, hd_timestamp = 100\<rparr>
     [\<lparr>hd_number = 20, hd_timestamp = 5000\<rparr>, \<lparr>hd_number = 9, hd_timestamp = 90\<rparr>] 1000 = 10"
  using final_bound_aged [of "\<lparr>hd_number = 10, hd_timestamp = 100\<rparr>"
      "[\<lparr>hd_number = 20, hd_timestamp = 5000\<rparr>, \<lparr>hd_number = 9, hd_timestamp = 90\<rparr>]" 1000]
  by (auto simp: sat_add_def u64_max_def FINALIZED_MIN_AGE_SECONDS_def)

section \<open>The audit makes final only what the endpoints agree on\<close>

lemma mapR_member:
  assumes "mapR f xs = Inr ys" and "y \<in> set ys"
  obtains x where "x \<in> set xs" and "f x = Inr y"
proof -
  from assms(2) obtain i where "i < length ys" "y = ys ! i" by (auto simp: in_set_conv_nth)
  then show thesis
    using mapR_Inr_nth [OF assms(1), of i] mapR_Inr_length [OF assms(1)] that [of "xs ! i"] by simp
qed

lemma marks_between_member:
  assumes "marks_between lo hi j = Inr marks" and "m \<in> set marks" and "soft_marks j = Some rows"
  shows "\<exists>r \<in> set rows. mr_number r = int (mk_number m) \<and> mr_hash r = mk_hash m"
proof -
  from assms(1,3) have "mapR mark_from_row (sort_key mark_key
      (filter (\<lambda>r. int lo \<le> mr_number r \<and> mr_number r \<le> int hi) rows)) = Inr marks"
    by (auto simp: marks_between_def bindR_Inr_iff i64_try_Inr_iff table_def ok_or_def)
  from mapR_member [OF this assms(2)] obtain r where r: "r \<in> set rows" "mark_from_row r = Inr m"
    by auto
  then show ?thesis by (auto simp: mark_from_row_def bindR_Inr_iff u64_try_Inr_iff)
qed

lemma audit_marks_disagree:
  assumes marks: "marks_between lo hi j = Inr marks" and rows: "soft_marks j = Some rows"
    and differs: "differs numbers marks hs"
    and audit: "audit_marks (zip numbers hs) now j = Inr (a, j')"
  shows "j' = j \<and> (\<forall>b r cp. a \<noteq> Audited b r cp)"
  using audit
proof (cases rule: audit_marks_cases)
  case (commit m ms rows')
  from differs obtain n h x where x: "(n, h) \<in> set (zip numbers hs)" "x \<in> set marks" "mk_number x = n"
    "\<not> eq_ignore_ascii_case (mk_hash x) h"
    by (auto simp: differs_def list_ex_iff)
  obtain r where "r \<in> set rows" "mr_number r = int (mk_number x)" "mr_hash r = mk_hash x"
    using marks_between_member [OF marks x(2) rows] by blast
  then have "eq_ignore_ascii_case (mk_hash x) h"
    using audit_read_Inr [OF commit(1) rows] x(1,3) by fastforce
  with x(4) show ?thesis by simp
qed simp_all

lemma audit_marks_audited:
  assumes "audit_marks canonical now j = Inr (a, j')" and rows: "soft_marks j = Some rows"
  shows "(\<forall>b r cp. a \<noteq> Audited b r cp) \<longrightarrow> j' = j"
    and "a = Audited b r cp \<Longrightarrow>
      (\<forall>c \<in> set canonical. \<forall>q \<in> set rows. mr_number q = int (fst c) \<longrightarrow> eq_ignore_ascii_case (mr_hash q) (snd c))
      \<and> soft_marks j' = Some (del_where (\<lambda>q. mr_number q \<in> (int \<circ> fst) ` set canonical) rows)
      \<and> txs j' = txs j \<and> jobs j' = jobs j"
proof -
  have "((\<forall>b r cp. a \<noteq> Audited b r cp) \<longrightarrow> j' = j) \<and> (a = Audited b r cp \<longrightarrow>
      (\<forall>c \<in> set canonical. \<forall>q \<in> set rows. mr_number q = int (fst c) \<longrightarrow> eq_ignore_ascii_case (mr_hash q) (snd c))
      \<and> soft_marks j' = Some (del_where (\<lambda>q. mr_number q \<in> (int \<circ> fst) ` set canonical) rows)
      \<and> txs j' = txs j \<and> jobs j' = jobs j)"
    using assms(1)
  proof (cases rule: audit_marks_cases)
    case (commit m ms rows')
    from commit(3) show ?thesis
    proof (cases rule: audit_commit_cases)
      case (conflict n h)
      then show ?thesis by simp
    next
      case (commit j1)
      note C = checkpoint_frame [OF commit(1)]
      have "soft_marks j1 = Some rows" using C rows by simp
      from delete_blocks_Inr [OF commit(2) this] C audit_read_Inr [OF \<open>audit_read _ _ _ = _\<close> rows]
      show ?thesis unfolding commit(3) by simp
    qed
  qed simp_all
  then show "(\<forall>b r cp. a \<noteq> Audited b r cp) \<longrightarrow> j' = j"
    "a = Audited b r cp \<Longrightarrow>
      (\<forall>c \<in> set canonical. \<forall>q \<in> set rows. mr_number q = int (fst c) \<longrightarrow> eq_ignore_ascii_case (mr_hash q) (snd c))
      \<and> soft_marks j' = Some (del_where (\<lambda>q. mr_number q \<in> (int \<circ> fst) ` set canonical) rows)
      \<and> txs j' = txs j \<and> jobs j' = jobs j" by blast+
qed

lemma audit_compare_unchanged:
  assumes "audit_compare now numbers sets j = (res, j')" and rows: "soft_marks j = Some rows"
  shows "(\<forall>b r cp. res \<noteq> Inr (Some (Audited b r cp))) \<longrightarrow> j' = j"
    and "res = Inr (Some (Audited b r cp)) \<Longrightarrow>
      numbers \<noteq> [] \<and> (\<forall>s \<in> set sets. s = hd sets)
      \<and> audit_marks (zip numbers (hd sets)) now j = Inr (Audited b r cp, j')"
proof -
  have "((\<forall>b r cp. res \<noteq> Inr (Some (Audited b r cp))) \<longrightarrow> j' = j) \<and> (res = Inr (Some (Audited b r cp)) \<longrightarrow>
      numbers \<noteq> [] \<and> (\<forall>s \<in> set sets. s = hd sets)
      \<and> audit_marks (zip numbers (hd sets)) now j = Inr (Audited b r cp, j'))"
  proof (cases "numbers = [] \<or> list_all (\<lambda>s. s = hd sets) sets")
    case True
    then show ?thesis
      using assms(1) audit_marks_audited(1) [OF _ rows]
      by (auto simp: audit_compare_def prog_defs list_all_iff split: if_splits sum.splits prod.splits)
  next
    case False
    show ?thesis
    proof (cases "marks_between (hd numbers) (last numbers) j")
      case (Inl e)
      then show ?thesis using assms(1) False by (auto simp: audit_compare_def prog_defs)
    next
      case (Inr marks)
      show ?thesis
      proof (cases "find (differs numbers marks) sets")
        case None
        then show ?thesis using assms(1) False Inr by (auto simp: audit_compare_def prog_defs)
      next
        case (Some other)
        then have d: "differs numbers marks other" by (auto simp: find_Some_iff)
        show ?thesis
        proof (cases "audit_marks (zip numbers other) now j")
          case (Inl e)
          then show ?thesis
            using assms(1) False \<open>marks_between _ _ _ = _\<close> Some by (auto simp: audit_compare_def prog_defs)
        next
          case (Inr p)
          obtain a j1 where p: "p = (a, j1)" by (cases p)
          note D = audit_marks_disagree [OF \<open>marks_between _ _ _ = _\<close> rows d Inr [unfolded p]]
          have "res = Inr (Some a)" "j' = j1"
            using assms(1) False \<open>marks_between _ _ _ = _\<close> Some Inr
            by (simp_all add: audit_compare_def prog_defs p)
          with D show ?thesis by blast
        qed
      qed
    qed
  qed
  then show "(\<forall>b r cp. res \<noteq> Inr (Some (Audited b r cp))) \<longrightarrow> j' = j"
    "res = Inr (Some (Audited b r cp)) \<Longrightarrow>
      numbers \<noteq> [] \<and> (\<forall>s \<in> set sets. s = hd sets)
      \<and> audit_marks (zip numbers (hd sets)) now j = Inr (Audited b r cp, j')" by blast+
qed

lemma audit_sets_Inr:
  assumes "audit_sets rd now j = Inr (numbers, sets)" and "numbers \<noteq> []"
  shows "\<exists>fin. rd_finalized rd = Inr fin
    \<and> (2 \<le> rd_admitted rd \<longrightarrow> (\<forall>n \<in> set numbers. n \<le> final_bound fin (rd_heads rd) now)
          \<and> (rd_hash_views rd numbers = [] \<or> sets = rd_hash_views rd numbers))"
  using assms by (auto simp: audit_sets_def bindR_Inr_iff Let_def split: if_splits)


definition sample_reads :: audit_reads where
  "sample_reads = \<lparr>rd_finalized = Inr \<lparr>hd_number = 10, hd_timestamp = 2\<rparr>, rd_admitted = 2,
     rd_heads = [\<lparr>hd_number = 8, hd_timestamp = 0\<rparr>], rd_hashes = (\<lambda>_. Inl RpcFailed),
     rd_hash_views = (\<lambda>_. [[''AA''], [''AA'']]), rd_in_time = True\<rparr>"


section \<open>The operator's word\<close>

lemma recorded_mismatch_None_iff: "recorded_mismatch j = Inr None \<longleftrightarrow> meta j MISMATCH_KEY = None"
  by (auto simp: recorded_mismatch_def optR_def ok_or_def bindR_Inr_iff split: option.splits)

lemma recorded_mismatch_cong: "meta j' MISMATCH_KEY = meta j MISMATCH_KEY \<Longrightarrow> recorded_mismatch j' = recorded_mismatch j"
  by (simp add: recorded_mismatch_def)

lemma recorded_note:
  assumes "meta j MISMATCH_KEY = None"
  shows "recorded_mismatch (clear_suspicion_note (fst (meta_insert MISMATCH_KEY (Json (encode_mismatch m)) j))) = Inr (Some m)"
  using assms by (simp add: recorded_mismatch_def optR_def meta_insert_def clear_suspicion_note_def incident_keys)

lemma acknowledged_mismatchE:
  assumes "acknowledged_mismatch keccak_hex i j = Inr (m, j1)"
  obtains (recorded) "recorded_mismatch j = Inr (Some m)" and "j1 = j"
  | (suspected) s where "recorded_mismatch j = Inr None" and "suspicion_note j = Some s" and "m = sp_mismatch s"
      and "j1 = clear_suspicion_note (fst (meta_insert MISMATCH_KEY (Json (encode_mismatch m)) j))"
proof -
  from assms obtain found where f: "recorded_mismatch j = Inr found"
    unfolding acknowledged_mismatch_def bindR_Inr_iff by blast
  show thesis
  proof (cases found)
    case None
    from assms obtain s where "suspicion_note j = Some s" "m = sp_mismatch s"
      "j1 = clear_suspicion_note (fst (meta_insert MISMATCH_KEY (Json (encode_mismatch m)) j))"
      unfolding acknowledged_mismatch_def f None bindR_simps option.case bindR_Inr_iff ensure_Inr_iff ok_or_Inr_iff
      by blast
    then show thesis using f None by (intro suspected) simp_all
  next
    case (Some m')
    then have "m = m'" "j1 = j" using assms f by (simp_all add: acknowledged_mismatch_def)
    then show thesis using f Some by (intro recorded) simp_all
  qed
qed

lemma acknowledged_mismatch_origin:
  assumes "acknowledged_mismatch keccak_hex i j = Inr (m, j1)"
  shows "recorded_mismatch j1 = Inr (Some m) \<and> txs j1 = txs j \<and> jobs j1 = jobs j
    \<and> (recorded_mismatch j = Inr (Some m)
       \<or> recorded_mismatch j = Inr None \<and> (\<exists>s. suspicion_note j = Some s \<and> m = sp_mismatch s)
           \<and> meta j1 SUSPECTED_KEY = None)"
  using assms
proof (cases rule: acknowledged_mismatchE)
  case recorded
  then show ?thesis by simp
next
  case (suspected s)
  have none: "meta j MISMATCH_KEY = None" using suspected(1) by (simp add: recorded_mismatch_None_iff)
  have "txs j1 = txs j" "jobs j1 = jobs j" "meta j1 SUSPECTED_KEY = None"
    unfolding suspected(4) by (simp_all add: clear_suspicion_note_def meta_insert_def)
  moreover have "recorded_mismatch j1 = Inr (Some m)"
    unfolding suspected(4) by (rule recorded_note [OF none])
  ultimately show ?thesis using suspected(1,2,3) by blast
qed

lemma stored_ack_put [simp]: "stored_ack (meta_put ACK_KEY (Json (encode_ack a)) j) = Some a"
  by (simp add: stored_ack_def incident_keys)

lemma recorded_mismatch_put_ack [simp]:
  "recorded_mismatch (meta_put ACK_KEY v j) = recorded_mismatch j"
  by (intro recorded_mismatch_cong) (simp add: incident_keys)

text \<open>C14: An operator's word names the incident. An acknowledgement is accepted only for the id of the
  mismatch on record, which it leaves as it is, or, when none is, of the suspected one, which it puts on
  record in place of the note. Afterwards the keeper is recovering from that mismatch, acknowledged under
  that id; a second acknowledgement returns the first and changes nothing; and no job and no attempt is
  touched.\<close>

theorem acknowledge_names_incident:
  assumes "acknowledge_finality keccak_hex given now j = Inr (a, j')"
  shows "\<exists>m. finality_state_of keccak_hex j' = Inr (Recovering m (Some a))
    \<and> ack_id a = mismatch_id keccak_hex m \<and> ack_id a = to_ascii_lowercase (trim given)
    \<and> (recorded_mismatch j = Inr (Some m)
       \<or> recorded_mismatch j = Inr None \<and> (\<exists>s. suspicion_note j = Some s \<and> m = sp_mismatch s)
           \<and> suspicion_note j' = None)
    \<and> acknowledge_finality keccak_hex given later j' = Inr (a, j')
    \<and> txs j' = txs j \<and> jobs j' = jobs j"
proof -
  let ?i = "to_ascii_lowercase (trim given)"
  from assms obtain p where p: "acknowledged_mismatch keccak_hex ?i j = Inr p"
    unfolding acknowledge_finality_def Let_def bindR_Inr_iff by blast
  obtain m j1 where mj: "p = (m, j1)" by (cases p)
  note m = p [unfolded mj]
  have i: "mismatch_id keccak_hex m = ?i"
    and a: "(case acknowledgement_of keccak_hex m j1 of
             Some a \<Rightarrow> Inr (a, j1)
           | None \<Rightarrow>
               (let a = \<lparr>ack_id = mismatch_id keccak_hex m, acknowledged_at = now\<rparr>
                in Inr (a, meta_put ACK_KEY (Json (encode_ack a)) j1))) = (Inr (a, j') :: error + acknowledgement \<times> journal)"
    using assms m by (simp_all add: acknowledge_finality_def ensure_Inr_iff)
  note O = acknowledged_mismatch_origin [OF m]
  then have rec1: "recorded_mismatch j1 = Inr (Some m)" and j1: "txs j1 = txs j" "jobs j1 = jobs j"
    and origin: "recorded_mismatch j = Inr (Some m)
       \<or> recorded_mismatch j = Inr None \<and> (\<exists>s. suspicion_note j = Some s \<and> m = sp_mismatch s)
           \<and> meta j1 SUSPECTED_KEY = None" by blast+
  have j': "acknowledgement_of keccak_hex m j' = Some a \<and> ack_id a = mismatch_id keccak_hex m
      \<and> recorded_mismatch j' = Inr (Some m) \<and> txs j' = txs j \<and> jobs j' = jobs j
      \<and> meta j' SUSPECTED_KEY = meta j1 SUSPECTED_KEY"
  proof (cases "acknowledgement_of keccak_hex m j1")
    case None
    have "SUSPECTED_KEY \<noteq> ACK_KEY" by (simp add: incident_keys)
    with None show ?thesis
      using a rec1 j1 by (auto simp: Let_def acknowledgement_of_def)
  next
    case (Some b)
    then have "ack_id b = mismatch_id keccak_hex m"
      by (auto simp: acknowledgement_of_def split: option.splits if_splits)
    then show ?thesis using a rec1 j1 Some by simp
  qed
  then have "acknowledge_finality keccak_hex given later j' = Inr (a, j')"
    using i by (simp add: acknowledge_finality_def acknowledged_mismatch_def)
  moreover have "finality_state_of keccak_hex j' = Inr (Recovering m (Some a))"
    using j' by (simp add: finality_state_of_def)
  moreover have "suspicion_note j' = None" if "meta j1 SUSPECTED_KEY = None"
    using that j' by (simp add: suspicion_note_def)
  ultimately show ?thesis using j' origin i by auto
qed

definition sample_mismatch :: mismatch where
  "sample_mismatch = \<lparr>mm_kind = ''receipt'', mm_number = 7, mm_ref = ''t1'', expected = ''aa'', actual = ''bb'',
     detected_at = 9\<rparr>"

theorem acknowledge_names_incident_witness:
  "\<exists>a j'. acknowledge_finality (\<lambda>_. ''0123456789abcdef'') '' 0123456789AB '' 20
            (blank_journal\<lparr>meta := [MISMATCH_KEY \<mapsto> Json (encode_mismatch sample_mismatch)]\<rparr>) = Inr (a, j')
     \<and> ack_id a = ''0123456789ab''"
proof -
  let ?j = "blank_journal\<lparr>meta := [MISMATCH_KEY \<mapsto> Json (encode_mismatch sample_mismatch)]\<rparr>"
  have i: "to_ascii_lowercase (trim '' 0123456789AB '') = ''0123456789ab''" by code_simp
  have "recorded_mismatch ?j = Inr (Some sample_mismatch)"
    by (simp add: recorded_mismatch_def optR_def)
  then have "\<exists>a j'. acknowledge_finality (\<lambda>_. ''0123456789abcdef'') '' 0123456789AB '' 20 ?j = Inr (a, j')"
    by (simp add: acknowledge_finality_def acknowledged_mismatch_def i mismatch_id_def acknowledgement_of_def
        stored_ack_def incident_keys Let_def)
  then obtain a j' where a: "acknowledge_finality (\<lambda>_. ''0123456789abcdef'') '' 0123456789AB '' 20 ?j = Inr (a, j')"
    by blast
  show ?thesis using a acknowledge_names_incident [OF a, of 30] unfolding i by blast
qed

section \<open>The status\<close>

lemma sum_count_kind: "sum_list (map snd (count_kind k xs)) = Suc (sum_list (map snd xs))"
  by (induction k xs rule: count_kind.induct) simp_all

lemma map_of_count_kind: "map_of (count_kind k xs) q =
    (if q = k then Some (Suc (case map_of xs k of None \<Rightarrow> 0 | Some n \<Rightarrow> n)) else map_of xs q)"
  by (induction k xs rule: count_kind.induct) auto

lemma by_kind_counts:
  "map_of (by_kind marks) (kind_name k) =
     (let n = count_where (\<lambda>m. mk_kind m = k) marks in if n = 0 then None else Some n)"
proof -
  have name: "kind_name a = kind_name b \<longleftrightarrow> a = b" for a b by (cases a; cases b) simp_all
  have "map_of (fold (\<lambda>m. count_kind (kind_name (mk_kind m))) marks xs) (kind_name k) =
     (let n = count_where (\<lambda>m. mk_kind m = k) marks + (case map_of xs (kind_name k) of None \<Rightarrow> 0 | Some n \<Rightarrow> n)
      in if n = 0 then map_of xs (kind_name k) else Some n)" for xs
    by (induction marks arbitrary: xs) (auto simp: map_of_count_kind name Let_def split: option.splits)
  from this [of "[]"] show ?thesis by (simp add: by_kind_def Let_def)
qed

text \<open>The status tells where the keeper stands. When the command answers, its state is \<open>recovering\<close>
  exactly when a mismatch is on record, and \<open>clear\<close> exactly when none is on record and none is
  suspected; and of the marks on record it counts all, and each kind as often as it occurs.\<close>

theorem status_tells:
  assumes "finality_status keccak_hex j = Inr v"
  shows "(json_field ''state'' v = Some (JStr ''recovering'') \<longleftrightarrow> recorded_mismatch j \<noteq> Inr None)
    \<and> (json_field ''state'' v = Some (JStr ''clear'') \<longleftrightarrow>
         recorded_mismatch j = Inr None \<and> suspicion_note j = None)
    \<and> (\<exists>marks u b. (soft_marks j = None \<and> marks = [] \<or> soft_marks_read j = Inr marks)
         \<and> json_field ''unaudited_marks'' v = Some u
         \<and> json_field ''count'' u = Some (JNum (int (length marks)))
         \<and> json_field ''by_kind'' u = Some b
         \<and> (\<forall>k. json_field (kind_name k) b = (let n = count_where (\<lambda>m. mk_kind m = k) marks
                  in if n = 0 then None else Some (JNum (int n)))))"
proof -
  from assms obtain w marks fs floor where
    ini: "initialized j = Inr w" and m: "(if soft_marks j = None then Inr [] else soft_marks_read j) = Inr marks"
    and fs: "finality_state_of keccak_hex j = Inr fs" and fl: "nonce_floor j = Inr floor"
    unfolding finality_status_def bindR_Inr_iff by blast
  have entry: "map_of (map (\<lambda>(k, n). (k, JNum (int n))) xs) k = map_option (\<lambda>n. JNum (int n)) (map_of xs k)"
    for xs :: "(string \<times> nat) list" and k
    by (induction xs) auto
  have st: "json_field ''state'' v = Some (JStr (fst (standing fs (suspicion_note j))))"
    and u: "json_field ''unaudited_marks'' v = Some (marks_json marks)"
    using assms unfolding finality_status_def ini m fs fl by (auto split: prod.splits)
  have "soft_marks j = None \<and> marks = [] \<or> soft_marks_read j = Inr marks"
    using m by (auto split: if_splits)
  moreover have "\<forall>k. json_field (kind_name k) (JObj (map (\<lambda>(k, n). (k, JNum (int n))) (by_kind marks)))
      = (let n = count_where (\<lambda>m. mk_kind m = k) marks in if n = 0 then None else Some (JNum (int n)))"
    by (simp add: entry by_kind_counts Let_def)
  ultimately have "\<exists>marks u b. (soft_marks j = None \<and> marks = [] \<or> soft_marks_read j = Inr marks)
         \<and> json_field ''unaudited_marks'' v = Some u
         \<and> json_field ''count'' u = Some (JNum (int (length marks)))
         \<and> json_field ''by_kind'' u = Some b
         \<and> (\<forall>k. json_field (kind_name k) b = (let n = count_where (\<lambda>m. mk_kind m = k) marks
                  in if n = 0 then None else Some (JNum (int n))))"
    using u by (intro exI [of _ marks] exI [of _ "marks_json marks"]
        exI [of _ "JObj (map (\<lambda>(k, n). (k, JNum (int n))) (by_kind marks))"]) (simp add: marks_json_def)
  moreover obtain found where "recorded_mismatch j = Inr found" and "fs = (case found of None \<Rightarrow> Clear
      | Some m \<Rightarrow> Recovering m (acknowledgement_of keccak_hex m j))"
    using fs unfolding finality_state_of_def bindR_Inr_iff by blast
  ultimately show ?thesis
    using st by (cases found; cases "suspicion_note j") (simp_all add: standing_def)
qed

theorem status_tells_witness:
  "\<exists>v. finality_status sample_keccak (blank_journal\<lparr>meta := [''scope'' \<mapsto> Text ''s'']\<rparr>) = Inr v
     \<and> json_field ''state'' v = Some (JStr ''clear'')"
proof -
  let ?j = "blank_journal\<lparr>meta := [''scope'' \<mapsto> Text ''s'']\<rparr>"
  have keys: "MISMATCH_KEY \<noteq> ''scope''" "SUSPECTED_KEY \<noteq> ''scope''" "NONCE_FLOOR_KEY \<noteq> ''scope''"
    by (simp_all add: incident_keys NONCE_FLOOR_KEY_def)
  then have r: "recorded_mismatch ?j = Inr None \<and> suspicion_note ?j = None"
    by (simp add: recorded_mismatch_None_iff suspicion_note_def)
  then have "\<exists>v. finality_status sample_keccak ?j = Inr v"
    using keys by (simp add: finality_status_def initialized_def finality_state_of_def nonce_floor_def
        standing_def blank_journal_def Let_def)
  then obtain v where a: "finality_status sample_keccak ?j = Inr v" ..
  show ?thesis using a status_tells [OF a] r by auto
qed

end
