(* ===== verification/Suspicion.thy ===== *)
theory Suspicion
  imports Finality
begin

text \<open>
  A mismatch one endpoint showed, before anything is recorded (\<open>worker/suspicion.rs\<close>): it is held in
  memory while every endpoint is asked about the block. Durations and instants are in milliseconds;
  the endpoints' answers and the clocks are arguments.
\<close>

record suspicion =
  found :: mismatch
  sus_checks :: nat
  next_check :: nat
  seen :: nat
  paged :: bool

definition RETRY_MAX :: nat where "RETRY_MAX = 30 * 1000"
definition RETRY_FIRST :: nat where "RETRY_FIRST = 2 * 1000"
definition ABSENT_CHECKS :: nat where "ABSENT_CHECKS = 3"
definition ABSENT_WINDOW :: nat where "ABSENT_WINDOW = 10 * 1000"
definition PAGE_AFTER :: nat where "PAGE_AFTER = 600 * 1000"
definition CONFIRMED_KEY :: string where "CONFIRMED_KEY = ''finality:recovery:confirmed''"
definition FAILING_KEY :: string where "FAILING_KEY = ''finality:recovery:failing_since''"
definition SINGLE_ENDPOINT_KEY :: string where "SINGLE_ENDPOINT_KEY = ''rpc:single_endpoint_alerted''"

definition retry_after :: "nat \<Rightarrow> nat \<Rightarrow> nat" where
  "retry_after first n = min (first * 2 ^ min (n - 1) 16) RETRY_MAX"

section \<open>Holding a suspicion\<close>

text \<open>\<open>now\<close> is the instant, \<open>wall\<close> the wall clock in seconds.\<close>

definition suspect :: "(string \<Rightarrow> string) \<Rightarrow> nat \<Rightarrow> nat \<Rightarrow> mismatch \<Rightarrow> suspicion option \<Rightarrow> suspicion option prog" where
  "suspect keccak_hex now wall m held' =
     bindP (readRP recorded_mismatch) (\<lambda>recorded.
       if recorded \<noteq> None then pureP held'
       else if held' \<noteq> None then pureP held'
       else
         bindP (readP suspicion_note) (\<lambda>note.
           case note of
             Some noted \<Rightarrow>
               if (mm_kind (sp_mismatch noted), mm_number (sp_mismatch noted), expected (sp_mismatch noted))
                    = (mm_kind m, mm_number m, expected m)
               then let m' = m\<lparr>detected_at := detected_at (sp_mismatch noted)\<rparr>;
                        age = 1000 * sat_sub wall (detected_at m')
                    in bindP (readP (meta_text UNCONFIRMED_ALERTED_KEY)) (\<lambda>alerted.
                         pureP (Some \<lparr>found = m', sus_checks = 0, next_check = now,
                           seen = (if age \<le> now then now - age else now),
                           paged = (alerted = Some (mismatch_id keccak_hex m'))\<rparr>))
               else pureP (Some \<lparr>found = m, sus_checks = 0, next_check = now, seen = now, paged = False\<rparr>)
           | None \<Rightarrow> pureP (Some \<lparr>found = m, sus_checks = 0, next_check = now, seen = now, paged = False\<rparr>)))"

section \<open>Settling it\<close>

text \<open>What the endpoints and the clock say at one try: the answers of \<open>Rpc::block_views\<close>, how many
  endpoints are admitted, the instant before they are asked and the instant after, and the keeper's
  own waits.\<close>

record settle_env =
  se_answers :: "block_view list"
  se_admitted :: nat
  se_now :: nat
  se_later :: nat
  se_retry :: nat
  se_absent_window :: nat
  se_page_after :: nat

text \<open>What a try leaves: the suspicion that is held, the endpoints put on cooldown, whether the head
  is read again, and whether the owner is asked to act.\<close>

record settled =
  sr_held :: "suspicion option"
  sr_cooled :: "nat list"
  sr_reread :: bool
  sr_page :: bool

text \<open>Endpoints that do not have the block confirm a shorter chain only when none shows it, and only
  after several tries over a while.\<close>

definition guarded_verdict :: "settle_env \<Rightarrow> suspicion \<Rightarrow> block_view list \<Rightarrow> verdict \<Rightarrow> verdict" where
  "guarded_verdict env s views v = (case v of
      Changed h n os \<Rightarrow>
        if h = ABSENT \<and> (list_ex (\<lambda>w. vw_hash w \<noteq> ABSENT) views
             \<or> sus_checks s + 1 < ABSENT_CHECKS
             \<or> se_later env - seen s < se_absent_window env)
        then Unresolved else v
    | _ \<Rightarrow> v)"

definition confirmed_evidence :: "settle_env \<Rightarrow> suspicion \<Rightarrow> block_view list \<Rightarrow> string \<Rightarrow> nat \<Rightarrow> nat list \<Rightarrow> json" where
  "confirmed_evidence env s views h n os = JObj [
     (''agreeing'', JNum (int n)), (''answered'', JNum (int (length views))),
     (''endpoints'', JNum (int (se_admitted env))), (''cooled'', JArr (map (\<lambda>e. JNum (int e)) os)),
     (''final'', JBool (list_ex (\<lambda>w. vw_hash w = h \<and> (case vw_finalized w of None \<Rightarrow> False
                                     | Some f \<Rightarrow> f \<ge> mm_number (found s))) views)),
     (''checks'', JNum (int (sus_checks s + 1)))]"

definition settle_suspicion :: "(string \<Rightarrow> string) \<Rightarrow> settle_env \<Rightarrow> suspicion option \<Rightarrow> settled prog" where
  "settle_suspicion keccak_hex env held' = (case held' of
      None \<Rightarrow> pureP \<lparr>sr_held = None, sr_cooled = [], sr_reread = False, sr_page = False\<rparr>
    | Some s \<Rightarrow>
        bindP (readRP recorded_mismatch) (\<lambda>recorded.
          if recorded \<noteq> None then pureP \<lparr>sr_held = None, sr_cooled = [], sr_reread = False, sr_page = False\<rparr>
          else if se_now env < next_check s
          then pureP \<lparr>sr_held = Some s, sr_cooled = [], sr_reread = False, sr_page = False\<rparr>
          else
            let m = found s;
                (views, v) = verify (se_answers env) (expected m) (actual m = ABSENT)
            in case guarded_verdict env s views v of
                 Changed h n os \<Rightarrow>
                   bindP (execP (\<lambda>j. snd (confirm_finality_mismatch (m\<lparr>actual := h\<rparr>) CONFIRMED_KEY
                                            (confirmed_evidence env s views h n os) j)))
                     (\<lambda>_. pureP \<lparr>sr_held = None, sr_cooled = os, sr_reread = (os \<noteq> []), sr_page = False\<rparr>)
               | Unchanged n os \<Rightarrow>
                   bindP (execP clear_suspicion_note)
                     (\<lambda>_. pureP \<lparr>sr_held = None, sr_cooled = os, sr_reread = True, sr_page = False\<rparr>)
               | Unresolved \<Rightarrow>
                   let s' = s\<lparr>sus_checks := sus_checks s + 1,
                              next_check := se_now env + retry_after (se_retry env) (sus_checks s + 1)\<rparr>;
                       ask = (\<not> paged s \<and> se_later env - seen s \<ge> se_page_after env)
                   in bindP (execP (note_suspicion \<lparr>sp_mismatch = m, checks = sus_checks s',
                                endpoints = se_admitted env, answered = length views\<rparr>)) (\<lambda>_.
                      bindP (if ask then execP (set_meta UNCONFIRMED_ALERTED_KEY (Text (mismatch_id keccak_hex m)))
                             else pureP ())
                        (\<lambda>_. pureP \<lparr>sr_held = Some (if ask then s'\<lparr>paged := True\<rparr> else s'), sr_cooled = [],
                                    sr_reread = False, sr_page = ask\<rparr>))))"

section \<open>Asking the owner\<close>

text \<open>\<open>page_single_endpoint\<close>: \<open>urls\<close> configured endpoints, \<open>held_out\<close> whether one has been held
  out of reads for long enough. True when the owner is asked.\<close>

definition page_single_endpoint :: "nat \<Rightarrow> nat \<Rightarrow> bool \<Rightarrow> bool prog" where
  "page_single_endpoint admitted urls held_out =
     bindP (readP (\<lambda>j. meta j SINGLE_ENDPOINT_KEY \<noteq> None)) (\<lambda>asked.
       let single = (admitted < 2 \<and> (urls < 2 \<or> held_out)) in
       if single \<and> \<not> asked
       then bindP (execP (set_meta SINGLE_ENDPOINT_KEY (Text ''1''))) (\<lambda>_. pureP True)
       else if admitted \<ge> 2 \<and> asked
       then bindP (execP (meta_delete (\<lambda>k. k = SINGLE_ENDPOINT_KEY))) (\<lambda>_. pureP False)
       else pureP False)"

definition recovery_succeeded :: "unit prog" where
  "recovery_succeeded = execP (meta_delete (\<lambda>k. k = FAILING_KEY))"

text \<open>\<open>now\<close> is the wall clock in seconds, \<open>page_after\<close> in seconds too. True when the owner is asked.\<close>

definition recovery_failed :: "(string \<Rightarrow> string) \<Rightarrow> nat \<Rightarrow> nat \<Rightarrow> mismatch \<Rightarrow> bool prog" where
  "recovery_failed keccak_hex now page_after incident =
     bindP (readP (meta_text FAILING_KEY)) (\<lambda>saved.
     bindP (case saved of
              Some t \<Rightarrow> pureP (case parse_uint u64_max t of None \<Rightarrow> now | Some n \<Rightarrow> n)
            | None \<Rightarrow> bindP (execP (set_meta FAILING_KEY (Text (show_nat now)))) (\<lambda>_. pureP now)) (\<lambda>since.
       if sat_sub now since < page_after then pureP False
       else bindP (readP (meta_text ALERTED_KEY)) (\<lambda>alerted.
              let i = mismatch_id keccak_hex incident in
              if alerted \<noteq> Some i
              then bindP (execP (set_meta ALERTED_KEY (Text i))) (\<lambda>_. pureP True)
              else pureP False)))"

section \<open>Only a majority settles a suspicion\<close>

lemma guarded_Changed:
  assumes "guarded_verdict env s views v = Changed h n os"
  shows "v = Changed h n os"
    and "h = ABSENT \<Longrightarrow> (\<forall>w \<in> set views. vw_hash w = ABSENT) \<and> ABSENT_CHECKS \<le> sus_checks s + 1
          \<and> se_absent_window env \<le> se_later env - seen s"
  using assms by (auto simp: guarded_verdict_def list_ex_iff split: verdict.splits if_splits)

lemma guarded_Unchanged:
  "guarded_verdict env s views v = Unchanged n os \<Longrightarrow> v = Unchanged n os"
  by (auto simp: guarded_verdict_def split: verdict.splits if_splits)

lemma confirm_records:
  assumes "meta j MISMATCH_KEY = None" and "key \<noteq> MISMATCH_KEY"
  shows "recorded_mismatch (snd (confirm_finality_mismatch m key ev j)) = Inr (Some m)"
    and "txs (snd (confirm_finality_mismatch m key ev j)) = txs j"
    and "jobs (snd (confirm_finality_mismatch m key ev j)) = jobs j"
  using assms
  by (simp_all add: confirm_finality_mismatch_def meta_insert_def clear_suspicion_note_def
      recorded_mismatch_def optR_def incident_keys)

text \<open>A try of \<open>settle_suspicion\<close> with no mismatch on record, by its four ends.\<close>

lemma settle_cases:
  assumes run: "settle_suspicion keccak_hex env (Some s) j = (Inr r, j')"
    and none: "recorded_mismatch j = Inr None"
  obtains (early) "se_now env < next_check s" and "sr_held r = Some s" and "j' = j"
  | (changed) views h n os where "views = fst (verify (se_answers env) (expected (found s)) (actual (found s) = ABSENT))"
      and "guarded_verdict env s views (verdict (expected (found s)) views) = Changed h n os"
      and "sr_held r = None"
      and "j' = snd (confirm_finality_mismatch ((found s)\<lparr>actual := h\<rparr>) CONFIRMED_KEY
                       (confirmed_evidence env s views h n os) j)"
  | (unchanged) views n os where "views = fst (verify (se_answers env) (expected (found s)) (actual (found s) = ABSENT))"
      and "verdict (expected (found s)) views = Unchanged n os"
      and "sr_held r = None" and "j' = clear_suspicion_note j"
  | (unresolved) s' j1 where "next_check s \<le> se_now env" and "sr_held r = Some s'" and "found s' = found s"
      and "sus_checks s' = sus_checks s + 1"
      and "next_check s' = se_now env + retry_after (se_retry env) (sus_checks s + 1)"
      and "j1 = note_suspicion \<lparr>sp_mismatch = found s, checks = sus_checks s', endpoints = se_admitted env,
              answered = length (fst (verify (se_answers env) (expected (found s)) (actual (found s) = ABSENT)))\<rparr> j"
      and "j' = j1 \<or> j' = set_meta UNCONFIRMED_ALERTED_KEY (Text (mismatch_id keccak_hex (found s))) j1"
proof (cases "se_now env < next_check s")
  case True
  then show thesis using run none by (intro early) (auto simp: settle_suspicion_def prog_defs)
next
  case False
  define views where "views = fst (verify (se_answers env) (expected (found s)) (actual (found s) = ABSENT))"
  have v: "verify (se_answers env) (expected (found s)) (actual (found s) = ABSENT)
      = (views, verdict (expected (found s)) views)"
    by (simp add: views_def verify_def Let_def)
  show thesis
  proof (cases "guarded_verdict env s views (verdict (expected (found s)) views)")
    case (Changed h n os)
    have "sr_held r = None" "j' = snd (confirm_finality_mismatch ((found s)\<lparr>actual := h\<rparr>) CONFIRMED_KEY
                       (confirmed_evidence env s views h n os) j)"
      using run none False Changed v by (auto simp: settle_suspicion_def prog_defs Let_def)
    with Changed show thesis by (intro changed [of views h n os]) (simp_all add: views_def)
  next
    case (Unchanged n os)
    have "sr_held r = None" "j' = clear_suspicion_note j"
      using run none False Unchanged v by (auto simp: settle_suspicion_def prog_defs Let_def)
    with guarded_Unchanged [OF Unchanged] show thesis by (intro unchanged [of views n os]) (simp_all add: views_def)
  next
    case Unresolved
    let ?s = "s\<lparr>sus_checks := sus_checks s + 1,
                next_check := se_now env + retry_after (se_retry env) (sus_checks s + 1)\<rparr>"
    let ?ask = "\<not> paged s \<and> se_later env - seen s \<ge> se_page_after env"
    let ?j1 = "note_suspicion \<lparr>sp_mismatch = found s, checks = sus_checks s + 1, endpoints = se_admitted env,
              answered = length views\<rparr> j"
    have "sr_held r = Some (if ?ask then ?s\<lparr>paged := True\<rparr> else ?s)"
      "j' = (if ?ask then set_meta UNCONFIRMED_ALERTED_KEY (Text (mismatch_id keccak_hex (found s))) ?j1 else ?j1)"
      using run none False Unresolved v by (auto simp: settle_suspicion_def prog_defs Let_def split: if_splits)
    then show thesis
      using False by (intro unresolved [of "if ?ask then ?s\<lparr>paged := True\<rparr> else ?s" ?j1]) (auto simp: views_def)
  qed
qed

lemma suspicion_keys:
  "CONFIRMED_KEY \<noteq> MISMATCH_KEY" "SUSPECTED_KEY \<noteq> MISMATCH_KEY" "UNCONFIRMED_ALERTED_KEY \<noteq> MISMATCH_KEY"
  "MISMATCH_KEY \<noteq> SUSPECTED_KEY" "MISMATCH_KEY \<noteq> UNCONFIRMED_ALERTED_KEY"
  by (simp_all add: CONFIRMED_KEY_def incident_keys)

text \<open>C15: Only a majority of the endpoints settles a suspicion. While no mismatch is on record, a try records
  one only for the suspected block, under a hash that at least two endpoints show, more than show the
  journal's and more than show any other, and for a block the chain no longer has only when no endpoint shows
  it, after enough tries over long enough. It drops the suspicion only when it recorded it, or when more
  endpoints show the journal's hash than any other; in every other case the suspicion is still held,
  with nothing on record, to be tried again within the longest wait. No job and no attempt changes.\<close>

theorem majority_settles:
  assumes "settle_suspicion keccak_hex env (Some s) j = (Inr r, j')" and "recorded_mismatch j = Inr None"
    and "views = fst (verify (se_answers env) (expected (found s)) (actual (found s) = ABSENT))"
  shows "(\<forall>m. recorded_mismatch j' = Inr (Some m) \<longrightarrow> sr_held r = None
          \<and> m = (found s)\<lparr>actual := actual m\<rparr> \<and> \<not> eq_ignore_ascii_case (actual m) (expected m)
          \<and> 2 \<le> shown (actual m) views
          \<and> count_where (same_hash (expected m)) views < shown (actual m) views
          \<and> (\<forall>h. h \<noteq> actual m \<longrightarrow> \<not> eq_ignore_ascii_case h (expected m) \<longrightarrow> shown h views < shown (actual m) views)
          \<and> (actual m = ABSENT \<longrightarrow> (\<forall>w \<in> set views. vw_hash w = ABSENT)
               \<and> ABSENT_CHECKS \<le> sus_checks s + 1 \<and> se_absent_window env \<le> se_later env - seen s))
    \<and> (sr_held r = None \<longrightarrow> (\<exists>m. recorded_mismatch j' = Inr (Some m))
          \<or> (\<forall>h. \<not> eq_ignore_ascii_case h (expected (found s))
               \<longrightarrow> shown h views < count_where (same_hash (expected (found s))) views))
    \<and> (\<forall>s'. sr_held r = Some s' \<longrightarrow> found s' = found s \<and> recorded_mismatch j' = Inr None
          \<and> (next_check s \<le> se_now env \<longrightarrow> sus_checks s' = sus_checks s + 1
               \<and> next_check s' \<le> se_now env + RETRY_MAX))
    \<and> txs j' = txs j \<and> jobs j' = jobs j"
  using assms(1,2)
proof (cases rule: settle_cases)
  case early
  then show ?thesis using assms(2) by simp
next
  case (changed views' h n os)
  have [simp]: "views' = views" using changed(1) assms(3) by simp
  have none: "meta j MISMATCH_KEY = None" using assms(2) by (simp add: recorded_mismatch_None_iff)
  note C = confirm_records [OF none suspicion_keys(1), of "(found s)\<lparr>actual := h\<rparr>"
      "confirmed_evidence env s views' h n os", folded changed(4)]
  have "verdict (expected (found s)) views = Changed h n os" using guarded_Changed(1) [OF changed(2)] by simp
  with verdict_iff [of "expected (found s)" views h n os]
  have M: "\<not> eq_ignore_ascii_case h (expected (found s))" "2 \<le> shown h views"
      "count_where (same_hash (expected (found s))) views < shown h views"
      "\<forall>h'. h' \<noteq> h \<longrightarrow> \<not> eq_ignore_ascii_case h' (expected (found s)) \<longrightarrow> shown h' views < shown h views"
    by auto
  have A: "h = ABSENT \<longrightarrow> (\<forall>w \<in> set views. vw_hash w = ABSENT)
               \<and> ABSENT_CHECKS \<le> sus_checks s + 1 \<and> se_absent_window env \<le> se_later env - seen s"
    using guarded_Changed(2) [OF changed(2)] by simp
  have "m = (found s)\<lparr>actual := h\<rparr>" if "recorded_mismatch j' = Inr (Some m)" for m
    using that C(1) by simp
  then show ?thesis using C M A changed(3) by simp
next
  case (unchanged views' n os)
  have [simp]: "views' = views" using unchanged(1) assms(3) by simp
  have "recorded_mismatch j' = Inr None"
    using assms(2) suspicion_keys by (simp add: recorded_mismatch_None_iff unchanged(4) clear_suspicion_note_def)
  moreover have "verdict (expected (found s)) views = Unchanged n os" using unchanged(2) by simp
  from verdict_iff [THEN conjunct2, THEN iffD1, OF this]
  have "\<forall>h. \<not> eq_ignore_ascii_case h (expected (found s))
      \<longrightarrow> shown h views < count_where (same_hash (expected (found s))) views" by auto
  ultimately show ?thesis using unchanged(3,4) by (simp add: clear_suspicion_note_def)
next
  case (unresolved s' j1)
  have "recorded_mismatch j' = Inr None" "txs j' = txs j" "jobs j' = jobs j"
    using unresolved(6,7) assms(2) suspicion_keys
    by (auto simp: recorded_mismatch_None_iff note_suspicion_def set_meta_def)
  then show ?thesis using unresolved(1-5) by (simp add: retry_after_def)
qed

definition suspected_block :: suspicion where
  "suspected_block = \<lparr>found = sample_mismatch, sus_checks = 0, next_check = 0, seen = 0, paged = False\<rparr>"

definition sample_env :: settle_env where
  "sample_env = \<lparr>se_answers = [\<lparr>vw_endpoint = 0, vw_hash = ''bb'', vw_finalized = None\<rparr>,
       \<lparr>vw_endpoint = 1, vw_hash = ''bb'', vw_finalized = Some 8\<rparr>], se_admitted = 2, se_now = 5, se_later = 6,
     se_retry = RETRY_FIRST, se_absent_window = ABSENT_WINDOW, se_page_after = PAGE_AFTER\<rparr>"

theorem majority_settles_witness:
  "\<exists>r j'. settle_suspicion sample_keccak sample_env (Some suspected_block) blank_journal = (Inr r, j')
     \<and> sr_held r = None \<and> recorded_mismatch j' = Inr (Some sample_mismatch)"
proof -
  let ?views = "[\<lparr>vw_endpoint = 0, vw_hash = ''bb'', vw_finalized = None\<rparr>,
       \<lparr>vw_endpoint = 1, vw_hash = ''bb'', vw_finalized = Some 8\<rparr>]"
  have bb: "''bb'' \<noteq> ABSENT" "\<not> eq_ignore_ascii_case ''bb'' ''aa''" by code_simp+
  have v: "verdict ''aa'' ?views = Changed ''bb'' 2 []"
    using bb verdict_iff [of "''aa''" ?views "''bb''" 2 "[]"] by (auto simp: shown_def same_hash_def)
  have none: "recorded_mismatch blank_journal = Inr None"
    by (simp add: recorded_mismatch_None_iff blank_journal_def)
  have "\<exists>r j'. settle_suspicion sample_keccak sample_env (Some suspected_block) blank_journal = (Inr r, j')
      \<and> sr_held r = None"
    using bb v none by (simp add: settle_suspicion_def prog_defs suspected_block_def sample_env_def sample_mismatch_def
        verify_def guarded_verdict_def Let_def)
  then obtain r j' where a: "settle_suspicion sample_keccak sample_env (Some suspected_block) blank_journal = (Inr r, j')"
    "sr_held r = None" by blast
  note M = majority_settles [OF a(1) none refl]
  have "\<not> (\<forall>h. \<not> eq_ignore_ascii_case h ''aa'' \<longrightarrow> shown h ?views < count_where (same_hash ''aa'') ?views)"
    using bb by (auto simp: shown_def same_hash_def intro!: exI [of _ "''bb''"])
  with M a(2) obtain m where m: "recorded_mismatch j' = Inr (Some m)"
    by (auto simp: suspected_block_def sample_mismatch_def sample_env_def verify_def Let_def bb)
  with M have "m = sample_mismatch\<lparr>actual := actual m\<rparr>" "2 \<le> shown (actual m) ?views"
    by (simp_all add: suspected_block_def sample_env_def verify_def Let_def bb sample_mismatch_def)
  then have "m = sample_mismatch"
    by (auto simp: shown_def sample_mismatch_def split: if_splits)
  with a m show ?thesis by blast
qed

section \<open>The owner is asked once\<close>

lemma failing_keys: "FAILING_KEY \<noteq> ALERTED_KEY" "ALERTED_KEY \<noteq> FAILING_KEY"
  "FAILING_KEY \<noteq> ''audit:dropped''" "ALERTED_KEY \<noteq> ''audit:dropped''"
  by (simp_all add: FAILING_KEY_def incident_keys)



end
