(* ===== verification/Drand.thy ===== *)
theory Drand
  imports Json
begin

text \<open>
  The drand relay client (\<open>drand.rs\<close>): the relay list of a configuration, the judgement of a relay's
  answer, the circuit kept per relay, and a fetch, which takes the first signature its verifier accepts
  and hears the other relays out afterwards. A relay's HTTP answer, the order the answers arrive in,
  the verifier and the clock are arguments; so are the URL, JSON and hex parsers of the packages the
  client uses. The circuits are the rows of one table of the journal; no count reaches 64 bits.
\<close>

section \<open>Rounds\<close>

definition RETRY_SECONDS :: nat where "RETRY_SECONDS = 2"
definition UNAVAILABLE_SECONDS :: nat where "UNAVAILABLE_SECONDS = 10"
definition RELAY_TIMEOUT_SECONDS :: nat where "RELAY_TIMEOUT_SECONDS = 4"
definition FETCH_TIMEOUT_SECONDS :: nat where "FETCH_TIMEOUT_SECONDS = 8"
definition RUN_GAP_SECONDS :: nat where "RUN_GAP_SECONDS = FETCH_TIMEOUT_SECONDS + RETRY_SECONDS + 5"
definition WARN_SECONDS :: nat where "WARN_SECONDS = 5 * 60"
definition MAX_RELAYS :: nat where "MAX_RELAYS = 8"
definition ANSWER_LIMIT :: nat where "ANSWER_LIMIT = 16 * 1024"
definition BREAKER_FAILURES :: int where "BREAKER_FAILURES = 3"
definition BREAKER_COOLDOWN_SECONDS :: nat where "BREAKER_COOLDOWN_SECONDS = 120"

definition DEFAULT_RELAYS :: "string list" where
  "DEFAULT_RELAYS = [''https://api.drand.sh'', ''https://api2.drand.sh'', ''https://api3.drand.sh'',
     ''https://drand.cloudflare.com'']"

record network =
  chain_hash :: string
  genesis :: nat
  period :: nat

definition round_time :: "network \<Rightarrow> nat \<Rightarrow> nat" where
  "round_time n round = sat_add (genesis n) (sat_mul (sat_sub round 1) (period n))"

definition recent :: "network \<Rightarrow> nat \<Rightarrow> nat \<Rightarrow> bool" where
  "recent n round now = (sat_add (round_time n round) (sat_mul (period n) 2) \<ge> now)"

definition loud :: "int \<Rightarrow> nat option \<Rightarrow> nat \<Rightarrow> bool" where
  "loud attempt' previous now = (attempt' \<le> 1
     \<or> (case previous of None \<Rightarrow> True | Some at' \<Rightarrow> at' div WARN_SECONDS \<noteq> now div WARN_SECONDS))"

section \<open>The relay list\<close>

text \<open>A parsed URL, as the client reads it.\<close>

record url_view =
  scheme :: string
  host_str :: "string option"
  username :: string
  password :: "string option"
  query :: "string option"
  fragment :: "string option"
  as_str :: string

datatype relay_error = EmptyEntry | NotUrl | NotHttps | Repeated | TooMany

fun split_on :: "char \<Rightarrow> string \<Rightarrow> string list" where
  "split_on c [] = [[]]"
| "split_on c (x # xs) = (if x = c then [] # split_on c xs
                          else (case split_on c xs of [] \<Rightarrow> [[x]] | w # ws \<Rightarrow> (x # w) # ws))"

definition trim_end_matches :: "char \<Rightarrow> string \<Rightarrow> string" where
  "trim_end_matches c s = rev (dropWhile (\<lambda>x. x = c) (rev s))"

definition add_relay :: "(string \<Rightarrow> url_view option) \<Rightarrow> bool \<Rightarrow> string \<Rightarrow> string list \<Rightarrow> relay_error + string list" where
  "add_relay url_parse local entry' relays =
     (let entry = trim entry' in
      ensure (entry \<noteq> [] \<and> length entry \<le> 1024) EmptyEntry
      (bindR (ok_or NotUrl (url_parse entry)) (\<lambda>u.
        let loopback = (local \<and> scheme u = ''http'' \<and> host_str u = Some ''127.0.0.1'') in
        ensure ((scheme u = ''https'' \<or> loopback) \<and> host_str u \<noteq> None \<and> username u = [] \<and> password u = None
                \<and> query u = None \<and> fragment u = None) NotHttps
        (let base = trim_end_matches CHR ''/'' (as_str u) in
         ensure (base \<notin> set relays) Repeated
         (ensure (length relays < MAX_RELAYS) TooMany (Inr (relays @ [base])))))))"

definition parse_relays :: "(string \<Rightarrow> url_view option) \<Rightarrow> string option \<Rightarrow> bool \<Rightarrow> relay_error + string list" where
  "parse_relays url_parse value' local = (case value' of
      None \<Rightarrow> Inr DEFAULT_RELAYS
    | Some v \<Rightarrow> foldR (add_relay url_parse local) (split_on CHR '','' v) [])"

definition configured_relays :: "(string \<Rightarrow> url_view option) \<Rightarrow> string option \<Rightarrow> string option \<Rightarrow> bool
    \<Rightarrow> relay_error + string list" where
  "configured_relays url_parse value' test_base local =
     bindR (parse_relays url_parse value' local) (\<lambda>relays.
       Inr (case test_base of Some base \<Rightarrow> [trim_end_matches CHR ''/'' base] | None \<Rightarrow> relays))"

section \<open>Answers\<close>

type_synonym signature = "nat list"

datatype reply = Signed signature | NotYet | ServerError nat | TimedOut | ReplyFailed string

datatype outcome_of = Served signature | Excused string | Faulted string

definition silent :: string where
  "silent = ''no answer within '' @ show_nat RELAY_TIMEOUT_SECONDS @ '' s''"

definition judge :: "reply \<Rightarrow> bool \<Rightarrow> bool \<Rightarrow> outcome_of" where
  "judge r recent' server_errors = (case r of
      Signed s \<Rightarrow> Served s
    | NotYet \<Rightarrow> if recent' then Excused ''round not published yet'' else Faulted ''round already due but not served''
    | ServerError status' \<Rightarrow>
        if recent' \<and> server_errors then Excused (''HTTP '' @ show_nat status' @ '', the round may not be published yet'')
        else Faulted (''HTTP '' @ show_nat status')
    | TimedOut \<Rightarrow> if recent' then Excused (silent @ '', the round may not be published yet'') else Faulted silent
    | ReplyFailed reason \<Rightarrow> Faulted reason)"

definition http_reply :: "(string \<Rightarrow> json option) \<Rightarrow> (string \<Rightarrow> signature option) \<Rightarrow> nat \<Rightarrow> string \<Rightarrow> nat \<Rightarrow> reply" where
  "http_reply json_parse hex_decode status' body round =
     (if 200 \<le> status' \<and> status' \<le> 299 then
        (case json_parse body of
           None \<Rightarrow> ReplyFailed ''answer is not JSON''
         | Some answer \<Rightarrow>
             (case field_nat ''round'' answer of
                None \<Rightarrow> ReplyFailed ''answer has no round number''
              | Some answered \<Rightarrow>
                  if answered \<noteq> round
                  then ReplyFailed (''answered round '' @ show_nat answered @ '' for round '' @ show_nat round)
                  else (case field_str ''signature'' answer of
                          Some s \<Rightarrow> (case (if length s = 128 then hex_decode s else None) of
                              Some bytes \<Rightarrow> if length bytes = 64 then Signed bytes
                                            else ReplyFailed ''signature is not 64 bytes of hex''
                            | None \<Rightarrow> ReplyFailed ''signature is not 64 bytes of hex'')
                        | None \<Rightarrow> ReplyFailed ''signature is not 64 bytes of hex'')))
      else if status' = 404 \<or> status' = 425 then NotYet
      else if 500 \<le> status' \<and> status' \<le> 599 then ServerError status'
      else ReplyFailed (''HTTP '' @ show_nat status'))"

text \<open>What one request to a relay came to: a transport error, a status with the chunks of its body,
  or nothing within the time.\<close>

datatype exchange = Silence | Transport string | Answered nat "string list"

fun read_body :: "string list \<Rightarrow> string \<Rightarrow> string option" where
  "read_body [] body = Some body"
| "read_body (chunk # chunks) body =
     (if length body + length chunk > ANSWER_LIMIT then None else read_body chunks (body @ chunk))"

definition ask :: "(string \<Rightarrow> json option) \<Rightarrow> (string \<Rightarrow> signature option) \<Rightarrow> exchange \<Rightarrow> nat \<Rightarrow> reply" where
  "ask json_parse hex_decode x round = (case x of
      Silence \<Rightarrow> TimedOut
    | Transport reason \<Rightarrow> ReplyFailed (''transport: '' @ reason)
    | Answered status' chunks \<Rightarrow>
        (case read_body (if 200 \<le> status' \<and> status' \<le> 299 then chunks else []) [] of
           None \<Rightarrow> ReplyFailed (''answer over '' @ show_nat ANSWER_LIMIT @ '' bytes'')
         | Some body \<Rightarrow> http_reply json_parse hex_decode status' body round))"

section \<open>Circuits\<close>

record circuit =
  ci_url :: string
  ci_failures :: int
  ci_open_until :: int

definition row_of :: "string \<Rightarrow> circuit list \<Rightarrow> circuit option" where
  "row_of relay table = find (\<lambda>c. ci_url c = relay) table"

definition circuit_open :: "string \<Rightarrow> nat \<Rightarrow> circuit list \<Rightarrow> (int \<times> nat) option" where
  "circuit_open relay now table = (case row_of relay table of
      None \<Rightarrow> None
    | Some c \<Rightarrow> (let until = nat (ci_open_until c) in
        if ci_failures c \<ge> BREAKER_FAILURES \<and> until > now then Some (ci_failures c, until - now) else None))"

definition circuit_record :: "string \<Rightarrow> bool \<Rightarrow> nat \<Rightarrow> circuit list \<Rightarrow> (int \<times> circuit list) option" where
  "circuit_record relay failed now table =
     (if \<not> failed then Some (0, del_where (\<lambda>c. ci_url c = relay) table)
      else if int (sat_add now BREAKER_COOLDOWN_SECONDS) > i64_max then None
      else let until = int (sat_add now BREAKER_COOLDOWN_SECONDS) in
        (case row_of relay table of
           None \<Rightarrow> Some (1, table @ [\<lparr>ci_url = relay, ci_failures = 1,
                                     ci_open_until = (if 1 \<ge> BREAKER_FAILURES then until else 0)\<rparr>])
         | Some c \<Rightarrow> Some (ci_failures c + 1,
             upd_where (\<lambda>c. ci_url c = relay)
               (\<lambda>c. c\<lparr>ci_failures := ci_failures c + 1,
                      ci_open_until := (if ci_failures c + 1 \<ge> BREAKER_FAILURES then until else ci_open_until c)\<rparr>)
               table)))"

fun askable_loop :: "nat \<Rightarrow> circuit list \<Rightarrow> string list \<Rightarrow> (nat \<times> string) option \<Rightarrow> string list \<Rightarrow> string list" where
  "askable_loop now table [] soonest asked = (case soonest of Some (_, relay) \<Rightarrow> asked @ [relay] | None \<Rightarrow> asked)"
| "askable_loop now table (relay # relays) soonest asked = (case circuit_open relay now table of
      None \<Rightarrow> askable_loop now table relays soonest (asked @ [relay])
    | Some (_, wait) \<Rightarrow>
        if (case soonest of None \<Rightarrow> True | Some (least, _) \<Rightarrow> wait < least)
        then askable_loop now table relays (Some (wait, relay)) asked
        else askable_loop now table relays soonest asked)"

definition askable :: "nat \<Rightarrow> circuit list \<Rightarrow> string list \<Rightarrow> string list" where
  "askable now table relays = askable_loop now table relays None []"

text \<open>\<open>record\<close>: bookkeeping that cannot fail a fetch. The clock is \<open>None\<close> where it cannot be read.\<close>

definition record_reply :: "string \<Rightarrow> nat option \<Rightarrow> string option \<Rightarrow> circuit list \<Rightarrow> circuit list" where
  "record_reply relay clock failure table = (case clock of
      None \<Rightarrow> table
    | Some now \<Rightarrow> (case circuit_record relay (failure \<noteq> None) now table of
          None \<Rightarrow> table | Some (_, table') \<Rightarrow> table'))"

section \<open>A fetch\<close>

text \<open>One relay's reply as it arrives, with the clock at that time. The verifier is a function of
  how often it was asked before, since a read of the chain can fail once and succeed later.\<close>

record arrival =
  ar_relay :: string
  ar_reply :: reply
  ar_clock :: "nat option"

record fetch_state =
  fs_table :: "circuit list"
  fs_verdicts :: "(signature \<times> bool) list"
  fs_calls :: nat
  trace_notes :: "string list"
  unverified :: bool

definition verdict_on :: "(nat \<Rightarrow> signature \<Rightarrow> string + bool) \<Rightarrow> signature \<Rightarrow> fetch_state \<Rightarrow> (string + bool) \<times> fetch_state" where
  "verdict_on verify s st = (case map_of (fs_verdicts st) s of
      Some known \<Rightarrow> (Inr known, st)
    | None \<Rightarrow> (case verify (fs_calls st) s of
          Inl e \<Rightarrow> (Inl e, st\<lparr>fs_calls := Suc (fs_calls st)\<rparr>)
        | Inr b \<Rightarrow> (Inr b, st\<lparr>fs_calls := Suc (fs_calls st), fs_verdicts := (s, b) # fs_verdicts st\<rparr>)))"

definition fail_with :: "arrival \<Rightarrow> string \<Rightarrow> fetch_state \<Rightarrow> fetch_state" where
  "fail_with a failure st = st\<lparr>fs_table := record_reply (ar_relay a) (ar_clock a) (Some failure) (fs_table st),
     trace_notes := trace_notes st @ [ar_relay a @ '': '' @ failure]\<rparr>"

fun collect :: "(nat \<Rightarrow> signature \<Rightarrow> string + bool) \<Rightarrow> bool \<Rightarrow> bool \<Rightarrow> arrival list \<Rightarrow> fetch_state
    \<Rightarrow> (signature \<times> arrival list) option \<times> fetch_state" where
  "collect verify recent' server_errors [] st = (None, st)"
| "collect verify recent' server_errors (a # arrivals) st =
     (case judge (ar_reply a) recent' server_errors of
        Excused note' \<Rightarrow>
          collect verify recent' server_errors arrivals (st\<lparr>trace_notes := trace_notes st @ [ar_relay a @ '': '' @ note']\<rparr>)
      | Faulted reason \<Rightarrow> collect verify recent' server_errors arrivals (fail_with a reason st)
      | Served s \<Rightarrow>
          (case verdict_on verify s st of
             (Inr True, st1) \<Rightarrow>
               (Some (s, arrivals), st1\<lparr>fs_table := record_reply (ar_relay a) (ar_clock a) None (fs_table st1)\<rparr>)
           | (Inr False, st1) \<Rightarrow>
               collect verify recent' server_errors arrivals (fail_with a ''signature does not verify'' st1)
           | (Inl e, st1) \<Rightarrow>
               collect verify recent' server_errors arrivals
                 (st1\<lparr>trace_notes := trace_notes st1 @ [ar_relay a @ '': signature not verified: '' @ e], unverified := True\<rparr>)))"

text \<open>The relays still in flight when a signature is accepted, heard out in the background.\<close>

fun settle :: "signature \<Rightarrow> bool \<Rightarrow> bool \<Rightarrow> string \<Rightarrow> arrival list \<Rightarrow> circuit list \<Rightarrow> circuit list" where
  "settle accepted recent' server_errors verifier [] table = table"
| "settle accepted recent' server_errors verifier (a # arrivals) table =
     settle accepted recent' server_errors verifier arrivals
       (case judge (ar_reply a) recent' server_errors of
          Served s \<Rightarrow> if s = accepted then record_reply (ar_relay a) (ar_clock a) None table
                      else record_reply (ar_relay a) (ar_clock a)
                             (Some (''signature differs from the one '' @ verifier @ '' verified'')) table
        | Excused _ \<Rightarrow> table
        | Faulted reason \<Rightarrow> record_reply (ar_relay a) (ar_clock a) (Some reason) table)"

datatype fetch_error = ChainRead string | Unavailable string

definition trace_error :: "fetch_state \<Rightarrow> bool \<Rightarrow> string \<Rightarrow> bool \<Rightarrow> fetch_error" where
  "trace_error st reading what expired =
     (let message = what @ '': '' @ join ''; '' (trace_notes st) in
      if unverified st \<or> (expired \<and> reading) then ChainRead message else Unavailable message)"

text \<open>The time limit of a fetch: \<open>None\<close> when it ends in time, else what it had heard by then and
  whether it was waiting for a read of the chain.\<close>

definition fetch_round :: "(nat \<Rightarrow> signature \<Rightarrow> string + bool) \<Rightarrow> network \<Rightarrow> bool \<Rightarrow> nat \<Rightarrow> nat
    \<Rightarrow> arrival list \<Rightarrow> bool option \<Rightarrow> circuit list \<Rightarrow> (fetch_error + signature) \<times> circuit list" where
  "fetch_round verify n server_errors round now arrivals limit table =
     (let st0 = \<lparr>fs_table = table, fs_verdicts = [], fs_calls = 0, trace_notes = [], unverified = False\<rparr>;
          (got, st) = collect verify (recent n round now) server_errors arrivals st0
      in (case got of
            Some (s, _) \<Rightarrow> (Inr s, fs_table st)
          | None \<Rightarrow> (case limit of
                None \<Rightarrow> (Inl (trace_error st False (''No drand relay served round '' @ show_nat round) False), fs_table st)
              | Some reading \<Rightarrow>
                  (Inl (trace_error st reading (''No drand round within '' @ show_nat FETCH_TIMEOUT_SECONDS @ '' s'') True),
                   fs_table st))))"

section \<open>Circuits, one relay at a time\<close>

text \<open>What one recorded outcome does to the row of its relay.\<close>

definition step_row :: "string \<Rightarrow> nat option \<Rightarrow> bool \<Rightarrow> circuit option \<Rightarrow> circuit option" where
  "step_row relay clock failed row = (case clock of
      None \<Rightarrow> row
    | Some now \<Rightarrow>
        if \<not> failed then None
        else if int (sat_add now BREAKER_COOLDOWN_SECONDS) > i64_max then row
        else let n = (case row of None \<Rightarrow> 0 | Some c \<Rightarrow> ci_failures c) + 1 in
          Some \<lparr>ci_url = relay, ci_failures = n,
            ci_open_until = (if n \<ge> BREAKER_FAILURES then int (sat_add now BREAKER_COOLDOWN_SECONDS)
                             else (case row of None \<Rightarrow> 0 | Some c \<Rightarrow> ci_open_until c))\<rparr>)"

lemma row_of_url: "row_of r t = Some c \<Longrightarrow> ci_url c = r"
  by (auto simp: row_of_def find_Some_iff)

lemma row_of_Nil [simp]: "row_of r [] = None"
  by (simp add: row_of_def)

lemma row_of_Cons: "row_of r (c # t) = (if ci_url c = r then Some c else row_of r t)"
  by (simp add: row_of_def)

lemma row_of_append: "row_of r (t @ u) = (case row_of r t of None \<Rightarrow> row_of r u | Some c \<Rightarrow> Some c)"
  by (induction t) (auto simp: row_of_def)

lemma row_of_del: "row_of r (del_where (\<lambda>c. ci_url c = r') t) = (if r = r' then None else row_of r t)"
  by (induction t) (auto simp: row_of_Cons row_of_def)

lemma row_of_upd:
  assumes "\<And>c. ci_url (f c) = ci_url c"
  shows "row_of r (upd_where (\<lambda>c. ci_url c = r') f t) = (if r = r' then map_option f (row_of r t) else row_of r t)"
  using assms by (induction t) (auto simp: row_of_Cons row_of_def)

lemma row_of_record_reply:
  "row_of r (record_reply r' clock failure t) =
     (if r = r' then step_row r clock (failure \<noteq> None) (row_of r t) else row_of r t)"
proof (cases clock)
  case None
  then show ?thesis by (simp add: record_reply_def step_row_def)
next
  case (Some now)
  then show ?thesis
    by (cases failure; cases "row_of r' t")
       (auto simp: record_reply_def step_row_def circuit_record_def row_of_del row_of_append row_of_upd
          row_of_Cons Let_def BREAKER_FAILURES_def dest: row_of_url split: option.splits)
qed

text \<open>A relay's history: each outcome and when it was recorded.\<close>

definition run_history :: "string \<Rightarrow> (bool \<times> nat) list \<Rightarrow> circuit list \<Rightarrow> circuit list" where
  "run_history relay h t =
     fold (\<lambda>(failed, at'). record_reply relay (Some at') (if failed then Some [] else None)) h t"

definition streak :: "(bool \<times> nat) list \<Rightarrow> nat" where
  "streak h = length (takeWhile fst (rev h))"

lemma streak_snoc: "streak (h @ [(failed, at')]) = (if failed then Suc (streak h) else 0)"
  by (simp add: streak_def)

lemma run_history_snoc:
  "run_history relay (h @ [(failed, at')]) t =
     record_reply relay (Some at') (if failed then Some [] else None) (run_history relay h t)"
  by (simp add: run_history_def)

lemma run_history_row:
  assumes "row_of relay t = None" and "list_all (\<lambda>(_, at'). int (at' + 120) \<le> i64_max) h"
  shows "row_of relay (run_history relay h t) = (if streak h = 0 then None
     else Some \<lparr>ci_url = relay, ci_failures = int (streak h),
                ci_open_until = (if streak h \<ge> 3 then int (snd (last h) + 120) else 0)\<rparr>)"
  using assms(2)
proof (induction h rule: rev_induct)
  case Nil
  show ?case using assms(1) by (simp add: run_history_def streak_def)
next
  case (snoc x h)
  obtain failed at' where x: "x = (failed, at')" by (cases x)
  have at: "int (at' + 120) \<le> i64_max" and sat: "sat_add at' BREAKER_COOLDOWN_SECONDS = at' + 120"
    using snoc.prems x by (simp_all add: sat_add_def BREAKER_COOLDOWN_SECONDS_def width_defs)
  have "row_of relay (run_history relay h t) = (if streak h = 0 then None
     else Some \<lparr>ci_url = relay, ci_failures = int (streak h),
                ci_open_until = (if streak h \<ge> 3 then int (snd (last h) + 120) else 0)\<rparr>)"
    using snoc by simp
  then show ?case
    unfolding x run_history_snoc row_of_record_reply streak_snoc
    using at sat by (simp add: step_row_def BREAKER_FAILURES_def Let_def)
qed

text \<open>C24: A relay's circuit is exactly its run of failures. From a relay with no row, after any history
  of outcomes, the circuit is open exactly when the last three outcomes or more were failures and the
  cooldown of 120 seconds since the last of them has not passed, and it then tells the number of
  failures in that run and the seconds that remain; one verified answer closes it; and no other
  relay's row changes.\<close>

theorem circuit_is_failure_run:
  assumes "row_of relay t = None" and "list_all (\<lambda>(_, at'). int (at' + 120) \<le> i64_max) h"
  shows "circuit_open relay now (run_history relay h t) =
      (if streak h \<ge> 3 \<and> now < snd (last h) + 120 then Some (int (streak h), snd (last h) + 120 - now) else None)
    \<and> (\<forall>at'. circuit_open relay now (run_history relay (h @ [(False, at')]) t) = None)
    \<and> (\<forall>other. other \<noteq> relay \<longrightarrow> row_of other (run_history relay h t) = row_of other t)"
proof -
  have other: "row_of other (run_history relay g t) = row_of other t" if "other \<noteq> relay" for other g
    using that by (induction g rule: rev_induct)
      (auto simp: run_history_def row_of_record_reply)
  have "row_of relay (run_history relay (h @ [(False, at')]) t) = None" for at'
    by (simp add: run_history_snoc row_of_record_reply step_row_def)
  then show ?thesis
    using run_history_row [OF assms] other
    by (auto simp: circuit_open_def Let_def BREAKER_FAILURES_def)
qed

theorem circuit_is_failure_run_witness:
  "circuit_open ''r'' 200 (run_history ''r'' [(True, 100), (True, 102), (True, 104)] []) = Some (3, 24)"
proof -
  have "int (104 + 120) \<le> i64_max" "int (102 + 120) \<le> i64_max" "int (100 + 120) \<le> i64_max"
    by (simp_all add: i64_max_def)
  then show ?thesis
    using circuit_is_failure_run [of "''r''" "[]" "[(True, 100), (True, 102), (True, 104)]" 200]
    by (simp add: row_of_def streak_def)
qed

section \<open>Which relays are asked\<close>

abbreviation is_closed :: "nat \<Rightarrow> circuit list \<Rightarrow> string \<Rightarrow> bool" where
  "is_closed now t r \<equiv> circuit_open r now t = None"

definition wait_of :: "nat \<Rightarrow> circuit list \<Rightarrow> string \<Rightarrow> nat" where
  "wait_of now t r = (case circuit_open r now t of Some (_, w) \<Rightarrow> w | None \<Rightarrow> 0)"

definition pick :: "nat \<Rightarrow> circuit list \<Rightarrow> string \<Rightarrow> (nat \<times> string) option \<Rightarrow> (nat \<times> string) option" where
  "pick now t relay soonest = (case circuit_open relay now t of
      None \<Rightarrow> soonest
    | Some (_, wait) \<Rightarrow> if (case soonest of None \<Rightarrow> True | Some (least, _) \<Rightarrow> wait < least) then Some (wait, relay)
                       else soonest)"

lemma askable_loop_fold:
  "askable_loop now t relays soonest asked = asked @ filter (is_closed now t) relays
     @ (case fold (pick now t) relays soonest of Some (_, relay) \<Rightarrow> [relay] | None \<Rightarrow> [])"
  by (induction relays arbitrary: soonest asked) (auto simp: pick_def split: option.splits)

lemma fold_pick:
  "case fold (pick now t) relays None of
     None \<Rightarrow> list_all (is_closed now t) relays
   | Some (l, r) \<Rightarrow> r \<in> set relays \<and> \<not> is_closed now t r \<and> l = wait_of now t r
       \<and> list_all (\<lambda>r'. is_closed now t r' \<or> wait_of now t r \<le> wait_of now t r') relays"
proof (induction relays rule: rev_induct)
  case Nil
  then show ?case by simp
next
  case (snoc x xs)
  show ?case
  proof (cases "circuit_open x now t")
    case None
    then have "pick now t x soonest = soonest" for soonest by (simp add: pick_def)
    then show ?thesis using snoc None by (auto split: option.splits)
  next
    case (Some fw)
    then have "pick now t x soonest = (if (case soonest of None \<Rightarrow> True | Some (least, _) \<Rightarrow> wait_of now t x < least)
        then Some (wait_of now t x, x) else soonest)" for soonest
      by (cases fw; cases soonest) (auto simp: pick_def wait_of_def)
    then show ?thesis
      using snoc Some by (cases "fold (pick now t) xs None") (auto simp: list_all_iff)
  qed
qed

text \<open>A fetch always has a relay to ask, and costs one probe at most. It asks every relay whose
  circuit is closed, in the order of the list, and when some circuit is open exactly one more: a relay
  of the list whose cooldown ends no later than that of any other open one. A list that is not empty
  is never left unasked.\<close>

theorem askable_probes_one:
  "\<exists>p. askable now t relays = filter (is_closed now t) relays @ p
    \<and> (if list_all (is_closed now t) relays then p = []
       else \<exists>r. p = [r] \<and> r \<in> set relays \<and> \<not> is_closed now t r
          \<and> list_all (\<lambda>r'. is_closed now t r' \<or> wait_of now t r \<le> wait_of now t r') relays)
    \<and> (askable now t relays = [] \<longleftrightarrow> relays = [])"
proof (cases "fold (pick now t) relays None")
  case None
  then have "askable now t relays = filter (is_closed now t) relays" "list_all (is_closed now t) relays"
    using fold_pick [of now t relays] by (simp_all add: askable_def askable_loop_fold)
  then show ?thesis by (auto simp: list_all_iff filter_empty_conv)
next
  case (Some lr)
  obtain l r where lr: "lr = (l, r)" by (cases lr)
  have "askable now t relays = filter (is_closed now t) relays @ [r]"
    using Some lr by (simp add: askable_def askable_loop_fold)
  moreover have "r \<in> set relays" "\<not> is_closed now t r"
      "list_all (\<lambda>r'. is_closed now t r' \<or> wait_of now t r \<le> wait_of now t r') relays"
    using fold_pick [of now t relays] Some lr by simp_all
  moreover have "\<not> list_all (is_closed now t) relays" "relays \<noteq> []"
    using calculation by (auto simp: list_all_iff)
  ultimately show ?thesis by simp
qed

section \<open>What a fetch returns\<close>

definition verdicts_sound :: "(nat \<Rightarrow> signature \<Rightarrow> string + bool) \<Rightarrow> fetch_state \<Rightarrow> bool" where
  "verdicts_sound verify st = (\<forall>s b. map_of (fs_verdicts st) s = Some b \<longrightarrow> (\<exists>k. verify k s = Inr b))"

lemma verdict_on_sound:
  assumes "verdicts_sound verify st" and "verdict_on verify s st = (v, st')"
  shows "verdicts_sound verify st' \<and> (\<exists>k. verify k s = v)
    \<and> unverified st' = unverified st \<and> fs_table st' = fs_table st"
  using assms by (auto simp: verdict_on_def verdicts_sound_def split: option.splits sum.splits if_splits)

lemma fail_with_simps [simp]:
  "unverified (fail_with a f st) = unverified st" "fs_verdicts (fail_with a f st) = fs_verdicts st"
  "fs_table (fail_with a f st) = record_reply (ar_relay a) (ar_clock a) (Some f) (fs_table st)"
  "verdicts_sound verify (fail_with a f st) = verdicts_sound verify st"
  by (simp_all add: fail_with_def verdicts_sound_def)

lemma judge_Served: "judge r e s = Served x \<longleftrightarrow> r = Signed x"
  by (cases r) (auto simp: judge_def)

lemma collect_sound:
  assumes "collect verify e se arrivals st = (got, st')" and "verdicts_sound verify st"
  shows "(\<forall>s rest. got = Some (s, rest) \<longrightarrow> (\<exists>k. verify k s = Inr True) \<and> (\<exists>a \<in> set arrivals. ar_reply a = Signed s))
    \<and> (got = None \<and> \<not> unverified st' \<longrightarrow>
         (\<forall>a \<in> set arrivals. \<forall>s. ar_reply a = Signed s \<longrightarrow> (\<exists>k. verify k s = Inr False)))
    \<and> (unverified st' \<longrightarrow> unverified st \<or> (\<exists>a \<in> set arrivals. \<exists>s k x. ar_reply a = Signed s \<and> verify k s = Inl x))
    \<and> (unverified st \<longrightarrow> unverified st')"
  using assms
proof (induction arrivals arbitrary: st)
  case Nil
  then show ?case by auto
next
  case (Cons a arrivals)
  show ?case
  proof (cases "judge (ar_reply a) e se")
    case (Served s)
    obtain v st1 where v: "verdict_on verify s st = (v, st1)" by (cases "verdict_on verify s st")
    note sound = verdict_on_sound [OF Cons.prems(2) v]
    have reply: "ar_reply a = Signed s" using Served by (simp add: judge_Served)
    consider (yes) "v = Inr True" | (no) "v = Inr False" | (err) x where "v = Inl x"
      by (cases v) auto
    then show ?thesis
    proof cases
      case yes
      then show ?thesis using Cons.prems(1) Served v sound reply by auto
    next
      case no
      then show ?thesis
        using Cons.prems(1) Served v sound reply Cons.IH [of "fail_with a ''signature does not verify'' st1"] by auto
    next
      case err
      define st2 where "st2 = st1\<lparr>trace_notes := trace_notes st1 @ [ar_relay a @ '': signature not verified: '' @ x], unverified := True\<rparr>"
      have "verdicts_sound verify st2" using sound by (simp add: st2_def verdicts_sound_def)
      then show ?thesis
        using Cons.prems(1) Served v sound reply err Cons.IH [of st2] by (auto simp: st2_def)
    qed
  next
    case (Excused note')
    define st2 where "st2 = st\<lparr>trace_notes := trace_notes st @ [ar_relay a @ '': '' @ note']\<rparr>"
    have "verdicts_sound verify st2" "unverified st2 = unverified st"
      using Cons.prems(2) by (simp_all add: st2_def verdicts_sound_def)
    moreover have "ar_reply a \<noteq> Signed s" for s using Excused judge_Served [of "ar_reply a" e se s] by auto
    ultimately show ?thesis using Cons.prems(1) Excused Cons.IH [of st2] by (auto simp: st2_def)
  next
    case (Faulted reason)
    have "ar_reply a \<noteq> Signed s" for s using Faulted judge_Served [of "ar_reply a" e se s] by auto
    then show ?thesis using Cons.prems Faulted Cons.IH [of "fail_with a reason st"] by auto
  qed
qed

text \<open>C22: The relays are not trusted. A signature that a fetch returns was given by a relay that
  answered and was accepted by the verifier. A fetch that reports drand unavailable had every signature
  it was given refused by the verifier; and one that reports a failed read of the chain either had the
  verifier fail on a relay's signature or ran out of time while it waited for a read.\<close>

theorem fetch_takes_verified:
  assumes "fetch_round verify n se round now arrivals limit table = (r, table')"
  shows "(\<forall>s. r = Inr s \<longrightarrow> (\<exists>k. verify k s = Inr True) \<and> (\<exists>a \<in> set arrivals. ar_reply a = Signed s))
    \<and> (\<forall>m. r = Inl (Unavailable m) \<longrightarrow>
         (\<forall>a \<in> set arrivals. \<forall>s. ar_reply a = Signed s \<longrightarrow> (\<exists>k. verify k s = Inr False)))
    \<and> (\<forall>m. r = Inl (ChainRead m) \<longrightarrow> limit = Some True
         \<or> (\<exists>a \<in> set arrivals. \<exists>s k x. ar_reply a = Signed s \<and> verify k s = Inl x))"
proof -
  define st0 where "st0 = \<lparr>fs_table = table, fs_verdicts = [], fs_calls = 0, trace_notes = [], unverified = False\<rparr>"
  obtain got st where c: "collect verify (recent n round now) se arrivals st0 = (got, st)"
    by (cases "collect verify (recent n round now) se arrivals st0")
  have "verdicts_sound verify st0" "\<not> unverified st0" by (simp_all add: st0_def verdicts_sound_def)
  then show ?thesis
    using collect_sound [OF c] assms c
    by (auto simp: fetch_round_def trace_error_def Let_def st0_def [symmetric] split: option.splits if_splits)
qed

definition sample_arrivals :: "arrival list" where
  "sample_arrivals =
     [\<lparr>ar_relay = ''a'', ar_reply = Signed [7], ar_clock = Some 100\<rparr>,
      \<lparr>ar_relay = ''b'', ar_reply = ServerError 502, ar_clock = Some 100\<rparr>,
      \<lparr>ar_relay = ''c'', ar_reply = Signed [9], ar_clock = Some 101\<rparr>,
      \<lparr>ar_relay = ''d'', ar_reply = Signed [8], ar_clock = Some 102\<rparr>]"

definition sample_verifier :: "nat \<Rightarrow> signature \<Rightarrow> string + bool" where
  "sample_verifier k s = Inr (s = [9])"

theorem fetch_takes_verified_witness:
  "\<exists>table'. fetch_round sample_verifier \<lparr>chain_hash = [], genesis = 0, period = 3\<rparr> False 2 100 sample_arrivals None [] = (Inr [9], table')
    \<and> (\<exists>k. sample_verifier k [9] = Inr True)"
proof -
  obtain table' where t: "fetch_round sample_verifier \<lparr>chain_hash = [], genesis = 0, period = 3\<rparr> False 2 100 sample_arrivals None []
      = (Inr [9], table')"
    by (simp add: fetch_round_def sample_arrivals_def judge_def verdict_on_def sample_verifier_def fail_with_def)
  show ?thesis using t fetch_takes_verified [OF t] by auto
qed

section \<open>What a fetch leaves in the circuits\<close>

text \<open>One relay's answer, judged by itself: \<open>ok\<close> says which signatures are valid.\<close>

definition own :: "(signature \<Rightarrow> bool) \<Rightarrow> bool \<Rightarrow> bool \<Rightarrow> arrival \<Rightarrow> circuit option \<Rightarrow> circuit option" where
  "own ok e se a row = (case judge (ar_reply a) e se of
      Served s \<Rightarrow> step_row (ar_relay a) (ar_clock a) (\<not> ok s) row
    | Excused _ \<Rightarrow> row
    | Faulted _ \<Rightarrow> step_row (ar_relay a) (ar_clock a) True row)"

definition heard_out :: "bool \<Rightarrow> bool \<Rightarrow> string \<Rightarrow> (signature \<times> arrival list) option \<times> fetch_state \<Rightarrow> circuit list" where
  "heard_out e se verifier c = (case c of
      (Some (s, rest), st) \<Rightarrow> settle s e se verifier rest (fs_table st)
    | (None, st) \<Rightarrow> fs_table st)"

lemma settle_rows:
  assumes "\<And>s. s = accepted \<longleftrightarrow> ok s"
  shows "row_of r (settle accepted e se verifier arrivals t) =
    fold (own ok e se) (filter (\<lambda>a. ar_relay a = r) arrivals) (row_of r t)"
proof (induction arrivals arbitrary: t)
  case Nil
  then show ?case by simp
next
  case (Cons a arrivals)
  then show ?case
    using assms by (cases "judge (ar_reply a) e se") (simp_all add: own_def row_of_record_reply)
qed

definition verdicts_exact :: "(signature \<Rightarrow> bool) \<Rightarrow> fetch_state \<Rightarrow> bool" where
  "verdicts_exact ok st = (\<forall>s b. map_of (fs_verdicts st) s = Some b \<longrightarrow> b = ok s)"

lemma verdict_on_exact:
  assumes "\<And>k s. verify k s = Inr (ok s)" and "verdicts_exact ok st"
  shows "\<exists>st1. verdict_on verify s st = (Inr (ok s), st1) \<and> verdicts_exact ok st1 \<and> fs_table st1 = fs_table st"
  using assms by (auto simp: verdict_on_def verdicts_exact_def split: option.splits)

lemma verdicts_exact_frame [simp]:
  "verdicts_exact ok (fail_with a f st) = verdicts_exact ok st"
  "verdicts_exact ok (st\<lparr>trace_notes := ns\<rparr>) = verdicts_exact ok st"
  by (simp_all add: verdicts_exact_def)

lemma collect_rows:
  assumes "\<And>k s. verify k s = Inr (ok s)" and "\<And>s s'. ok s \<Longrightarrow> ok s' \<Longrightarrow> s = s'" and "verdicts_exact ok st"
  shows "row_of r (heard_out e se verifier (collect verify e se arrivals st)) =
      fold (own ok e se) (filter (\<lambda>a. ar_relay a = r) arrivals) (row_of r (fs_table st))
    \<and> map_option fst (fst (collect verify e se arrivals st)) =
        (if \<exists>a \<in> set arrivals. \<exists>s. ar_reply a = Signed s \<and> ok s then Some (THE s. ok s) else None)"
  using assms(3)
proof (induction arrivals arbitrary: st)
  case Nil
  then show ?case by (simp add: heard_out_def)
next
  case (Cons a arrivals)
  show ?case
  proof (cases "judge (ar_reply a) e se")
    case (Served s)
    obtain st1 where v: "verdict_on verify s st = (Inr (ok s), st1)" and st1: "verdicts_exact ok st1" "fs_table st1 = fs_table st"
      using verdict_on_exact [of verify ok st s] assms(1) Cons.prems by blast
    have reply: "ar_reply a = Signed s" using Served by (simp add: judge_Served)
    show ?thesis
    proof (cases "ok s")
      case True
      have the: "(THE s. ok s) = s" using True assms(2) by blast
      have uniq: "x = s \<longleftrightarrow> ok x" for x using True assms(2) by blast
      have c: "collect verify e se (a # arrivals) st =
          (Some (s, arrivals), st1\<lparr>fs_table := record_reply (ar_relay a) (ar_clock a) None (fs_table st)\<rparr>)"
        using Served v st1 True by simp
      have "row_of r (heard_out e se verifier (collect verify e se (a # arrivals) st)) =
          fold (own ok e se) (filter (\<lambda>a. ar_relay a = r) arrivals)
            (row_of r (record_reply (ar_relay a) (ar_clock a) None (fs_table st)))"
        unfolding c heard_out_def by (simp add: settle_rows [OF uniq])
      then have "row_of r (heard_out e se verifier (collect verify e se (a # arrivals) st)) =
          fold (own ok e se) (filter (\<lambda>a. ar_relay a = r) (a # arrivals)) (row_of r (fs_table st))"
        using True Served by (simp add: row_of_record_reply own_def)
      moreover have "\<exists>x \<in> set (a # arrivals). \<exists>s. ar_reply x = Signed s \<and> ok s" using reply True by auto
      ultimately show ?thesis using c the by simp
    next
      case False
      then show ?thesis
        using Served v st1 reply Cons.IH [of "fail_with a ''signature does not verify'' st1"]
        by (auto simp: own_def row_of_record_reply)
    qed
  next
    case (Excused n)
    have "ar_reply a \<noteq> Signed s" for s using Excused judge_Served [of "ar_reply a" e se s] by auto
    then show ?thesis
      using Excused Cons.prems Cons.IH [of "st\<lparr>trace_notes := trace_notes st @ [ar_relay a @ '': '' @ n]\<rparr>"]
      by (auto simp: own_def)
  next
    case (Faulted reason)
    have "ar_reply a \<noteq> Signed s" for s using Faulted judge_Served [of "ar_reply a" e se s] by auto
    then show ?thesis
      using Faulted Cons.prems Cons.IH [of "fail_with a reason st"]
      by (auto simp: own_def row_of_record_reply)
  qed
qed

text \<open>C23: The race between the relays decides nothing but time. When the verifier always answers, and
  accepts one signature of the round at most, a fetch finds the signature exactly when some relay gave
  it, whatever order the answers arrive in; and once the relays in flight are heard out, each relay's
  circuit is what its own answer makes of it: closed by the accepted signature, counted against by
  another one or by a failure, and left as it was by an answer that is excused.\<close>

theorem circuits_judged_alone:
  assumes "\<And>k s. verify k s = Inr (ok s)" and "\<And>s s'. ok s \<Longrightarrow> ok s' \<Longrightarrow> s = s'"
    and "collect verify e se arrivals
      \<lparr>fs_table = table, fs_verdicts = [], fs_calls = 0, trace_notes = [], unverified = False\<rparr> = (got, st)"
  shows "(case got of None \<Rightarrow> (\<nexists>a s. a \<in> set arrivals \<and> ar_reply a = Signed s \<and> ok s)
                    | Some (s, _) \<Rightarrow> ok s \<and> (\<exists>a. a \<in> set arrivals \<and> ar_reply a = Signed s))
    \<and> row_of r (heard_out e se verifier (got, st)) =
        fold (own ok e se) (filter (\<lambda>a. ar_relay a = r) arrivals) (row_of r table)"
proof -
  define st0 where "st0 = \<lparr>fs_table = table, fs_verdicts = [], fs_calls = 0, trace_notes = [], unverified = False\<rparr>"
  have c: "collect verify e se arrivals st0 = (got, st)" using assms(3) by (simp add: st0_def)
  have ex: "verdicts_exact ok st0" and tb: "fs_table st0 = table" by (simp_all add: st0_def verdicts_exact_def)
  have rows: "row_of r (heard_out e se verifier (got, st)) =
        fold (own ok e se) (filter (\<lambda>a. ar_relay a = r) arrivals) (row_of r table)"
    using collect_rows [of verify ok st0 r e se verifier arrivals, OF assms(1,2) ex] unfolding c tb by (rule conjunct1)
  have found: "map_option fst got =
      (if \<exists>a \<in> set arrivals. \<exists>s. ar_reply a = Signed s \<and> ok s then Some (THE s. ok s) else None)"
    using collect_rows [of verify ok st0 r e se verifier arrivals, OF assms(1,2) ex] unfolding c fst_conv by (rule conjunct2)
  have the: "(THE s. ok s) = s" if "ok s" for s using that assms(2) by blast
  have "case got of None \<Rightarrow> (\<nexists>a s. a \<in> set arrivals \<and> ar_reply a = Signed s \<and> ok s)
                  | Some (s, _) \<Rightarrow> ok s \<and> (\<exists>a. a \<in> set arrivals \<and> ar_reply a = Signed s)"
    using found the by (cases got) (auto split: if_splits)
  then show ?thesis using rows by blast
qed

theorem circuits_judged_alone_witness:
  "\<exists>got st. collect sample_verifier False False sample_arrivals
      \<lparr>fs_table = [], fs_verdicts = [], fs_calls = 0, trace_notes = [], unverified = False\<rparr> = (got, st)
    \<and> row_of ''d'' (heard_out False False ''the coordinator'' (got, st)) =
        Some \<lparr>ci_url = ''d'', ci_failures = 1, ci_open_until = 0\<rparr>"
proof -
  obtain got st where c: "collect sample_verifier False False sample_arrivals
      \<lparr>fs_table = [], fs_verdicts = [], fs_calls = 0, trace_notes = [], unverified = False\<rparr> = (got, st)"
    by (metis surj_pair)
  have "row_of ''d'' (heard_out False False ''the coordinator'' (got, st)) =
      fold (own (\<lambda>s. s = [9]) False False) (filter (\<lambda>a. ar_relay a = ''d'') sample_arrivals) (row_of ''d'' [])"
    using circuits_judged_alone [of sample_verifier "\<lambda>s. s = [9]", OF _ _ c] by (simp add: sample_verifier_def)
  also have "\<dots> = Some \<lparr>ci_url = ''d'', ci_failures = 1, ci_open_until = 0\<rparr>"
    by (simp add: sample_arrivals_def own_def judge_def step_row_def sat_add_def width_defs
        BREAKER_FAILURES_def BREAKER_COOLDOWN_SECONDS_def)
  finally show ?thesis using c by blast
qed

end
