(* ===== verification/Config.thy ===== *)
theory Config
  imports Jobs Drand
begin

text \<open>
  The configuration (\<open>config.rs\<close>, and the telemetry settings of \<open>telemetry.rs\<close>): a keeper's role and its
  timing, the chain settings and the chain policies they are held to, and \<open>Config::load\<close> as a
  function of the environment. An environment is a function from a variable's name to its text; what the
  URL, hash and address packages and the standard library's IP address parser make of a text are the
  fields of \<open>parsers\<close>. An arithmetic overflow, which the release build stops at, is a refusal as well.
\<close>

datatype config_error =
    Missing string
  | Invalid string
  | OutOfRange string
  | OnlyWith string
  | NotAllowed string
  | Unset string
  | Misfit string
  | Relays relay_error

type_synonym environment = "string \<Rightarrow> string option"

record parsers =
  url_parse :: "string \<Rightarrow> url_view option"
  hash_parse :: "string \<Rightarrow> nat option"
  address_parse :: "string \<Rightarrow> nat option"
  header_value :: "string \<Rightarrow> string option"
  ip_loopback :: "string \<Rightarrow> bool"

section \<open>Roles\<close>

record follower_plan =
  fp_delay :: nat
  fp_queue_join :: nat
  fp_liveness :: nat
  fp_rank :: nat
  fp_lanes :: nat

datatype role = Primary | Follower follower_plan

record follower_settings =
  fs_delay :: "string option"
  fs_busy_delay :: "string option"
  fs_queue_join :: "string option"
  fs_liveness :: "string option"
  fs_rank :: "string option"
  fs_lanes :: "string option"

definition FOLLOWER_DELAY_RANGE :: "nat \<times> nat" where "FOLLOWER_DELAY_RANGE = (5, 30)"
definition PRIMARY_LIVENESS_RANGE :: "nat \<times> nat" where "PRIMARY_LIVENESS_RANGE = (5, 30)"
definition FOLLOWER_QUEUE_JOIN_RANGE :: "nat \<times> nat" where "FOLLOWER_QUEUE_JOIN_RANGE = (1, 10000)"
definition MAX_FOLLOWER_LANES :: nat where "MAX_FOLLOWER_LANES = 4"
definition SAFETY_AGE_SECONDS :: nat where "SAFETY_AGE_SECONDS = 20"
definition FOLLOWER_LEAVE_PENDING :: nat where "FOLLOWER_LEAVE_PENDING = 32"
definition FOLLOWER_LEAVE_AGE_SECONDS :: nat where "FOLLOWER_LEAVE_AGE_SECONDS = 10"
definition FULFILLMENT_ROUND_SECONDS :: nat where "FULFILLMENT_ROUND_SECONDS = 10"

definition within :: "nat \<times> nat \<Rightarrow> nat \<Rightarrow> bool" where
  "within limits n = (fst limits \<le> n \<and> n \<le> snd limits)"

definition role_name :: "role \<Rightarrow> string" where
  "role_name r = (case r of Primary \<Rightarrow> ''primary'' | Follower _ \<Rightarrow> ''follower'')"

definition is_follower :: "role \<Rightarrow> bool" where
  "is_follower r = (case r of Primary \<Rightarrow> False | Follower _ \<Rightarrow> True)"

definition role_number :: "string option \<Rightarrow> string \<Rightarrow> string \<Rightarrow> config_error + nat" where
  "role_number value' default' name =
     ok_or (Invalid name) (parse_uint u64_max (trim (case value' of Some v \<Rightarrow> v | None \<Rightarrow> default')))"

definition parse_role :: "string option \<Rightarrow> follower_settings \<Rightarrow> nat \<Rightarrow> config_error + role" where
  "parse_role role' t margin =
     ensure (fs_busy_delay t = None) (NotAllowed ''FOLLOWER_BUSY_DELAY_SECONDS'')
      (let word = (case role' of Some r \<Rightarrow> trim r | None \<Rightarrow> ''primary'') in
       if word = ''primary'' then
         ensure (fs_delay t = None \<and> fs_queue_join t = None \<and> fs_liveness t = None \<and> fs_rank t = None \<and> fs_lanes t = None)
           (OnlyWith ''KEEPER_ROLE'') (Inr Primary)
       else if word = ''follower'' then
         bindR (role_number (fs_delay t) ''20'' ''FOLLOWER_DELAY_SECONDS'') (\<lambda>delay.
         bindR (role_number (fs_queue_join t) ''150'' ''FOLLOWER_QUEUE_JOIN'') (\<lambda>queue_join.
         bindR (role_number (fs_liveness t) ''10'' ''PRIMARY_LIVENESS_SECONDS'') (\<lambda>liveness.
         bindR (role_number (fs_rank t) ''0'' ''FOLLOWER_RANK'') (\<lambda>rank.
         bindR (role_number (fs_lanes t) ''1'' ''FOLLOWER_LANES'') (\<lambda>lanes.
           ensure (within FOLLOWER_DELAY_RANGE delay) (OutOfRange ''FOLLOWER_DELAY_SECONDS'')
           (ensure (delay + margin + FULFILLMENT_ROUND_SECONDS \<le> RESPONSE_TIMEOUT_SECONDS)
              (Misfit ''FOLLOWER_DELAY_SECONDS'')
           (ensure (margin + FULFILLMENT_ROUND_SECONDS \<le> SAFETY_AGE_SECONDS) (Misfit ''SEND_MARGIN_SECONDS'')
           (ensure (within FOLLOWER_QUEUE_JOIN_RANGE queue_join) (OutOfRange ''FOLLOWER_QUEUE_JOIN'')
           (ensure (within PRIMARY_LIVENESS_RANGE liveness) (OutOfRange ''PRIMARY_LIVENESS_SECONDS'')
           (ensure (within (1, MAX_FOLLOWER_LANES) lanes \<and> rank < lanes) (OutOfRange ''FOLLOWER_LANES'')
             (Inr (Follower \<lparr>fp_delay = delay, fp_queue_join = queue_join, fp_liveness = liveness,
                             fp_rank = rank, fp_lanes = lanes\<rparr>))))))))))))
       else Inl (Invalid ''KEEPER_ROLE''))"

section \<open>Settings\<close>

definition REMOVED_SETTINGS :: "(string \<times> string) list" where
  "REMOVED_SETTINGS = [(''EPOCH_API_ENDPOINTS'',
     ''signed API recipes are not supported since 0.4.1, and epoch rounds are read from DRAND_RELAYS'')]"

definition removed_settings :: "(string \<Rightarrow> bool) \<Rightarrow> (string \<times> string) list" where
  "removed_settings is_set = filter (\<lambda>(name, _). is_set name) REMOVED_SETTINGS"

datatype gas_model = Standard | Arbitrum

datatype coordinator_kind = Epoch | Round

datatype index_finality = IndexFinalized | IndexSoft

definition kind_word :: "coordinator_kind \<Rightarrow> string" where
  "kind_word k = (case k of Epoch \<Rightarrow> ''epoch'' | Round \<Rightarrow> ''round'')"

definition COORDINATOR_KINDS :: "(string \<times> coordinator_kind) list" where
  "COORDINATOR_KINDS = [(''epoch'', Epoch), (''round'', Round)]"

definition INDEX_UNUSED :: string where
  "INDEX_UNUSED = ''the explorer index follows the finalized head and reads at most 128 new blocks a scan with a lookback of 12''"

definition EPOCH_UNUSED :: string where
  "EPOCH_UNUSED = ''an epoch coordinator's keeper keeps its own subscription limits and sweep reserve''"

definition unused_settings :: "coordinator_kind \<Rightarrow> (string \<Rightarrow> bool) \<Rightarrow> (string \<times> string) list" where
  "unused_settings kind is_set = filter (\<lambda>(name, _). is_set name)
     ([(''INDEX_FINALITY'', INDEX_UNUSED), (''INDEX_MAX_BLOCKS'', INDEX_UNUSED),
       (''INDEX_LOOKBACK_BLOCKS'', INDEX_UNUSED)]
      @ (if kind = Epoch then [(''WS_SILENCE_SECONDS'', EPOCH_UNUSED), (''WS_BACKFILL_MAX_BLOCKS'', EPOCH_UNUSED),
           (''WS_BACKFILL_RANGE'', EPOCH_UNUSED), (''SWEEP_MIN_RESERVE_WEI'', EPOCH_UNUSED)] else []))"

fun keep_first :: "string list \<Rightarrow> string list \<Rightarrow> string list" where
  "keep_first seen [] = []"
| "keep_first seen (u # us) =
     (let k = trim_end_matches CHR ''/'' u in
      if k \<in> set seen then keep_first seen us else u # keep_first (k # seen) us)"

definition distinct_urls :: "string list \<Rightarrow> string list" where
  "distinct_urls urls = keep_first [] urls"

definition EPOCH_ONLY_SETTINGS :: "string list" where
  "EPOCH_ONLY_SETTINGS = [''EXPECTED_REGISTRY_IMPLEMENTATION_CODE_HASH'',
     ''APPROVED_NEXT_REGISTRY_IMPLEMENTATION_CODE_HASH'', ''REGISTRY_KIND'', ''BLOCK_NUDGE'',
     ''BLOCK_NUDGE_AFTER_MS'', ''EPOCH_API_ENDPOINTS'']"

definition setting :: "environment \<Rightarrow> string \<Rightarrow> string option" where
  "setting get name = (case get name of
      None \<Rightarrow> None
    | Some v \<Rightarrow> if trim v = [] then None else Some (trim v))"

definition choice :: "environment \<Rightarrow> string \<Rightarrow> 't \<Rightarrow> (string \<times> 't) list \<Rightarrow> config_error + 't" where
  "choice get name default' options = (case setting get name of
      None \<Rightarrow> Inr default'
    | Some text' \<Rightarrow> ok_or (Invalid name) (map_of options text'))"

definition bounded :: "environment \<Rightarrow> string \<Rightarrow> nat \<times> nat \<Rightarrow> config_error + nat option" where
  "bounded get name limits = (case setting get name of
      None \<Rightarrow> Inr None
    | Some text' \<Rightarrow> bindR (ok_or (Invalid name) (parse_uint u64_max text')) (\<lambda>v.
        ensure (within limits v) (OutOfRange name) (Inr (Some v))))"

section \<open>Chain settings\<close>

definition SOFT_DEPTH_RANGE :: "nat \<times> nat" where "SOFT_DEPTH_RANGE = (0, 16)"
definition FINALITY_AUDIT_INTERVAL_RANGE :: "nat \<times> nat" where "FINALITY_AUDIT_INTERVAL_RANGE = (5, 300)"
definition FINALITY_AUDIT_MAX_LAG_RANGE :: "nat \<times> nat" where "FINALITY_AUDIT_MAX_LAG_RANGE = (600, 7200)"
definition L1_GAS_MARGIN_RANGE :: "nat \<times> nat" where "L1_GAS_MARGIN_RANGE = (0, 20000)"
definition SEQUENCER_DROP_RANGE :: "nat \<times> nat" where "SEQUENCER_DROP_RANGE = (2, 60)"
definition WS_SILENCE_RANGE :: "nat \<times> nat" where "WS_SILENCE_RANGE = (5, 600)"
definition WS_BACKFILL_MAX_BLOCKS_RANGE :: "nat \<times> nat" where "WS_BACKFILL_MAX_BLOCKS_RANGE = (1, 100000)"
definition WS_BACKFILL_RANGE_BLOCKS :: "nat \<times> nat" where "WS_BACKFILL_RANGE_BLOCKS = (1, 10000)"
definition INDEX_MAX_BLOCKS_RANGE :: "nat \<times> nat" where "INDEX_MAX_BLOCKS_RANGE = (1, 10000)"
definition INDEX_LOOKBACK_RANGE :: "nat \<times> nat" where "INDEX_LOOKBACK_RANGE = (1, 10000)"
definition u128_max :: nat where "u128_max = 2 ^ 128 - 1"

record chain_settings =
  cs_finality_mode :: finality_mode
  soft_depth_blocks :: nat
  finality_audit_interval_seconds :: nat
  finality_audit_max_lag_seconds :: nat
  cs_gas_model :: gas_model
  l1_gas_margin_bps :: nat
  cs_coordinator_kind :: coordinator_kind
  sequencer_drop_seconds :: "nat option"
  sweep_min_reserve_wei :: nat
  ws_silence_seconds :: nat
  ws_backfill_max_blocks :: nat
  ws_backfill_range :: nat
  cs_index_finality :: index_finality
  index_max_blocks :: nat
  index_lookback_blocks :: nat

definition default_chain_settings :: chain_settings where
  "default_chain_settings = \<lparr>cs_finality_mode = Finalized, soft_depth_blocks = 0,
     finality_audit_interval_seconds = 30, finality_audit_max_lag_seconds = 2700, cs_gas_model = Standard,
     l1_gas_margin_bps = 2500, cs_coordinator_kind = Epoch, sequencer_drop_seconds = None,
     sweep_min_reserve_wei = 1000000000000000000, ws_silence_seconds = 20, ws_backfill_max_blocks = 5000,
     ws_backfill_range = 500, cs_index_finality = IndexFinalized, index_max_blocks = 128,
     index_lookback_blocks = 12\<rparr>"

record chain_policy =
  po_name :: string
  po_ids :: "nat list"
  po_finality :: "finality_mode option"
  po_gas_model :: "gas_model option"
  po_coordinator :: "coordinator_kind option"
  po_explicit :: "(string \<times> string) list"
  po_tipless :: bool
  po_min_l1_margin_bps :: "nat option"
  po_min_fee_coverage_bps :: "nat option"

definition ARC_SCALED :: "(string \<times> string) list" where
  "ARC_SCALED = [(''MAX_FEE_PER_GAS_WEI'', ''100 gwei''), (''MAX_TX_COST_WEI'', ''0.2 of the native token''),
     (''MIN_PRIORITY_FEE_WEI'', ''1 gwei''), (''MAX_PRIORITY_FEE_WEI'', ''50 gwei''),
     (''SWEEP_MIN_RESERVE_WEI'', ''1 of the native token''), (''NONCE_STUCK_SECONDS'', ''120 seconds''),
     (''MAX_GAS'', ''3000000 gas'')]"

definition ROBINHOOD_EXPLICIT :: "(string \<times> string) list" where
  "ROBINHOOD_EXPLICIT = [(''MAX_FEE_PER_GAS_WEI'', ''100 gwei''), (''MAX_TX_COST_WEI'', ''0.2 of the native token''),
     (''MIN_PRIORITY_FEE_WEI'', ''1 gwei''), (''MAX_PRIORITY_FEE_WEI'', ''50 gwei''),
     (''SWEEP_MIN_RESERVE_WEI'', ''1 of the native token''), (''NONCE_STUCK_SECONDS'', ''120 seconds''),
     (''MAX_GAS'', ''3000000 gas''), (''FEE_COVERAGE_BPS'', ''10000 bps'')]"

definition ROBINHOOD_MIN_FEE_COVERAGE_BPS :: nat where "ROBINHOOD_MIN_FEE_COVERAGE_BPS = 12500"

definition CHAIN_POLICIES :: "chain_policy list" where
  "CHAIN_POLICIES =
     [\<lparr>po_name = ''Arc'', po_ids = [5042, 5042002], po_finality = Some Finalized, po_gas_model = Some Standard,
       po_coordinator = Some Epoch, po_explicit = [], po_tipless = False, po_min_l1_margin_bps = None,
       po_min_fee_coverage_bps = None\<rparr>,
      \<lparr>po_name = ''Robinhood Chain'', po_ids = [4663, 46630], po_finality = Some Soft, po_gas_model = Some Arbitrum,
       po_coordinator = Some Round, po_explicit = ROBINHOOD_EXPLICIT, po_tipless = True,
       po_min_l1_margin_bps = Some 1000, po_min_fee_coverage_bps = Some ROBINHOOD_MIN_FEE_COVERAGE_BPS\<rparr>,
      \<lparr>po_name = ''the local test chain'', po_ids = [31337], po_finality = None, po_gas_model = None,
       po_coordinator = None, po_explicit = [], po_tipless = False, po_min_l1_margin_bps = None,
       po_min_fee_coverage_bps = None\<rparr>,
      \<lparr>po_name = ''nitro-testnode'', po_ids = [412346], po_finality = None, po_gas_model = None,
       po_coordinator = None, po_explicit = [], po_tipless = False, po_min_l1_margin_bps = None,
       po_min_fee_coverage_bps = None\<rparr>]"

definition policy_of :: "nat \<Rightarrow> chain_policy option" where
  "policy_of chain_id = find (\<lambda>p. chain_id \<in> set (po_ids p)) CHAIN_POLICIES"

definition coordinator_kind_of :: "environment \<Rightarrow> config_error + coordinator_kind" where
  "coordinator_kind_of get = choice get ''COORDINATOR_KIND'' Epoch COORDINATOR_KINDS"

text \<open>The \<open>for\<close> loops that refuse the first setting of a list that does not satisfy a condition.\<close>

fun each :: "('a \<Rightarrow> bool) \<Rightarrow> ('a \<Rightarrow> config_error) \<Rightarrow> 'a list \<Rightarrow> config_error + unit" where
  "each P e [] = Inr ()"
| "each P e (x # xs) = ensure (P x) (e x) (each P e xs)"

definition required_by :: "'t option \<Rightarrow> 't \<Rightarrow> bool" where
  "required_by policy' value' = (case policy' of None \<Rightarrow> True | Some r \<Rightarrow> value' = r)"

definition check_chain_policy :: "nat \<Rightarrow> chain_settings \<Rightarrow> config_error + unit" where
  "check_chain_policy chain_id s = (case policy_of chain_id of
      None \<Rightarrow> ensure (cs_coordinator_kind s = Epoch) (NotAllowed ''COORDINATOR_KIND'')
               (ensure (cs_finality_mode s = Finalized) (NotAllowed ''FINALITY_MODE'') (Inr ()))
    | Some p \<Rightarrow>
        ensure (required_by (po_finality p) (cs_finality_mode s)) (NotAllowed ''FINALITY_MODE'')
        (ensure (required_by (po_gas_model p) (cs_gas_model s)) (NotAllowed ''GAS_MODEL'')
        (ensure (required_by (po_coordinator p) (cs_coordinator_kind s)) (NotAllowed ''COORDINATOR_KIND'')
        (ensure (case po_min_l1_margin_bps p of None \<Rightarrow> True | Some least \<Rightarrow> l1_gas_margin_bps s \<ge> least)
           (NotAllowed ''L1_GAS_MARGIN_BPS'') (Inr ())))))"

text \<open>What \<open>resolve\<close> holds the settings to once it has read them: a setting that belongs to one mode
  is refused without it.\<close>

definition resolve_checks :: "nat \<Rightarrow> environment \<Rightarrow> nat option \<Rightarrow> nat option \<Rightarrow> nat option \<Rightarrow> nat option
    \<Rightarrow> chain_settings \<Rightarrow> config_error + chain_settings" where
  "resolve_checks chain_id get soft_depth audit_interval audit_max_lag l1_margin result =
     ensure (ws_backfill_range result \<le> ws_backfill_max_blocks result) (Misfit ''WS_BACKFILL_RANGE'')
     (bindR (check_chain_policy chain_id result) (\<lambda>_.
      bindR (each (\<lambda>(_, present). \<not> present \<or> cs_finality_mode result = Soft) (\<lambda>(name, _). OnlyWith name)
               [(''SOFT_DEPTH_BLOCKS'', soft_depth \<noteq> None), (''FINALITY_AUDIT_INTERVAL_SECONDS'', audit_interval \<noteq> None),
                (''FINALITY_AUDIT_MAX_LAG_SECONDS'', audit_max_lag \<noteq> None)]) (\<lambda>_.
      bindR (each (\<lambda>(_, present). \<not> present \<or> cs_gas_model result = Arbitrum) (\<lambda>(name, _). OnlyWith name)
               [(''L1_GAS_MARGIN_BPS'', l1_margin \<noteq> None),
                (''SEQUENCER_DROP_SECONDS'', sequencer_drop_seconds result \<noteq> None)]) (\<lambda>_.
      ensure (cs_index_finality result = IndexFinalized \<or> cs_finality_mode result = Soft) (OnlyWith ''INDEX_FINALITY'')
      (bindR (if cs_coordinator_kind result = Round
              then each (\<lambda>name. setting get name = None) NotAllowed EPOCH_ONLY_SETTINGS else Inr ())
         (\<lambda>_. Inr result))))))"

definition resolve :: "nat \<Rightarrow> environment \<Rightarrow> config_error + chain_settings" where
  "resolve chain_id get =
     (let d = default_chain_settings; dflt = (\<lambda>o' v. case o' of Some x \<Rightarrow> x | None \<Rightarrow> v) in
      bindR (choice get ''FINALITY_MODE'' (cs_finality_mode d) [(''finalized'', Finalized), (''soft'', Soft)]) (\<lambda>mode.
      bindR (bounded get ''SOFT_DEPTH_BLOCKS'' SOFT_DEPTH_RANGE) (\<lambda>soft_depth.
      bindR (bounded get ''FINALITY_AUDIT_INTERVAL_SECONDS'' FINALITY_AUDIT_INTERVAL_RANGE) (\<lambda>audit_interval.
      bindR (bounded get ''FINALITY_AUDIT_MAX_LAG_SECONDS'' FINALITY_AUDIT_MAX_LAG_RANGE) (\<lambda>audit_max_lag.
      bindR (choice get ''GAS_MODEL'' (cs_gas_model d) [(''standard'', Standard), (''arbitrum'', Arbitrum)]) (\<lambda>gas'.
      bindR (bounded get ''L1_GAS_MARGIN_BPS'' L1_GAS_MARGIN_RANGE) (\<lambda>l1_margin.
      bindR (coordinator_kind_of get) (\<lambda>kind'.
      bindR (bounded get ''SEQUENCER_DROP_SECONDS'' SEQUENCER_DROP_RANGE) (\<lambda>sequencer_drop.
      bindR (case setting get ''SWEEP_MIN_RESERVE_WEI'' of
               Some t \<Rightarrow> ok_or (Invalid ''SWEEP_MIN_RESERVE_WEI'') (parse_uint u128_max t)
             | None \<Rightarrow> Inr (sweep_min_reserve_wei d)) (\<lambda>reserve.
      bindR (bounded get ''WS_SILENCE_SECONDS'' WS_SILENCE_RANGE) (\<lambda>ws_silence.
      bindR (bounded get ''WS_BACKFILL_MAX_BLOCKS'' WS_BACKFILL_MAX_BLOCKS_RANGE) (\<lambda>ws_backfill_max.
      bindR (bounded get ''WS_BACKFILL_RANGE'' WS_BACKFILL_RANGE_BLOCKS) (\<lambda>ws_range.
      bindR (choice get ''INDEX_FINALITY'' (cs_index_finality d)
               [(''finalized'', IndexFinalized), (''soft'', IndexSoft)]) (\<lambda>index'.
      bindR (bounded get ''INDEX_MAX_BLOCKS'' INDEX_MAX_BLOCKS_RANGE) (\<lambda>index_max.
      bindR (bounded get ''INDEX_LOOKBACK_BLOCKS'' INDEX_LOOKBACK_RANGE) (\<lambda>index_lookback.
      resolve_checks chain_id get soft_depth audit_interval audit_max_lag l1_margin
        \<lparr>cs_finality_mode = mode, soft_depth_blocks = dflt soft_depth (soft_depth_blocks d),
         finality_audit_interval_seconds = dflt audit_interval (finality_audit_interval_seconds d),
         finality_audit_max_lag_seconds = dflt audit_max_lag (finality_audit_max_lag_seconds d),
         cs_gas_model = gas', l1_gas_margin_bps = dflt l1_margin (l1_gas_margin_bps d),
         cs_coordinator_kind = kind', sequencer_drop_seconds = sequencer_drop, sweep_min_reserve_wei = reserve,
         ws_silence_seconds = dflt ws_silence (ws_silence_seconds d),
         ws_backfill_max_blocks = dflt ws_backfill_max (ws_backfill_max_blocks d),
         ws_backfill_range = dflt ws_range (ws_backfill_range d), cs_index_finality = index',
         index_max_blocks = dflt index_max (index_max_blocks d),
         index_lookback_blocks = dflt index_lookback (index_lookback_blocks d)\<rparr>))))))))))))))))"

definition check_tip :: "environment \<Rightarrow> string \<Rightarrow> config_error + unit" where
  "check_tip get name =
     bindR (ok_or (Unset name) (setting get name)) (\<lambda>t.
     bindR (ok_or (Invalid name) (parse_uint u128_max t)) (\<lambda>tip.
       ensure (tip = 0) (NotAllowed name) (Inr ())))"

definition check_policy_economics :: "chain_policy \<Rightarrow> environment \<Rightarrow> config_error + unit" where
  "check_policy_economics p get =
     bindR (each (\<lambda>(name, _). setting get name \<noteq> None) (\<lambda>(name, _). Unset name) (po_explicit p)) (\<lambda>_.
     bindR (if po_tipless p
            then foldR (\<lambda>name _. check_tip get name) [''MIN_PRIORITY_FEE_WEI'', ''MAX_PRIORITY_FEE_WEI''] ()
            else Inr ()) (\<lambda>_.
       case po_min_fee_coverage_bps p of
         None \<Rightarrow> Inr ()
       | Some least \<Rightarrow>
           bindR (ok_or (Unset ''FEE_COVERAGE_BPS'') (setting get ''FEE_COVERAGE_BPS'')) (\<lambda>t.
           bindR (ok_or (Invalid ''FEE_COVERAGE_BPS'') (parse_uint u64_max t)) (\<lambda>coverage.
             ensure (coverage \<ge> least) (NotAllowed ''FEE_COVERAGE_BPS'') (Inr ())))))"

definition check_economics :: "nat \<Rightarrow> environment \<Rightarrow> config_error + unit" where
  "check_economics chain_id get =
     bindR (coordinator_kind_of get) (\<lambda>kind'.
     bindR (case policy_of chain_id of None \<Rightarrow> Inr () | Some p \<Rightarrow> check_policy_economics p get) (\<lambda>_.
       if kind' = Round
       then each (\<lambda>(name, _). setting get name \<noteq> None) (\<lambda>(name, _). Unset name) ARC_SCALED else Inr ()))"

section \<open>Single settings\<close>

definition IDLE_HEARTBEAT_RANGE :: "nat \<times> nat" where "IDLE_HEARTBEAT_RANGE = (2, 30)"
definition IDLE_HEARTBEAT_DEFAULT :: nat where "IDLE_HEARTBEAT_DEFAULT = 30"
definition IDLE_HEARTBEAT :: nat where "IDLE_HEARTBEAT = 5"
definition CANCEL_GAS :: nat where "CANCEL_GAS = 21000"
definition CANCEL_GAS_BOUND :: nat where "CANCEL_GAS_BOUND = 100000"

definition idle_heartbeat :: "environment \<Rightarrow> coordinator_kind \<Rightarrow> nat \<Rightarrow> config_error + nat" where
  "idle_heartbeat get kind' margin =
     bindR (bounded get ''IDLE_HEARTBEAT_SECONDS'' IDLE_HEARTBEAT_RANGE) (\<lambda>value'.
       if kind' = Epoch then ensure (value' = None) (OnlyWith ''IDLE_HEARTBEAT_SECONDS'') (Inr IDLE_HEARTBEAT)
       else let seconds = (case value' of Some v \<Rightarrow> v | None \<Rightarrow> IDLE_HEARTBEAT_DEFAULT) in
         ensure (seconds + margin + FULFILLMENT_ROUND_SECONDS \<le> RESPONSE_TIMEOUT_SECONDS)
           (Misfit ''IDLE_HEARTBEAT_SECONDS'') (Inr seconds))"

definition approved_next :: "parsers \<Rightarrow> string \<Rightarrow> string option \<Rightarrow> config_error + nat option" where
  "approved_next ps name value' = (case value' of
      None \<Rightarrow> Inr None
    | Some v \<Rightarrow> if trim v = [] then Inr None
        else bindR (ok_or (Invalid name) (hash_parse ps (trim v))) (\<lambda>h.
               ensure (h \<noteq> 0) (NotAllowed name) (Inr (Some h))))"

definition validate_fulfill_batch_max :: "nat \<Rightarrow> config_error + nat" where
  "validate_fulfill_batch_max v = ensure (within (1, MAX_BATCH_MEMBERS) v) (OutOfRange ''FULFILL_BATCH_MAX'') (Inr v)"

definition validate_fee_coverage_bps :: "nat \<Rightarrow> config_error + nat" where
  "validate_fee_coverage_bps v = ensure (v \<le> 100000) (OutOfRange ''FEE_COVERAGE_BPS'') (Inr v)"

definition validate_priority_bounds :: "nat \<Rightarrow> nat \<Rightarrow> nat \<Rightarrow> config_error + unit" where
  "validate_priority_bounds lo hi max_fee =
     ensure (lo \<le> hi \<and> hi \<le> max_fee) (Misfit ''MIN_PRIORITY_FEE_WEI'') (Inr ())"

definition recovery_budget :: "nat \<Rightarrow> nat \<Rightarrow> nat \<Rightarrow> nat \<Rightarrow> config_error + unit" where
  "recovery_budget fulfill cancel max_cost cancel_gas =
     ensure (fulfill * 9 \<le> u128_max) (Misfit ''MAX_FEE_PER_GAS_WEI'')
      (let minimum = fulfill * 9 div 8 + 1 in
       ensure (fulfill > 0 \<and> cancel \<ge> minimum) (Misfit ''CANCEL_MAX_FEE_PER_GAS_WEI'')
       (ensure (minimum * cancel_gas \<le> u128_max \<and> minimum * cancel_gas \<le> max_cost) (Misfit ''MAX_TX_COST_WEI'') (Inr ())))"

definition validate_recovery_budget :: "nat \<Rightarrow> nat \<Rightarrow> nat \<Rightarrow> config_error + unit" where
  "validate_recovery_budget fulfill cancel max_cost = recovery_budget fulfill cancel max_cost CANCEL_GAS"

definition validate_arbitrum_recovery_budget :: "nat \<Rightarrow> nat \<Rightarrow> nat \<Rightarrow> config_error + unit" where
  "validate_arbitrum_recovery_budget fulfill cancel max_cost = recovery_budget fulfill cancel max_cost CANCEL_GAS_BOUND"

section \<open>Telemetry settings\<close>

record telemetry_settings =
  te_url :: url_view
  te_authorization :: string
  te_interval :: nat

definition is_ascii_graphic :: "char \<Rightarrow> bool" where
  "is_ascii_graphic c = (33 \<le> (of_char c :: nat) \<and> (of_char c :: nat) \<le> 126)"

definition trim_brackets :: "string \<Rightarrow> string" where
  "trim_brackets s = (let b = (\<lambda>c. c = CHR ''['' \<or> c = CHR '']'') in rev (dropWhile b (rev (dropWhile b s))))"

definition telemetry_parse :: "parsers \<Rightarrow> string option \<Rightarrow> string option \<Rightarrow> string option \<Rightarrow> nat
    \<Rightarrow> config_error + telemetry_settings option" where
  "telemetry_parse ps url' key' interval chain =
     (let given = (\<lambda>o'. case o' of Some v \<Rightarrow> (if trim v = [] then None else Some v) | None \<Rightarrow> None) in
      case (given url', given key') of
        (None, None) \<Rightarrow> Inr None
      | (Some u, Some key) \<Rightarrow>
          bindR (ok_or (Invalid ''HEALTH_API_URL'') (url_parse ps u)) (\<lambda>url.
            let loopback = (case host_str url of Some h \<Rightarrow> ip_loopback ps (trim_brackets h) | None \<Rightarrow> False) in
            ensure (scheme url = ''https'' \<or> (chain = 31337 \<and> scheme url = ''http'' \<and> loopback))
              (NotAllowed ''HEALTH_API_URL'')
            (ensure (host_str url \<noteq> None \<and> username url = [] \<and> password url = None \<and> fragment url = None \<and> query url = None)
              (NotAllowed ''HEALTH_API_URL'')
            (ensure (key \<noteq> [] \<and> length key \<le> 4096 \<and> list_all is_ascii_graphic key) (Invalid ''HEALTH_API_KEY'')
            (bindR (ok_or (Invalid ''HEALTH_API_KEY'') (header_value ps (''Bearer '' @ key))) (\<lambda>authorization.
             bindR (ok_or (Invalid ''HEALTH_INTERVAL_SECONDS'')
                      (parse_uint u64_max (case interval of Some t \<Rightarrow> t | None \<Rightarrow> ''30''))) (\<lambda>seconds.
               ensure (within (if chain = 31337 then 1 else 5, 3600) seconds) (OutOfRange ''HEALTH_INTERVAL_SECONDS'')
                 (Inr (Some \<lparr>te_url = url, te_authorization = authorization, te_interval = seconds\<rparr>))))))))
      | _ \<Rightarrow> Inl (OnlyWith ''HEALTH_API_URL''))"

definition telemetry_load :: "parsers \<Rightarrow> environment \<Rightarrow> nat \<Rightarrow> config_error + telemetry_settings option" where
  "telemetry_load ps get chain =
     telemetry_parse ps (get ''HEALTH_API_URL'') (get ''HEALTH_API_KEY'') (get ''HEALTH_INTERVAL_SECONDS'') chain"

section \<open>The whole configuration\<close>

record config =
  c_role :: role
  c_telemetry :: "telemetry_settings option"
  c_rpc_urls :: "string list"
  c_ws_urls :: "string list"
  c_chain_id :: nat
  c_coordinator :: nat
  c_db :: string
  c_lock_dir :: string
  c_tx_key_file :: string
  c_vrf_key_file :: string
  c_send :: bool
  c_once :: bool
  c_poll_ms :: nat
  c_idle_poll_ms :: nat
  c_idle_heartbeat :: nat
  c_max_tick_failures :: nat
  c_tick_timeout_seconds :: nat
  c_margin :: nat
  c_max_gas :: nat
  c_max_fee :: nat
  c_cancel_max_fee :: nat
  c_max_cost :: nat
  c_min_priority_fee :: nat
  c_max_priority_fee :: nat
  c_fee_coverage_bps :: nat
  c_nonce_stuck_seconds :: nat
  c_progress_stuck_seconds :: nat
  c_fulfill_batch_max :: nat
  c_code_hash :: "nat option"
  c_protocol_hash :: "nat option"
  c_implementation_code_hash :: "nat option"
  c_registry_implementation_code_hash :: "nat option"
  c_approved_next :: "nat option"
  c_approved_next_registry :: "nat option"
  c_drand_relays :: "string list"
  c_chain :: chain_settings

definition required :: "environment \<Rightarrow> string \<Rightarrow> config_error + string" where
  "required get name = ok_or (Missing name) (get name)"

definition number :: "environment \<Rightarrow> nat \<Rightarrow> string \<Rightarrow> string \<Rightarrow> config_error + nat" where
  "number get most name default' =
     ok_or (Invalid name) (parse_uint most (case get name of Some v \<Rightarrow> v | None \<Rightarrow> default'))"

definition url_list :: "string \<Rightarrow> string list" where
  "url_list text' = filter (\<lambda>s. s \<noteq> []) (map trim (split_on CHR '','' text'))"

definition load_urls :: "environment \<Rightarrow> nat \<Rightarrow> config_error + string list \<times> string list" where
  "load_urls get chain_id =
     bindR (required get ''RPC_URLS'') (\<lambda>t.
       let rpc_urls = url_list t; ws_urls = url_list (case get ''WS_URLS'' of Some w \<Rightarrow> w | None \<Rightarrow> []) in
       ensure (rpc_urls \<noteq> []) (Missing ''RPC_URLS'')
       (bindR (each (\<lambda>u. starts_with ''https://'' u \<or> (chain_id = 31337 \<and> starts_with ''http://127.0.0.1:'' u))
                 (\<lambda>_. NotAllowed ''RPC_URLS'') rpc_urls) (\<lambda>_.
        bindR (each (\<lambda>u. starts_with ''wss://'' u \<or> (chain_id = 31337 \<and> starts_with ''ws://127.0.0.1:'' u))
                 (\<lambda>_. NotAllowed ''WS_URLS'') ws_urls) (\<lambda>_. Inr (rpc_urls, ws_urls)))))"

definition parsed_hash :: "parsers \<Rightarrow> environment \<Rightarrow> string \<Rightarrow> config_error + nat option" where
  "parsed_hash ps get name = (case get name of
      None \<Rightarrow> Inr None
    | Some v \<Rightarrow> bindR (ok_or (Invalid name) (hash_parse ps v)) (\<lambda>h. Inr (Some h)))"

record pins =
  pin_code :: "nat option"
  pin_protocol :: "nat option"
  pin_implementation :: "nat option"
  pin_registry :: "nat option"
  pin_next :: "nat option"
  pin_next_registry :: "nat option"

definition load_pins :: "parsers \<Rightarrow> environment \<Rightarrow> nat \<Rightarrow> config_error + pins" where
  "load_pins ps get chain_id =
     bindR (parsed_hash ps get ''EXPECTED_CODE_HASH'') (\<lambda>code_hash.
     ensure (get ''EXPECTED_SOURCE_HASH'' = None) (NotAllowed ''EXPECTED_SOURCE_HASH'')
     (bindR (parsed_hash ps get ''EXPECTED_PROTOCOL_HASH'') (\<lambda>protocol_hash.
      bindR (parsed_hash ps get ''EXPECTED_IMPLEMENTATION_CODE_HASH'') (\<lambda>implementation.
      bindR (coordinator_kind_of get) (\<lambda>kind'.
      bindR (if kind' = Epoch then parsed_hash ps get ''EXPECTED_REGISTRY_IMPLEMENTATION_CODE_HASH'' else Inr None) (\<lambda>registry.
      ensure (chain_id = 31337 \<or> (code_hash \<noteq> None \<and> protocol_hash \<noteq> None \<and> implementation \<noteq> None
                                  \<and> (kind' = Round \<or> registry \<noteq> None))) (Missing ''EXPECTED_CODE_HASH'')
      (bindR (approved_next ps ''APPROVED_NEXT_IMPLEMENTATION_CODE_HASH'' (get ''APPROVED_NEXT_IMPLEMENTATION_CODE_HASH'')) (\<lambda>next'.
       bindR (if kind' = Epoch then approved_next ps ''APPROVED_NEXT_REGISTRY_IMPLEMENTATION_CODE_HASH''
                                     (get ''APPROVED_NEXT_REGISTRY_IMPLEMENTATION_CODE_HASH'') else Inr None) (\<lambda>next_registry.
         Inr \<lparr>pin_code = code_hash, pin_protocol = protocol_hash, pin_implementation = implementation,
              pin_registry = registry, pin_next = next', pin_next_registry = next_registry\<rparr>)))))))))"

definition load_relays :: "parsers \<Rightarrow> environment \<Rightarrow> nat \<Rightarrow> config_error + string list" where
  "load_relays ps get chain_id =
     (let test_base = get ''TEST_API_BASE'' in
      ensure (case test_base of None \<Rightarrow> True
              | Some u \<Rightarrow> chain_id = 31337 \<and> starts_with ''http://127.0.0.1:'' u) (NotAllowed ''TEST_API_BASE'')
      (case configured_relays (url_parse ps)
              (case get ''DRAND_RELAYS'' of Some v \<Rightarrow> (if trim v = [] then None else Some v) | None \<Rightarrow> None)
              test_base (chain_id = 31337) of
         Inl e \<Rightarrow> Inl (Relays e) | Inr relays \<Rightarrow> Inr relays))"

definition load_lock_dir :: "environment \<Rightarrow> nat \<Rightarrow> config_error + string" where
  "load_lock_dir get chain_id = (case get ''TEST_LOCK_DIR'' of
      Some path \<Rightarrow> ensure (chain_id = 31337) (NotAllowed ''TEST_LOCK_DIR'') (Inr path)
    | None \<Rightarrow> Inr ''/var/lib/d20dao/locks'')"

definition load_role :: "environment \<Rightarrow> nat \<Rightarrow> config_error + role" where
  "load_role get margin = parse_role (get ''KEEPER_ROLE'')
     \<lparr>fs_delay = get ''FOLLOWER_DELAY_SECONDS'', fs_busy_delay = get ''FOLLOWER_BUSY_DELAY_SECONDS'',
      fs_queue_join = get ''FOLLOWER_QUEUE_JOIN'', fs_liveness = get ''PRIMARY_LIVENESS_SECONDS'',
      fs_rank = get ''FOLLOWER_RANK'', fs_lanes = get ''FOLLOWER_LANES''\<rparr> margin"

definition load_fields :: "parsers \<Rightarrow> environment \<Rightarrow> bool \<Rightarrow> nat \<Rightarrow> string list \<times> string list \<Rightarrow> pins
    \<Rightarrow> string list \<Rightarrow> string \<Rightarrow> nat \<Rightarrow> role \<Rightarrow> nat \<Rightarrow> config_error + config" where
  "load_fields ps get once chain_id urls pin relays lock_dir margin role' poll_ms =
     bindR (telemetry_load ps get chain_id) (\<lambda>telemetry.
     bindR (required get ''COORDINATOR_ADDRESS'') (\<lambda>address.
     bindR (ok_or (Invalid ''COORDINATOR_ADDRESS'') (address_parse ps address)) (\<lambda>coordinator.
     bindR (required get ''KEEPER_DB'') (\<lambda>db.
     bindR (required get ''TX_KEY_FILE'') (\<lambda>tx_key_file.
     bindR (required get ''VRF_KEY_FILE'') (\<lambda>vrf_key_file.
     bindR (number get u64_max ''IDLE_POLL_MS'' (show_nat (max poll_ms 1000))) (\<lambda>idle_poll_ms.
     bindR (number get u64_max ''MAX_TICK_FAILURES'' ''5'') (\<lambda>max_tick_failures.
     bindR (number get u64_max ''TICK_TIMEOUT_SECONDS'' ''20'') (\<lambda>tick_timeout_seconds.
     bindR (number get u64_max ''MAX_GAS'' ''3000000'') (\<lambda>max_gas.
     bindR (number get u128_max ''MAX_FEE_PER_GAS_WEI'' ''100000000000'') (\<lambda>max_fee.
     bindR (required get ''CANCEL_MAX_FEE_PER_GAS_WEI'') (\<lambda>cancel.
     bindR (ok_or (Invalid ''CANCEL_MAX_FEE_PER_GAS_WEI'') (parse_uint u128_max cancel)) (\<lambda>cancel_max_fee.
     bindR (number get u64_max ''PROGRESS_STUCK_SECONDS'' ''20'') (\<lambda>progress_stuck_seconds.
     bindR (number get u64_max ''NONCE_STUCK_SECONDS'' ''120'') (\<lambda>nonce_stuck_seconds.
     bindR (number get u128_max ''MAX_TX_COST_WEI'' ''200000000000000000'') (\<lambda>max_cost.
     bindR (number get u128_max ''MIN_PRIORITY_FEE_WEI'' ''1000000000'') (\<lambda>min_priority_fee.
     bindR (number get u128_max ''MAX_PRIORITY_FEE_WEI'' ''50000000000'') (\<lambda>max_priority_fee.
     bindR (bindR (number get u64_max ''FEE_COVERAGE_BPS'' ''10000'') validate_fee_coverage_bps) (\<lambda>fee_coverage_bps.
     bindR (bindR (number get u64_max ''FULFILL_BATCH_MAX'' ''8'') validate_fulfill_batch_max) (\<lambda>fulfill_batch_max.
     bindR (resolve chain_id get) (\<lambda>chain.
       Inr \<lparr>c_role = role', c_telemetry = telemetry, c_rpc_urls = fst urls, c_ws_urls = snd urls,
         c_chain_id = chain_id, c_coordinator = coordinator, c_db = db, c_lock_dir = lock_dir,
         c_tx_key_file = tx_key_file, c_vrf_key_file = vrf_key_file,
         c_send = (get ''SEND_TRANSACTIONS'' = Some ''true''), c_once = once, c_poll_ms = poll_ms,
         c_idle_poll_ms = idle_poll_ms, c_idle_heartbeat = IDLE_HEARTBEAT, c_max_tick_failures = max_tick_failures,
         c_tick_timeout_seconds = tick_timeout_seconds, c_margin = margin, c_max_gas = max_gas, c_max_fee = max_fee,
         c_cancel_max_fee = cancel_max_fee, c_max_cost = max_cost, c_min_priority_fee = min_priority_fee,
         c_max_priority_fee = max_priority_fee, c_fee_coverage_bps = fee_coverage_bps,
         c_nonce_stuck_seconds = nonce_stuck_seconds, c_progress_stuck_seconds = progress_stuck_seconds,
         c_fulfill_batch_max = fulfill_batch_max, c_code_hash = pin_code pin, c_protocol_hash = pin_protocol pin,
         c_implementation_code_hash = pin_implementation pin,
         c_registry_implementation_code_hash = pin_registry pin, c_approved_next = pin_next pin,
         c_approved_next_registry = pin_next_registry pin, c_drand_relays = relays, c_chain = chain\<rparr>)))))))))))))))))))))"

definition load_checks :: "environment \<Rightarrow> config \<Rightarrow> config_error + config" where
  "load_checks get c0 =
     (let c = (if cs_finality_mode (c_chain c0) = Soft then c0\<lparr>c_rpc_urls := distinct_urls (c_rpc_urls c0)\<rparr> else c0) in
      ensure (starts_with ''/'' (c_db c) \<and> starts_with ''/'' (c_lock_dir c)) (NotAllowed ''KEEPER_DB'')
      (ensure (c_coordinator c \<noteq> 0 \<and> c_margin c > 0 \<and> c_margin c < 60 \<and> c_poll_ms c \<ge> 100
               \<and> c_idle_poll_ms c \<ge> c_poll_ms c \<and> c_idle_poll_ms c \<le> max (c_poll_ms c) 20000
               \<and> c_max_tick_failures c > 0 \<and> c_tick_timeout_seconds c > 0 \<and> c_tick_timeout_seconds c \<le> 20)
         (NotAllowed ''SEND_MARGIN_SECONDS'')
      (bindR (idle_heartbeat get (cs_coordinator_kind (c_chain c)) (c_margin c)) (\<lambda>heartbeat.
       let c = c\<lparr>c_idle_heartbeat := heartbeat\<rparr> in
       bindR (case cs_gas_model (c_chain c) of
                Standard \<Rightarrow> validate_recovery_budget (c_max_fee c) (c_cancel_max_fee c) (c_max_cost c)
              | Arbitrum \<Rightarrow> validate_arbitrum_recovery_budget (c_max_fee c) (c_cancel_max_fee c) (c_max_cost c)) (\<lambda>_.
       bindR (validate_priority_bounds (c_min_priority_fee c) (c_max_priority_fee c) (c_max_fee c)) (\<lambda>_.
         ensure (c_nonce_stuck_seconds c > 0 \<and> c_progress_stuck_seconds c > 0) (NotAllowed ''NONCE_STUCK_SECONDS'')
           (Inr c)))))))"

definition load :: "parsers \<Rightarrow> bool \<Rightarrow> environment \<Rightarrow> config_error + config" where
  "load ps once get =
     bindR (number get u64_max ''CHAIN_ID'' ''0'') (\<lambda>chain_id.
     ensure (chain_id > 0) (Missing ''CHAIN_ID'')
     (bindR (load_urls get chain_id) (\<lambda>urls.
      bindR (load_pins ps get chain_id) (\<lambda>pin.
      bindR (load_relays ps get chain_id) (\<lambda>relays.
      bindR (load_lock_dir get chain_id) (\<lambda>lock_dir.
      bindR (number get u64_max ''SEND_MARGIN_SECONDS'' ''5'') (\<lambda>margin.
      bindR (load_role get margin) (\<lambda>role'.
      bindR (number get u64_max ''POLL_MS'' ''1000'') (\<lambda>poll_ms.
      bindR (check_economics chain_id get) (\<lambda>_.
      bindR (load_fields ps get once chain_id urls pin relays lock_dir margin role' poll_ms)
        (load_checks get)))))))))))"

section \<open>What a loaded configuration satisfies\<close>

lemma each_Inr_iff [result_simps]: "each P e xs = Inr u \<longleftrightarrow> list_all P xs"
  by (induction xs) (auto simp: result_simps)

lemma trim_no_space:
  assumes "list_all (\<lambda>c. \<not> is_space c) s"
  shows "trim s = s"
proof -
  have "dropWhile is_space t = t" if "set t \<subseteq> set s" for t
    using assms that by (cases t) (auto simp: list_all_iff)
  then show ?thesis by (simp add: trim_def)
qed

lemma parse_uint_trim:
  assumes "parse_uint most s = Some n"
  shows "trim s = s"
proof (rule trim_no_space)
  have "list_all (\<lambda>c. \<not> is_space c) ds" if "list_all is_digit ds" for ds
    using that by (auto simp: list_all_iff dest: digit_not_space)
  moreover have "\<not> is_space CHR ''+''" by (simp add: is_space_def)
  ultimately show "list_all (\<lambda>c. \<not> is_space c) s"
    using assms by (auto simp: parse_uint_def Let_def dest: digit_not_space split: list.splits if_splits)
qed

lemma parse_uint_nonempty: "parse_uint most s = Some n \<Longrightarrow> s \<noteq> []"
  by (auto simp: parse_uint_def Let_def)

lemma number_of_setting:
  assumes "number get most name d = Inr n" and "setting get name = Some t" and "parse_uint most t = Some m"
  shows "n = m"
  using assms parse_uint_trim
  by (auto simp: number_def setting_def result_simps split: option.splits if_splits)

lemma keep_first_spec:
  "distinct (map (trim_end_matches CHR ''/'') (keep_first seen us))
   \<and> trim_end_matches CHR ''/'' ` set (keep_first seen us) = trim_end_matches CHR ''/'' ` set us - set seen
   \<and> set (keep_first seen us) \<subseteq> set us"
proof (induction us arbitrary: seen)
  case Nil
  then show ?case by simp
next
  case (Cons u us)
  show ?case
  proof (cases "trim_end_matches CHR ''/'' u \<in> set seen")
    case True
    then show ?thesis using Cons.IH [of seen] by auto
  next
    case False
    then show ?thesis using Cons.IH [of "trim_end_matches CHR ''/'' u # seen"] by (auto simp: Let_def)
  qed
qed

lemma load_Inr:
  assumes "load ps once get = Inr c"
  obtains chain_id urls pin relays lock_dir margin role' poll_ms c0 where
    "chain_id > 0" "load_urls get chain_id = Inr urls" "load_pins ps get chain_id = Inr pin"
    "load_relays ps get chain_id = Inr relays" "load_role get margin = Inr role'"
    "check_economics chain_id get = Inr ()"
    "load_fields ps get once chain_id urls pin relays lock_dir margin role' poll_ms = Inr c0"
    "load_checks get c0 = Inr c"
  using assms that unfolding load_def bindR_Inr_iff ensure_Inr_iff by (metis (full_types) old.unit.exhaust)

lemma load_fields_Inr:
  assumes "load_fields ps get once chain_id urls pin relays lock_dir margin role' poll_ms = Inr c0"
  shows "c_chain_id c0 = chain_id \<and> resolve chain_id get = Inr (c_chain c0) \<and> c_margin c0 = margin \<and> c_role c0 = role'
    \<and> number get u128_max ''MIN_PRIORITY_FEE_WEI'' ''1000000000'' = Inr (c_min_priority_fee c0)
    \<and> number get u128_max ''MAX_PRIORITY_FEE_WEI'' ''50000000000'' = Inr (c_max_priority_fee c0)
    \<and> number get u64_max ''FEE_COVERAGE_BPS'' ''10000'' = Inr (c_fee_coverage_bps c0)
    \<and> 1 \<le> c_fulfill_batch_max c0 \<and> c_fulfill_batch_max c0 \<le> MAX_BATCH_MEMBERS"
  using assms unfolding load_fields_def bindR_Inr_iff validate_fee_coverage_bps_def validate_fulfill_batch_max_def
  by (auto simp: ensure_Inr_iff within_def)

lemma load_checks_Inr:
  assumes "load_checks get c0 = Inr c"
  shows "c_chain_id c = c_chain_id c0 \<and> c_chain c = c_chain c0 \<and> c_margin c = c_margin c0 \<and> c_role c = c_role c0
    \<and> c_min_priority_fee c = c_min_priority_fee c0 \<and> c_max_priority_fee c = c_max_priority_fee c0
    \<and> c_fee_coverage_bps c = c_fee_coverage_bps c0 \<and> 0 < c_margin c \<and> c_margin c < 60
    \<and> (cs_finality_mode (c_chain c) = Soft \<longrightarrow> distinct (map (trim_end_matches CHR ''/'') (c_rpc_urls c)))
    \<and> recovery_budget (c_max_fee c) (c_cancel_max_fee c) (c_max_cost c)
        (case cs_gas_model (c_chain c) of Standard \<Rightarrow> CANCEL_GAS | Arbitrum \<Rightarrow> CANCEL_GAS_BOUND) = Inr ()
    \<and> c_min_priority_fee c \<le> c_max_priority_fee c \<and> c_max_priority_fee c \<le> c_max_fee c"
  using assms keep_first_spec [of "[]" "c_rpc_urls c0"]
  unfolding load_checks_def Let_def bindR_Inr_iff ensure_Inr_iff validate_priority_bounds_def
    validate_recovery_budget_def validate_arbitrum_recovery_budget_def distinct_urls_def
  by (cases "cs_gas_model (c_chain c0)"; cases "cs_finality_mode (c_chain c0)") auto

lemma bounded_None_iff: "bounded get name l = Inr None \<longleftrightarrow> setting get name = None"
  by (auto simp: bounded_def result_simps split: option.splits)

lemma resolve_checks_Inr:
  assumes "resolve_checks chain_id get soft_depth audit_interval audit_max_lag l1_margin result = Inr s"
  shows "s = result \<and> check_chain_policy chain_id s = Inr ()
    \<and> (cs_finality_mode s = Finalized \<longrightarrow> soft_depth = None \<and> audit_interval = None \<and> audit_max_lag = None
         \<and> cs_index_finality s = IndexFinalized)
    \<and> (cs_gas_model s = Standard \<longrightarrow> l1_margin = None \<and> sequencer_drop_seconds s = None)
    \<and> (cs_coordinator_kind s = Round \<longrightarrow> list_all (\<lambda>name. setting get name = None) EPOCH_ONLY_SETTINGS)"
  using assms unfolding resolve_checks_def
  by (cases "cs_finality_mode result"; cases "cs_gas_model result"; cases "cs_coordinator_kind result")
     (auto simp: result_simps)

lemma resolve_Inr:
  assumes "resolve chain_id get = Inr s"
  shows "check_chain_policy chain_id s = Inr () \<and> coordinator_kind_of get = Inr (cs_coordinator_kind s)
    \<and> (cs_finality_mode s = Finalized \<longrightarrow> setting get ''SOFT_DEPTH_BLOCKS'' = None
         \<and> setting get ''FINALITY_AUDIT_INTERVAL_SECONDS'' = None
         \<and> setting get ''FINALITY_AUDIT_MAX_LAG_SECONDS'' = None \<and> cs_index_finality s = IndexFinalized)
    \<and> (cs_gas_model s = Standard \<longrightarrow> setting get ''L1_GAS_MARGIN_BPS'' = None \<and> sequencer_drop_seconds s = None)
    \<and> (cs_coordinator_kind s = Round \<longrightarrow> list_all (\<lambda>name. setting get name = None) EPOCH_ONLY_SETTINGS)"
proof -
  from assms obtain soft_depth audit_interval audit_max_lag l1_margin kind' result where
    reads: "bounded get ''SOFT_DEPTH_BLOCKS'' SOFT_DEPTH_RANGE = Inr soft_depth"
      "bounded get ''FINALITY_AUDIT_INTERVAL_SECONDS'' FINALITY_AUDIT_INTERVAL_RANGE = Inr audit_interval"
      "bounded get ''FINALITY_AUDIT_MAX_LAG_SECONDS'' FINALITY_AUDIT_MAX_LAG_RANGE = Inr audit_max_lag"
      "bounded get ''L1_GAS_MARGIN_BPS'' L1_GAS_MARGIN_RANGE = Inr l1_margin"
      "coordinator_kind_of get = Inr kind'" "cs_coordinator_kind result = kind'"
    and checks: "resolve_checks chain_id get soft_depth audit_interval audit_max_lag l1_margin result = Inr s"
    unfolding resolve_def Let_def bindR_Inr_iff by (elim exE conjE) (rule that; simp)
  have eq: "result = s" using resolve_checks_Inr [OF checks] by simp
  show ?thesis
    using resolve_checks_Inr [OF checks] reads unfolding eq by (intro conjI impI) (simp_all add: bounded_None_iff)
qed

lemma find_policy:
  "policy_of 4663 = Some (CHAIN_POLICIES ! 1)" "policy_of 46630 = Some (CHAIN_POLICIES ! 1)"
  "policy_of 5042 = Some (CHAIN_POLICIES ! 0)" "policy_of 5042002 = Some (CHAIN_POLICIES ! 0)"
  "n \<notin> {4663, 46630, 5042, 5042002, 31337, 412346} \<Longrightarrow> policy_of n = None"
  by (auto simp: policy_of_def CHAIN_POLICIES_def)

lemma check_policy_Inr:
  assumes "check_chain_policy n s = Inr ()"
  shows "(n \<in> {4663, 46630} \<longrightarrow> cs_finality_mode s = Soft \<and> cs_gas_model s = Arbitrum \<and> cs_coordinator_kind s = Round
            \<and> 1000 \<le> l1_gas_margin_bps s)
    \<and> (n \<in> {5042, 5042002} \<longrightarrow> cs_finality_mode s = Finalized \<and> cs_gas_model s = Standard \<and> cs_coordinator_kind s = Epoch)
    \<and> (n \<notin> {4663, 46630, 5042, 5042002, 31337, 412346} \<longrightarrow> cs_finality_mode s = Finalized \<and> cs_coordinator_kind s = Epoch)"
  using assms by (auto simp: check_chain_policy_def find_policy required_by_def ensure_Inr_iff CHAIN_POLICIES_def)

lemma check_tip_Inr:
  "check_tip get name = Inr u \<longleftrightarrow> (\<exists>t. setting get name = Some t \<and> parse_uint u128_max t = Some 0)"
  by (auto simp: check_tip_def result_simps)

lemma check_economics_Inr:
  assumes "check_economics n get = Inr u" and "coordinator_kind_of get = Inr kind'"
  shows "(kind' = Round \<longrightarrow> list_all (\<lambda>(name, _). setting get name \<noteq> None) ARC_SCALED)
    \<and> (n \<in> {4663, 46630} \<longrightarrow> list_all (\<lambda>(name, _). setting get name \<noteq> None) ROBINHOOD_EXPLICIT
         \<and> check_tip get ''MIN_PRIORITY_FEE_WEI'' = Inr () \<and> check_tip get ''MAX_PRIORITY_FEE_WEI'' = Inr ()
         \<and> (\<exists>t v. setting get ''FEE_COVERAGE_BPS'' = Some t \<and> parse_uint u64_max t = Some v \<and> 12500 \<le> v))"
proof -
  have "check_policy_economics (CHAIN_POLICIES ! 1) get = Inr ()" if "n \<in> {4663, 46630}"
    using assms that by (auto simp: check_economics_def find_policy bindR_Inr_iff)
  then show ?thesis
    using assms
    by (auto simp: check_economics_def check_policy_economics_def CHAIN_POLICIES_def ROBINHOOD_MIN_FEE_COVERAGE_BPS_def
        bindR_Inr_iff ensure_Inr_iff ok_or_Inr_iff each_Inr_iff)
qed

text \<open>C25: A keeper never runs a chain with another chain's behaviour. A configuration that loads on
  Robinhood Chain decides on soft blocks, uses the Arbitrum gas model and serves a round coordinator, has
  an L1 margin of at least 10%, pays no tip, requires fees that cover a quarter more than the cost, and
  had every Arc-sized default written down; on Arc it is finalized, standard and epoch; and a chain no
  policy lists takes neither soft finality nor round mode. A setting of a mode that is off was not set,
  and in soft mode no endpoint is counted twice.\<close>

theorem chain_policy_enforced:
  assumes "load ps once get = Inr c"
  shows "(c_chain_id c \<in> {4663, 46630} \<longrightarrow>
            cs_finality_mode (c_chain c) = Soft \<and> cs_gas_model (c_chain c) = Arbitrum
            \<and> cs_coordinator_kind (c_chain c) = Round \<and> 1000 \<le> l1_gas_margin_bps (c_chain c)
            \<and> c_min_priority_fee c = 0 \<and> c_max_priority_fee c = 0 \<and> 12500 \<le> c_fee_coverage_bps c
            \<and> list_all (\<lambda>(name, _). setting get name \<noteq> None) ROBINHOOD_EXPLICIT)
    \<and> (c_chain_id c \<in> {5042, 5042002} \<longrightarrow> cs_finality_mode (c_chain c) = Finalized
            \<and> cs_gas_model (c_chain c) = Standard \<and> cs_coordinator_kind (c_chain c) = Epoch)
    \<and> (c_chain_id c \<notin> {4663, 46630, 5042, 5042002, 31337, 412346} \<longrightarrow>
            cs_finality_mode (c_chain c) = Finalized \<and> cs_coordinator_kind (c_chain c) = Epoch)
    \<and> (cs_finality_mode (c_chain c) = Finalized \<longrightarrow> setting get ''SOFT_DEPTH_BLOCKS'' = None
            \<and> setting get ''FINALITY_AUDIT_INTERVAL_SECONDS'' = None
            \<and> setting get ''FINALITY_AUDIT_MAX_LAG_SECONDS'' = None \<and> cs_index_finality (c_chain c) = IndexFinalized)
    \<and> (cs_finality_mode (c_chain c) = Soft \<longrightarrow> distinct (map (trim_end_matches CHR ''/'') (c_rpc_urls c)))
    \<and> (cs_gas_model (c_chain c) = Standard \<longrightarrow> setting get ''L1_GAS_MARGIN_BPS'' = None
            \<and> sequencer_drop_seconds (c_chain c) = None)
    \<and> (cs_coordinator_kind (c_chain c) = Round \<longrightarrow> list_all (\<lambda>name. setting get name = None) EPOCH_ONLY_SETTINGS
            \<and> list_all (\<lambda>(name, _). setting get name \<noteq> None) ARC_SCALED)"
proof -
  obtain chain_id urls pin relays lock_dir margin role' poll_ms c0 where
    economics: "check_economics chain_id get = Inr ()"
    and fields: "load_fields ps get once chain_id urls pin relays lock_dir margin role' poll_ms = Inr c0"
    and checks: "load_checks get c0 = Inr c"
    using assms by (rule load_Inr)
  have c: "c_chain_id c = chain_id" and chain: "resolve chain_id get = Inr (c_chain c)"
    using load_fields_Inr [OF fields] load_checks_Inr [OF checks] by simp_all
  note res = resolve_Inr [OF chain]
  have kind: "coordinator_kind_of get = Inr (cs_coordinator_kind (c_chain c))" using res by simp
  note eco = check_economics_Inr [OF economics kind]
  have tips: "c_min_priority_fee c = 0" "c_max_priority_fee c = 0" "12500 \<le> c_fee_coverage_bps c"
    if "chain_id \<in> {4663, 46630}"
    using that eco load_fields_Inr [OF fields] load_checks_Inr [OF checks]
    by (auto simp: check_tip_Inr dest: number_of_setting)
  have "check_chain_policy chain_id (c_chain c) = Inr ()" using res by simp
  note policy = check_policy_Inr [OF this]
  have urls: "cs_finality_mode (c_chain c) = Soft \<longrightarrow> distinct (map (trim_end_matches CHR ''/'') (c_rpc_urls c))"
    using load_checks_Inr [OF checks] by simp
  show ?thesis
    unfolding c using policy res eco tips urls by (intro conjI impI) (blast | simp)+
qed

definition sample_env_as :: "string option \<Rightarrow> environment" where
  "sample_env_as r = (map_of
     [(''CHAIN_ID'', ''46630''),
      (''RPC_URLS'', ''https://a''),
      (''EXPECTED_CODE_HASH'', ''1''),
      (''EXPECTED_PROTOCOL_HASH'', ''1''),
      (''EXPECTED_IMPLEMENTATION_CODE_HASH'', ''1''),
      (''COORDINATOR_KIND'', ''round''),
      (''FINALITY_MODE'', ''soft''),
      (''GAS_MODEL'', ''arbitrum''),
      (''MAX_FEE_PER_GAS_WEI'', ''8''),
      (''MAX_TX_COST_WEI'', ''1000000''),
      (''MIN_PRIORITY_FEE_WEI'', ''0''),
      (''MAX_PRIORITY_FEE_WEI'', ''0''),
      (''SWEEP_MIN_RESERVE_WEI'', ''5''),
      (''NONCE_STUCK_SECONDS'', ''9''),
      (''MAX_GAS'', ''9''),
      (''FEE_COVERAGE_BPS'', ''12500''),
      (''COORDINATOR_ADDRESS'', ''1''),
      (''KEEPER_DB'', ''/k''),
      (''TX_KEY_FILE'', ''/t''),
      (''VRF_KEY_FILE'', ''/v''),
      (''CANCEL_MAX_FEE_PER_GAS_WEI'', ''10'')])(''KEEPER_ROLE'' := r)"

abbreviation sample_env :: environment where
  "sample_env \<equiv> sample_env_as None"

definition sample_parsers :: parsers where
  "sample_parsers = \<lparr>url_parse = (\<lambda>_. None), hash_parse = parse_uint u128_max, address_parse = parse_uint u128_max,
     header_value = Some, ip_loopback = (\<lambda>_. False)\<rparr>"

lemma sample_get:
  "sample_env_as r ''CHAIN_ID'' = Some ''46630''"
  "sample_env_as r ''RPC_URLS'' = Some ''https://a''"
  "sample_env_as r ''WS_URLS'' = None"
  "sample_env_as r ''EXPECTED_CODE_HASH'' = Some ''1''"
  "sample_env_as r ''EXPECTED_SOURCE_HASH'' = None"
  "sample_env_as r ''EXPECTED_PROTOCOL_HASH'' = Some ''1''"
  "sample_env_as r ''EXPECTED_IMPLEMENTATION_CODE_HASH'' = Some ''1''"
  "sample_env_as r ''APPROVED_NEXT_IMPLEMENTATION_CODE_HASH'' = None"
  "sample_env_as r ''TEST_API_BASE'' = None"
  "sample_env_as r ''DRAND_RELAYS'' = None"
  "sample_env_as r ''TEST_LOCK_DIR'' = None"
  "sample_env_as r ''SEND_MARGIN_SECONDS'' = None"
  "sample_env_as r ''KEEPER_ROLE'' = r"
  "sample_env_as r ''FOLLOWER_DELAY_SECONDS'' = None"
  "sample_env_as r ''FOLLOWER_BUSY_DELAY_SECONDS'' = None"
  "sample_env_as r ''FOLLOWER_QUEUE_JOIN'' = None"
  "sample_env_as r ''PRIMARY_LIVENESS_SECONDS'' = None"
  "sample_env_as r ''FOLLOWER_RANK'' = None"
  "sample_env_as r ''FOLLOWER_LANES'' = None"
  "sample_env_as r ''POLL_MS'' = None"
  "sample_env_as r ''HEALTH_API_URL'' = None"
  "sample_env_as r ''HEALTH_API_KEY'' = None"
  "sample_env_as r ''HEALTH_INTERVAL_SECONDS'' = None"
  "sample_env_as r ''COORDINATOR_ADDRESS'' = Some ''1''"
  "sample_env_as r ''KEEPER_DB'' = Some ''/k''"
  "sample_env_as r ''TX_KEY_FILE'' = Some ''/t''"
  "sample_env_as r ''VRF_KEY_FILE'' = Some ''/v''"
  "sample_env_as r ''SEND_TRANSACTIONS'' = None"
  "sample_env_as r ''IDLE_POLL_MS'' = None"
  "sample_env_as r ''MAX_TICK_FAILURES'' = None"
  "sample_env_as r ''TICK_TIMEOUT_SECONDS'' = None"
  "sample_env_as r ''MAX_GAS'' = Some ''9''"
  "sample_env_as r ''MAX_FEE_PER_GAS_WEI'' = Some ''8''"
  "sample_env_as r ''CANCEL_MAX_FEE_PER_GAS_WEI'' = Some ''10''"
  "sample_env_as r ''PROGRESS_STUCK_SECONDS'' = None"
  "sample_env_as r ''NONCE_STUCK_SECONDS'' = Some ''9''"
  "sample_env_as r ''MAX_TX_COST_WEI'' = Some ''1000000''"
  "sample_env_as r ''MIN_PRIORITY_FEE_WEI'' = Some ''0''"
  "sample_env_as r ''MAX_PRIORITY_FEE_WEI'' = Some ''0''"
  "sample_env_as r ''FEE_COVERAGE_BPS'' = Some ''12500''"
  "sample_env_as r ''FULFILL_BATCH_MAX'' = None"
  by code_simp+

lemma sample_setting:
  "setting (sample_env_as r) ''FINALITY_MODE'' = Some ''soft''"
  "setting (sample_env_as r) ''SOFT_DEPTH_BLOCKS'' = None"
  "setting (sample_env_as r) ''FINALITY_AUDIT_INTERVAL_SECONDS'' = None"
  "setting (sample_env_as r) ''FINALITY_AUDIT_MAX_LAG_SECONDS'' = None"
  "setting (sample_env_as r) ''GAS_MODEL'' = Some ''arbitrum''"
  "setting (sample_env_as r) ''L1_GAS_MARGIN_BPS'' = None"
  "setting (sample_env_as r) ''COORDINATOR_KIND'' = Some ''round''"
  "setting (sample_env_as r) ''SEQUENCER_DROP_SECONDS'' = None"
  "setting (sample_env_as r) ''SWEEP_MIN_RESERVE_WEI'' = Some ''5''"
  "setting (sample_env_as r) ''WS_SILENCE_SECONDS'' = None"
  "setting (sample_env_as r) ''WS_BACKFILL_MAX_BLOCKS'' = None"
  "setting (sample_env_as r) ''WS_BACKFILL_RANGE'' = None"
  "setting (sample_env_as r) ''INDEX_FINALITY'' = None"
  "setting (sample_env_as r) ''INDEX_MAX_BLOCKS'' = None"
  "setting (sample_env_as r) ''INDEX_LOOKBACK_BLOCKS'' = None"
  "setting (sample_env_as r) ''IDLE_HEARTBEAT_SECONDS'' = None"
  "setting (sample_env_as r) ''MAX_FEE_PER_GAS_WEI'' = Some ''8''"
  "setting (sample_env_as r) ''MAX_TX_COST_WEI'' = Some ''1000000''"
  "setting (sample_env_as r) ''MIN_PRIORITY_FEE_WEI'' = Some ''0''"
  "setting (sample_env_as r) ''MAX_PRIORITY_FEE_WEI'' = Some ''0''"
  "setting (sample_env_as r) ''NONCE_STUCK_SECONDS'' = Some ''9''"
  "setting (sample_env_as r) ''MAX_GAS'' = Some ''9''"
  "setting (sample_env_as r) ''FEE_COVERAGE_BPS'' = Some ''12500''"
  "setting (sample_env_as r) ''EXPECTED_REGISTRY_IMPLEMENTATION_CODE_HASH'' = None"
  "setting (sample_env_as r) ''APPROVED_NEXT_REGISTRY_IMPLEMENTATION_CODE_HASH'' = None"
  "setting (sample_env_as r) ''REGISTRY_KIND'' = None"
  "setting (sample_env_as r) ''BLOCK_NUDGE'' = None"
  "setting (sample_env_as r) ''BLOCK_NUDGE_AFTER_MS'' = None"
  "setting (sample_env_as r) ''EPOCH_API_ENDPOINTS'' = None"
  by code_simp+

lemma sample_number:
  "parse_uint u64_max ''46630'' = Some 46630" "parse_uint u64_max ''5'' = Some 5" "parse_uint u64_max ''1000'' = Some 1000"
  "parse_uint u64_max ''20'' = Some 20" "parse_uint u64_max ''9'' = Some 9" "parse_uint u128_max ''8'' = Some 8"
  "parse_uint u128_max ''10'' = Some 10" "parse_uint u128_max ''1000000'' = Some 1000000" "parse_uint u128_max ''0'' = Some 0"
  "parse_uint u64_max ''12500'' = Some 12500" "parse_uint u64_max ''8'' = Some 8" "parse_uint u128_max ''1'' = Some 1"
  "parse_uint u128_max ''5'' = Some 5" "parse_uint u64_max ''150'' = Some 150" "parse_uint u64_max ''10'' = Some 10"
  "parse_uint u64_max ''0'' = Some 0" "parse_uint u64_max ''1'' = Some 1"
  by (simp_all add: parse_uint_def digits_value_def digit_value_def is_digit_def u64_max_def u128_max_def)

lemma sample_chain: "\<exists>s. resolve 46630 (sample_env_as r) = Inr s \<and> cs_finality_mode s = Soft \<and> cs_gas_model s = Arbitrum
    \<and> cs_coordinator_kind s = Round"
  by (simp add: resolve_def choice_def bounded_def coordinator_kind_of_def sample_setting sample_number
      default_chain_settings_def COORDINATOR_KINDS_def resolve_checks_def check_chain_policy_def find_policy
      CHAIN_POLICIES_def required_by_def EPOCH_ONLY_SETTINGS_def Let_def)

lemma sample_parts:
  "load_urls (sample_env_as r) 46630 = Inr ([''https://a''], [])"
  "\<exists>p. load_pins sample_parsers (sample_env_as r) 46630 = Inr p"
  "load_relays sample_parsers (sample_env_as r) 46630 = Inr DEFAULT_RELAYS"
  "load_lock_dir (sample_env_as r) 46630 = Inr ''/var/lib/d20dao/locks''"
  "load_role (sample_env_as None) 5 = Inr Primary"
  "load_role (sample_env_as (Some ''follower'')) 5 =
     Inr (Follower \<lparr>fp_delay = 20, fp_queue_join = 150, fp_liveness = 10, fp_rank = 0, fp_lanes = 1\<rparr>)"
  "check_economics 46630 (sample_env_as r) = Inr ()"
  "telemetry_load sample_parsers (sample_env_as r) 46630 = Inr None"
  "idle_heartbeat (sample_env_as r) Round 5 = Inr 30"
proof -
  have "url_list ''https://a'' = [''https://a'']" "url_list [] = []" by code_simp+
  then show "load_urls (sample_env_as r) 46630 = Inr ([''https://a''], [])"
    by (simp add: load_urls_def required_def sample_get starts_with_def)
  show "\<exists>p. load_pins sample_parsers (sample_env_as r) 46630 = Inr p"
    by (simp add: load_pins_def parsed_hash_def approved_next_def sample_get sample_number sample_parsers_def
        coordinator_kind_of_def choice_def sample_setting COORDINATOR_KINDS_def)
  show "load_relays sample_parsers (sample_env_as r) 46630 = Inr DEFAULT_RELAYS"
    by (simp add: load_relays_def sample_get configured_relays_def parse_relays_def)
  show "load_lock_dir (sample_env_as r) 46630 = Inr ''/var/lib/d20dao/locks''" by (simp add: load_lock_dir_def sample_get)
  show "load_role (sample_env_as None) 5 = Inr Primary" by (simp add: load_role_def parse_role_def sample_get)
  have "trim ''follower'' = ''follower''" "trim ''20'' = ''20''" "trim ''150'' = ''150''" "trim ''10'' = ''10''"
    "trim ''0'' = ''0''" "trim ''1'' = ''1''" by code_simp+
  then show "load_role (sample_env_as (Some ''follower'')) 5 =
     Inr (Follower \<lparr>fp_delay = 20, fp_queue_join = 150, fp_liveness = 10, fp_rank = 0, fp_lanes = 1\<rparr>)"
    by (simp add: load_role_def parse_role_def role_number_def sample_get sample_number within_def FOLLOWER_DELAY_RANGE_def
        FULFILLMENT_ROUND_SECONDS_def RESPONSE_TIMEOUT_SECONDS_def SAFETY_AGE_SECONDS_def FOLLOWER_QUEUE_JOIN_RANGE_def
        PRIMARY_LIVENESS_RANGE_def MAX_FOLLOWER_LANES_def)
  show "check_economics 46630 (sample_env_as r) = Inr ()"
    by (simp add: check_economics_def coordinator_kind_of_def choice_def sample_setting COORDINATOR_KINDS_def find_policy
        check_policy_economics_def CHAIN_POLICIES_def ROBINHOOD_EXPLICIT_def ROBINHOOD_MIN_FEE_COVERAGE_BPS_def
        check_tip_def sample_number ARC_SCALED_def)
  show "telemetry_load sample_parsers (sample_env_as r) 46630 = Inr None"
    by (simp add: telemetry_load_def telemetry_parse_def sample_get)
  show "idle_heartbeat (sample_env_as r) Round 5 = Inr 30"
    by (simp add: idle_heartbeat_def bounded_def sample_setting IDLE_HEARTBEAT_DEFAULT_def FULFILLMENT_ROUND_SECONDS_def
        RESPONSE_TIMEOUT_SECONDS_def)
qed

lemma sample_load_as:
  assumes "load_role (sample_env_as r) 5 = Inr role'"
  shows "\<exists>c. load sample_parsers False (sample_env_as r) = Inr c \<and> c_chain_id c = 46630 \<and> c_role c = role'
    \<and> c_max_fee c = 8 \<and> c_max_cost c = 1000000"
proof -
  obtain p where p: "load_pins sample_parsers (sample_env_as r) 46630 = Inr p" using sample_parts(2) by blast
  obtain s where s: "resolve 46630 (sample_env_as r) = Inr s" "cs_finality_mode s = Soft" "cs_gas_model s = Arbitrum"
    "cs_coordinator_kind s = Round" using sample_chain by blast
  have ten: "show_nat 1000 = ''1000''" by code_simp
  have small: "72 \<le> u128_max" "1000000 \<le> u128_max" by (simp_all add: u128_max_def)
  have address: "address_parse sample_parsers = parse_uint u128_max" by (simp add: sample_parsers_def)
  show ?thesis
    by (simp add: load_def load_fields_def load_checks_def number_def required_def sample_get sample_number sample_parts assms p s
        address small ten validate_fee_coverage_bps_def validate_fulfill_batch_max_def within_def MAX_BATCH_MEMBERS_def
        validate_arbitrum_recovery_budget_def recovery_budget_def CANCEL_GAS_BOUND_def
        validate_priority_bounds_def starts_with_def Let_def)
qed

lemmas sample_load = sample_load_as [OF sample_parts(5)] and sample_follower_load = sample_load_as [OF sample_parts(6)]

theorem chain_policy_enforced_witness:
  "\<exists>c. load sample_parsers False sample_env = Inr c \<and> c_chain_id c = 46630 \<and> cs_finality_mode (c_chain c) = Soft
    \<and> c_max_priority_fee c = 0 \<and> 12500 \<le> c_fee_coverage_bps c"
proof -
  obtain c where c: "load sample_parsers False sample_env = Inr c" "c_chain_id c = 46630" using sample_load by blast
  show ?thesis using c chain_policy_enforced [OF c(1)] by auto
qed

end
