(* ===== verification/Sweep.thy ===== *)
theory Sweep
  imports Finality Config
begin

text \<open>
  The operator's sweep (\<open>sweep.rs\<close>): a transfer of the wallet's balance, queued in the journal by a
  command and run by the keeper on its own nonce lane. A \<open>U256\<close> is a \<open>nat\<close> below \<open>2 ^ 256\<close>, with its
  saturating and checked operations written out; \<open>u256_parse\<close>, its \<open>FromStr\<close>, is an argument.
\<close>

definition REQUEST_KEY :: string where "REQUEST_KEY = ''sweep:request''"
definition LAST_KEY :: string where "LAST_KEY = ''sweep:last''"
definition MIN_RESERVE_WEI :: nat where "MIN_RESERVE_WEI = 1000000000000000000"
definition MAX_TRANSFER_GAS :: nat where "MAX_TRANSFER_GAS = 100000"
definition REPLACE_AFTER_SECONDS :: nat where "REPLACE_AFTER_SECONDS = 30"
definition MAX_ATTEMPTS :: nat where "MAX_ATTEMPTS = 4"
definition u256_max :: nat where "u256_max = 2 ^ 256 - 1"

datatype sweep_mode = Amount | Keep

record sweep_request =
  rq_mode :: sweep_mode
  rq_wei :: string
  rq_at :: nat

record signed_tx =
  sg_kind :: string
  sg_hash :: string
  sg_raw :: string
  sg_gas :: nat
  sg_fee :: string
  sg_priority :: string
  sg_created :: nat
  sg_broadcast :: nat

record sweep_attempt =
  sa_request :: sweep_request
  sa_nonce :: nat
  sa_to :: string
  sa_value :: string
  sa_txs :: "signed_tx list"

record outcome =
  oc_state :: string
  oc_detail :: string
  oc_to :: "string option"
  oc_value :: "string option"
  oc_tx :: "string option"
  oc_requested :: nat
  oc_finished :: nat

section \<open>Amounts\<close>

datatype unit_of = Usdc | Eth

definition unit_of_kind :: "coordinator_kind \<Rightarrow> unit_of" where
  "unit_of_kind k = (case k of Epoch \<Rightarrow> Usdc | Round \<Rightarrow> Eth)"

definition unit_of_journal :: "journal \<Rightarrow> unit_of" where
  "unit_of_journal j = (if meta_text ''coordinator_kind'' j = Some ''round'' then Eth else Usdc)"

definition symbol :: "unit_of \<Rightarrow> string" where
  "symbol u = (case u of Usdc \<Rightarrow> ''USDC'' | Eth \<Rightarrow> ''ETH'')"

definition unit_key :: "unit_of \<Rightarrow> string" where
  "unit_key u = (case u of Usdc \<Rightarrow> ''usdc'' | Eth \<Rightarrow> ''eth'')"

text \<open>\<open>split_once('.')\<close>, or the whole text and nothing.\<close>

definition split_dot :: "string \<Rightarrow> string \<times> string" where
  "split_dot s = (takeWhile (\<lambda>c. c \<noteq> CHR ''.'') s, drop 1 (dropWhile (\<lambda>c. c \<noteq> CHR ''.'') s))"

definition parse_amount :: "(string \<Rightarrow> nat option) \<Rightarrow> string \<Rightarrow> string \<Rightarrow> error + nat" where
  "parse_amount u256_parse given token =
     (let (whole, fraction) = split_dot (trim given) in
      ensure (\<not> (whole = [] \<and> fraction = []) \<and> list_all is_digit whole \<and> list_all is_digit fraction
              \<and> length fraction \<le> 18)
        (Bail (''Amount must be a decimal '' @ token @ '' value with at most 18 decimals, for example 5 or 2.5''))
        (bindR (if whole = [] then Inr 0 else ok_or (Bail ''Amount too large'') (u256_parse whole)) (\<lambda>w.
         bindR (ok_or ParseInt (u256_parse (fraction @ replicate (18 - length fraction) (CHR ''0'')))) (\<lambda>f.
           ensure (w * MIN_RESERVE_WEI \<le> u256_max \<and> w * MIN_RESERVE_WEI + f \<le> u256_max)
             (Bail ''Amount too large'') (Inr (w * MIN_RESERVE_WEI + f))))))"

definition trim_end_zeros :: "string \<Rightarrow> string" where
  "trim_end_zeros s = rev (dropWhile (\<lambda>c. c = CHR ''0'') (rev s))"

definition pad18 :: "nat \<Rightarrow> string" where
  "pad18 n = replicate (18 - length (show_nat n)) (CHR ''0'') @ show_nat n"

definition format_usdc :: "nat \<Rightarrow> string" where
  "format_usdc wei =
     (let fraction = trim_end_zeros (pad18 (wei mod MIN_RESERVE_WEI)) in
      if fraction = [] then show_nat (wei div MIN_RESERVE_WEI)
      else show_nat (wei div MIN_RESERVE_WEI) @ ''.'' @ fraction)"

section \<open>The value to transfer\<close>

definition plan ::
    "(string \<Rightarrow> nat option) \<Rightarrow> sweep_request \<Rightarrow> nat \<Rightarrow> nat \<Rightarrow> nat \<Rightarrow> unit_of \<Rightarrow> string + nat" where
  "plan u256_parse r balance gas_cost reserve u =
     (case u256_parse (rq_wei r) of
        None \<Rightarrow> Inl ''Invalid amount in sweep request''
      | Some wei \<Rightarrow>
          let spendable = balance - gas_cost in
          (case rq_mode r of
             Amount \<Rightarrow>
               if wei = 0 then Inl ''Amount must be greater than zero''
               else if spendable < min (wei + reserve) u256_max
               then Inl (''Balance '' @ format_usdc balance @ '' '' @ symbol u @ '' cannot send '' @ format_usdc wei
                      @ '' '' @ symbol u @ '' and keep the '' @ format_usdc reserve @ '' '' @ symbol u
                      @ '' reserve plus gas'')
               else Inr wei
           | Keep \<Rightarrow>
               if wei < reserve then Inl (''Keep at least the '' @ format_usdc reserve @ '' '' @ symbol u @ '' reserve'')
               else let value = spendable - wei in
                 if value = 0
                 then Inl (''Balance '' @ format_usdc balance @ '' '' @ symbol u @ '' is not above '' @ format_usdc wei
                        @ '' '' @ symbol u @ '' plus gas; nothing to send'')
                 else Inr value))"

section \<open>The records in \<open>meta\<close>\<close>

definition mode_name :: "sweep_mode \<Rightarrow> string" where
  "mode_name m = (case m of Amount \<Rightarrow> ''amount'' | Keep \<Rightarrow> ''keep'')"

definition mode_parse :: "string \<Rightarrow> sweep_mode option" where
  "mode_parse s = (if s = ''amount'' then Some Amount else if s = ''keep'' then Some Keep else None)"

definition encode_request :: "sweep_request \<Rightarrow> json" where
  "encode_request r = JObj [(''mode'', JStr (mode_name (rq_mode r))), (''wei'', JStr (rq_wei r)),
     (''requested_at'', JNum (int (rq_at r)))]"

definition decode_request :: "json \<Rightarrow> sweep_request option" where
  "decode_request v =
     Option.bind (Option.bind (field_str ''mode'' v) mode_parse) (\<lambda>m.
     Option.bind (field_str ''wei'' v) (\<lambda>w.
     Option.bind (field_nat ''requested_at'' v) (\<lambda>t. Some \<lparr>rq_mode = m, rq_wei = w, rq_at = t\<rparr>)))"

definition encode_signed :: "signed_tx \<Rightarrow> json" where
  "encode_signed t = JObj [(''kind'', JStr (sg_kind t)), (''hash'', JStr (sg_hash t)), (''raw'', JStr (sg_raw t)),
     (''gas'', JNum (int (sg_gas t))), (''fee'', JStr (sg_fee t)), (''priority'', JStr (sg_priority t)),
     (''created'', JNum (int (sg_created t))), (''broadcast'', JNum (int (sg_broadcast t)))]"

definition decode_signed :: "json \<Rightarrow> signed_tx option" where
  "decode_signed v =
     Option.bind (field_str ''kind'' v) (\<lambda>k.
     Option.bind (field_str ''hash'' v) (\<lambda>h.
     Option.bind (field_str ''raw'' v) (\<lambda>r.
     Option.bind (field_nat ''gas'' v) (\<lambda>g.
     Option.bind (field_str ''fee'' v) (\<lambda>f.
     Option.bind (field_str ''priority'' v) (\<lambda>p.
     Option.bind (field_nat ''created'' v) (\<lambda>c.
     Option.bind (field_nat ''broadcast'' v) (\<lambda>b.
       Some \<lparr>sg_kind = k, sg_hash = h, sg_raw = r, sg_gas = g, sg_fee = f, sg_priority = p,
             sg_created = c, sg_broadcast = b\<rparr>))))))))"

definition json_list :: "(json \<Rightarrow> 'a option) \<Rightarrow> json \<Rightarrow> 'a list option" where
  "json_list dec v = (case v of JArr xs \<Rightarrow> those (map dec xs) | _ \<Rightarrow> None)"

definition encode_attempt :: "sweep_attempt \<Rightarrow> json" where
  "encode_attempt a = JObj [(''request'', encode_request (sa_request a)), (''nonce'', JNum (int (sa_nonce a))),
     (''to'', JStr (sa_to a)), (''value'', JStr (sa_value a)), (''txs'', JArr (map encode_signed (sa_txs a)))]"

definition decode_attempt :: "json \<Rightarrow> sweep_attempt option" where
  "decode_attempt v =
     Option.bind (Option.bind (json_field ''request'' v) decode_request) (\<lambda>r.
     Option.bind (field_nat ''nonce'' v) (\<lambda>n.
     Option.bind (field_str ''to'' v) (\<lambda>t.
     Option.bind (field_str ''value'' v) (\<lambda>x.
     Option.bind (Option.bind (json_field ''txs'' v) (json_list decode_signed)) (\<lambda>ts.
       Some \<lparr>sa_request = r, sa_nonce = n, sa_to = t, sa_value = x, sa_txs = ts\<rparr>)))))"

definition encode_outcome :: "outcome \<Rightarrow> json" where
  "encode_outcome c = JObj [(''state'', JStr (oc_state c)), (''detail'', JStr (oc_detail c)),
     (''to'', json_option JStr (oc_to c)), (''value'', json_option JStr (oc_value c)),
     (''tx_hash'', json_option JStr (oc_tx c)), (''requested_at'', JNum (int (oc_requested c))),
     (''finished_at'', JNum (int (oc_finished c)))]"

definition decode_outcome :: "json \<Rightarrow> outcome option" where
  "decode_outcome v =
     Option.bind (field_str ''state'' v) (\<lambda>s.
     Option.bind (field_str ''detail'' v) (\<lambda>d.
     Option.bind (field_opt json_str ''to'' v) (\<lambda>t.
     Option.bind (field_opt json_str ''value'' v) (\<lambda>x.
     Option.bind (field_opt json_str ''tx_hash'' v) (\<lambda>h.
     Option.bind (field_nat ''requested_at'' v) (\<lambda>r.
     Option.bind (field_nat ''finished_at'' v) (\<lambda>f.
       Some \<lparr>oc_state = s, oc_detail = d, oc_to = t, oc_value = x, oc_tx = h, oc_requested = r,
             oc_finished = f\<rparr>)))))))"

section \<open>The operations\<close>

definition read_meta :: "(json \<Rightarrow> 'a option) \<Rightarrow> string \<Rightarrow> journal \<Rightarrow> error + 'a option" where
  "read_meta dec k j =
     optR (\<lambda>v. ok_or (Bail (''Corrupt journal entry '' @ k)) (Option.bind (as_json v) dec)) (meta j k)"

definition sweep_request_of :: "journal \<Rightarrow> error + sweep_request option" where
  "sweep_request_of j = read_meta decode_request REQUEST_KEY j"

definition sweep_attempt_of :: "journal \<Rightarrow> error + sweep_attempt option" where
  "sweep_attempt_of j = read_meta decode_attempt SWEEP_ATTEMPT_KEY j"

definition sweep_last_of :: "journal \<Rightarrow> error + outcome option" where
  "sweep_last_of j = read_meta decode_outcome LAST_KEY j"

definition in_flight :: "journal \<Rightarrow> error + bool" where
  "in_flight j = bindR (sweep_attempt_of j) (\<lambda>a. Inr (a \<noteq> None))"

definition submit :: "sweep_request \<Rightarrow> journal \<Rightarrow> error + journal" where
  "submit r j =
     ensure (meta j ''scope'' \<noteq> None) (Bail ''Not an initialized keeper journal'')
      (ensure (meta j REQUEST_KEY = None \<and> meta j SWEEP_ATTEMPT_KEY = None)
         (Bail ''A sweep is already queued or in flight; check `sweep --status`'')
         (Inr (meta_put REQUEST_KEY (Json (encode_request r)) j)))"

definition cancel_request :: "journal \<Rightarrow> bool \<times> journal" where
  "cancel_request j = (meta j REQUEST_KEY \<noteq> None, meta_delete (\<lambda>k. k = REQUEST_KEY) j)"

definition start_marked :: "sweep_attempt \<Rightarrow> mark option \<Rightarrow> journal \<Rightarrow> error + journal" where
  "start_marked a m j =
     ensure (count_where active (txs j) = 0)
       (Bail ''A game or epoch attempt owns the nonce lane; sweep not signed'')
      (bindR (i64_try TryFromInt (sa_nonce a)) (\<lambda>n.
         ensure (n \<ge> meta_int NONCE_FLOOR_KEY j) (Bail ''Sweep nonce below the durable nonce floor'')
          (ensure (meta j REQUEST_KEY = Some (Json (encode_request (sa_request a))))
             (Bail ''Sweep request changed before signing'')
             (let j1 = meta_delete (\<lambda>k. k = REQUEST_KEY) j;
                  (j2, inserted) = meta_insert SWEEP_ATTEMPT_KEY (Json (encode_attempt a)) j1
              in ensure inserted (Bail ''A sweep is already in flight'') (write_mark_opt m j2)))))"

definition start :: "sweep_attempt \<Rightarrow> journal \<Rightarrow> error + journal" where
  "start a j = start_marked a None j"

definition save :: "sweep_attempt \<Rightarrow> journal \<Rightarrow> error + journal" where
  "save a j =
     ensure (meta j SWEEP_ATTEMPT_KEY \<noteq> None) (Bail ''Sweep attempt missing'')
       (Inr (meta_put SWEEP_ATTEMPT_KEY (Json (encode_attempt a)) j))"

definition save_marked :: "sweep_attempt \<Rightarrow> mark option \<Rightarrow> journal \<Rightarrow> error + journal" where
  "save_marked a m j = bindR (save a j) (write_mark_opt m)"

definition record_outcome :: "outcome \<Rightarrow> journal \<Rightarrow> journal" where
  "record_outcome c j = meta_put LAST_KEY (Json (encode_outcome c)) j"

definition finish_marked :: "nat \<Rightarrow> outcome \<Rightarrow> mark option \<Rightarrow> journal \<Rightarrow> error + journal" where
  "finish_marked n c m j =
     ensure (n < u64_max) NonceOverflow
      (bindR (write_mark_opt m j) (\<lambda>j1.
         ensure (meta j1 SWEEP_ATTEMPT_KEY \<noteq> None) (Bail ''Sweep attempt missing'')
           (Inr (raise_floor (int n + 1)
                   (record_outcome c (meta_delete (\<lambda>k. k = SWEEP_ATTEMPT_KEY) j1))))))"

definition finish :: "nat \<Rightarrow> outcome \<Rightarrow> journal \<Rightarrow> error + journal" where
  "finish n c j = finish_marked n c None j"

definition refuse :: "sweep_request \<Rightarrow> string \<Rightarrow> nat \<Rightarrow> journal \<Rightarrow> journal" where
  "refuse r detail now j =
     record_outcome \<lparr>oc_state = ''refused'', oc_detail = detail, oc_to = None, oc_value = None, oc_tx = None,
         oc_requested = rq_at r, oc_finished = now\<rparr>
       (if meta j REQUEST_KEY = Some (Json (encode_request r)) then meta_delete (\<lambda>k. k = REQUEST_KEY) j else j)"

text \<open>What the operator sees, without signed bytes.\<close>

definition shown_amount :: "(string \<Rightarrow> nat option) \<Rightarrow> string \<Rightarrow> json" where
  "shown_amount u256_parse wei = JStr (case u256_parse wei of Some n \<Rightarrow> format_usdc n | None \<Rightarrow> wei)"

definition sweep_status :: "(string \<Rightarrow> nat option) \<Rightarrow> journal \<Rightarrow> error + json" where
  "sweep_status u256_parse j =
     (let u = unit_of_journal j in
      bindR (sweep_attempt_of j) (\<lambda>a.
      bindR (sweep_request_of j) (\<lambda>r.
      bindR (sweep_last_of j) (\<lambda>l.
        Inr (JObj [
          (''queued'', json_option (\<lambda>r. JObj [(''mode'', JStr (mode_name (rq_mode r))),
             (unit_key u, shown_amount u256_parse (rq_wei r)), (''requested_at'', JNum (int (rq_at r)))]) r),
          (''in_flight'', json_option (\<lambda>a. JObj [(''nonce'', JNum (int (sa_nonce a))), (''to'', JStr (sa_to a)),
             (''value_'' @ unit_key u, shown_amount u256_parse (sa_value a)),
             (''requested_at'', JNum (int (rq_at (sa_request a)))),
             (''transactions'', JArr (map (\<lambda>t. JObj [(''kind'', JStr (sg_kind t)), (''hash'', JStr (sg_hash t)),
                                        (''created'', JNum (int (sg_created t)))]) (sa_txs a)))]) a),
          (''last'', json_option encode_outcome l)])))))"

section \<open>A sweep leaves the reserve\<close>

text \<open>C19: A sweep leaves the reserve and the gas. When a value is planned, it is positive, and the wallet
  can pay it with the gas and still hold the reserve; a request for an amount gets exactly that
  amount, and a request to keep an amount leaves exactly that amount after gas.\<close>

theorem plan_keeps_reserve:
  assumes "plan u256_parse r balance gas_cost reserve u = Inr value" and "balance < u256_max"
  shows "0 < value \<and> value + gas_cost + reserve \<le> balance
    \<and> (\<exists>wei. u256_parse (rq_wei r) = Some wei \<and> (rq_mode r = Amount \<longrightarrow> value = wei)
         \<and> (rq_mode r = Keep \<longrightarrow> value + gas_cost + wei = balance))"
proof -
  from assms(1) obtain wei where w: "u256_parse (rq_wei r) = Some wei"
    by (auto simp: plan_def split: option.splits)
  show ?thesis
  proof (cases "rq_mode r")
    case Amount
    then have "wei \<noteq> 0" "value = wei" "min (wei + reserve) u256_max \<le> balance - gas_cost"
      using assms(1) w by (auto simp: plan_def Let_def split: if_splits)
    with assms(2) w Amount show ?thesis by (auto simp: min_def split: if_splits)
  next
    case Keep
    then have "reserve \<le> wei" "value = balance - gas_cost - wei" "value \<noteq> 0"
      using assms(1) w by (auto simp: plan_def Let_def split: if_splits)
    with w Keep show ?thesis by simp
  qed
qed

theorem plan_keeps_reserve_witness:
  "plan (\<lambda>_. Some 5) \<lparr>rq_mode = Keep, rq_wei = ''5'', rq_at = 1\<rparr> 20 2 3 Eth = Inr 13 \<and> 13 + 2 + 3 \<le> (20::nat)"
proof -
  have a: "plan (\<lambda>_. Some 5) \<lparr>rq_mode = Keep, rq_wei = ''5'', rq_at = 1\<rparr> 20 2 3 Eth = Inr 13"
    by (simp add: plan_def Let_def)
  show ?thesis using a plan_keeps_reserve [OF a] by (simp add: u256_max_def)
qed

section \<open>Amounts read back\<close>

lemma digits_value_append_zeros:
  "digits_value (s @ replicate k (CHR ''0'')) = digits_value s * 10 ^ k"
proof (induction k)
  case (Suc k)
  have "replicate (Suc k) (CHR ''0'') = replicate k (CHR ''0'') @ [CHR ''0'']" by (simp add: replicate_append_same)
  then have "digits_value (s @ replicate (Suc k) (CHR ''0'')) = 10 * digits_value (s @ replicate k (CHR ''0''))"
    by (simp add: digits_value_def digit_value_def)
  then show ?case using Suc by simp
qed (simp add: digits_value_def)

lemma digits_value_prepend_zeros:
  "digits_value (replicate k (CHR ''0'') @ s) = digits_value s"
  by (induction k) (simp_all add: digits_value_def digit_value_def)

lemma trim_end_zeros_restore:
  "trim_end_zeros s @ replicate (length s - length (trim_end_zeros s)) (CHR ''0'') = s
   \<and> length (trim_end_zeros s) \<le> length s"
proof (induction s rule: rev_induct)
  case (snoc c s)
  show ?case
  proof (cases "c = CHR ''0''")
    case True
    have t: "trim_end_zeros (s @ [c]) = trim_end_zeros s" using True by (simp add: trim_end_zeros_def)
    have r: "replicate (Suc (length s) - length (trim_end_zeros s)) (CHR ''0'')
        = replicate (length s - length (trim_end_zeros s)) (CHR ''0'') @ [c]"
      using snoc True by (simp add: Suc_diff_le replicate_append_same)
    have "(trim_end_zeros s @ replicate (length s - length (trim_end_zeros s)) (CHR ''0'')) @ [c] = s @ [c]"
      using snoc by simp
    then show ?thesis using snoc unfolding t by (simp add: r)
  qed (simp add: trim_end_zeros_def)
qed (simp add: trim_end_zeros_def)

lemma trim_id:
  assumes "list_all (\<lambda>c. \<not> is_space c) s"
  shows "trim s = s"
proof -
  have "dropWhile is_space t = t" if "list_all (\<lambda>c. \<not> is_space c) t" for t
    using that by (cases t) simp_all
  from this [of s] this [of "rev s"] assms show ?thesis by (simp add: trim_def list_all_iff)
qed

lemma length_show_nat_le: "n < 10 ^ k \<Longrightarrow> 0 < k \<Longrightarrow> length (show_nat n) \<le> k"
proof (induction k arbitrary: n)
  case (Suc k)
  show ?case
  proof (cases "n < 10")
    case True
    then show ?thesis by (subst show_nat.simps) simp
  next
    case False
    then have "k \<noteq> 0" using Suc.prems(1) by (cases k) auto
    moreover have "n div 10 < 10 ^ k" using Suc.prems(1) by (simp add: less_mult_imp_div_less)
    ultimately have "length (show_nat (n div 10)) \<le> k" using Suc.IH by simp
    then show ?thesis using False by (subst show_nat.simps) simp
  qed
qed simp

lemma pad18_props:
  assumes "n < MIN_RESERVE_WEI"
  shows "length (pad18 n) = 18" and "list_all is_digit (pad18 n)" and "digits_value (pad18 n) = n"
proof -
  have "length (show_nat n) \<le> 18" using length_show_nat_le [of n 18] assms by (simp add: MIN_RESERVE_WEI_def)
  then show "length (pad18 n) = 18" by (simp add: pad18_def)
  show "list_all is_digit (pad18 n)"
    using show_nat_digits [of n] by (auto simp: pad18_def list_all_iff is_digit_def)
  show "digits_value (pad18 n) = n" by (simp add: pad18_def digits_value_prepend_zeros)
qed

text \<open>C20: Amounts round-trip. Whatever amount of wei is printed, reading the printed text gives it back,
  provided that \<open>FromStr\<close> of \<open>U256\<close> reads decimal digits as their value.\<close>

theorem amount_roundtrip:
  assumes dec: "\<And>ds. ds \<noteq> [] \<Longrightarrow> list_all is_digit ds \<Longrightarrow> digits_value ds \<le> u256_max
      \<Longrightarrow> u256_parse ds = Some (digits_value ds)"
    and "wei \<le> u256_max"
  shows "parse_amount u256_parse (format_usdc wei) token = Inr wei"
proof -
  let ?w = "show_nat (wei div MIN_RESERVE_WEI)" and ?p = "pad18 (wei mod MIN_RESERVE_WEI)"
  let ?f = "trim_end_zeros ?p"
  have unit: "0 < MIN_RESERVE_WEI" by (simp add: MIN_RESERVE_WEI_def)
  note P = pad18_props [OF mod_less_divisor [OF unit, of wei]]
  note W = show_nat_digits [of "wei div MIN_RESERVE_WEI"]
  have restore: "?f @ replicate (18 - length ?f) (CHR ''0'') = ?p" and len: "length ?f \<le> 18"
    using trim_end_zeros_restore [of ?p] P(1) by simp_all
  have "set ?f \<subseteq> set ?p" unfolding trim_end_zeros_def using set_dropWhileD by fastforce
  then have F: "list_all is_digit ?f" using P(2) by (auto simp: list_all_iff)
  have digits: "c \<noteq> CHR ''.''" "\<not> is_space c" if "is_digit c" for c
    using that by (auto simp: is_digit_def is_space_def)
  have split: "split_dot (trim (format_usdc wei)) = (?w, ?f)"
  proof -
    have "list_all (\<lambda>c. \<not> is_space c) (format_usdc wei)"
      using W F digits(2) by (auto simp: format_usdc_def Let_def list_all_iff is_space_def)
    then have t: "trim (format_usdc wei) = format_usdc wei" by (rule trim_id)
    have dot: "takeWhile (\<lambda>c. c \<noteq> CHR ''.'') (?w @ CHR ''.'' # x) = ?w"
      "dropWhile (\<lambda>c. c \<noteq> CHR ''.'') (?w @ CHR ''.'' # x) = CHR ''.'' # x" for x
      using W digits(1) by (auto simp: list_all_iff takeWhile_append2 dropWhile_append2)
    have whole: "takeWhile (\<lambda>c. c \<noteq> CHR ''.'') ?w = ?w" "dropWhile (\<lambda>c. c \<noteq> CHR ''.'') ?w = []"
      using W digits(1) by (auto simp: list_all_iff)
    show ?thesis
    proof (cases "?f = []")
      case True
      then have "format_usdc wei = ?w" by (simp add: format_usdc_def)
      then show ?thesis unfolding t by (simp only: split_dot_def whole True drop_Nil)
    next
      case False
      then have "format_usdc wei = ?w @ CHR ''.'' # ?f" by (simp add: format_usdc_def)
      then show ?thesis unfolding t by (simp add: split_dot_def dot)
    qed
  qed
  have "wei mod MIN_RESERVE_WEI \<le> wei" "wei div MIN_RESERVE_WEI \<le> wei" by simp_all
  then have le: "wei mod MIN_RESERVE_WEI \<le> u256_max" "wei div MIN_RESERVE_WEI \<le> u256_max"
    using assms(2) by linarith+
  have "u256_parse ?w = Some (wei div MIN_RESERVE_WEI)" using dec [of ?w] W le by simp
  moreover have "u256_parse ?p = Some (wei mod MIN_RESERVE_WEI)"
    using dec [of ?p] P le by (cases ?p) auto
  moreover have "wei div MIN_RESERVE_WEI * MIN_RESERVE_WEI + wei mod MIN_RESERVE_WEI = wei" by simp
  moreover from this have "wei div MIN_RESERVE_WEI * MIN_RESERVE_WEI \<le> u256_max" using assms(2) by linarith
  ultimately show ?thesis
    using assms(2) W F len restore split by (simp add: parse_amount_def)
qed

theorem amount_roundtrip_witness:
  "parse_amount (\<lambda>ds. Some (digits_value ds)) (format_usdc 2500000000000000000) ''ETH'' = Inr 2500000000000000000"
  using amount_roundtrip [of "\<lambda>ds. Some (digits_value ds)" 2500000000000000000 "''ETH''"]
  by (simp add: u256_max_def)

section \<open>A sweep and the nonce lane\<close>

lemma mode_parse_name [simp]: "mode_parse (mode_name m) = Some m"
  by (cases m) (simp_all add: mode_parse_def mode_name_def)

lemma decode_encode_request [simp]: "decode_request (encode_request r) = Some r"
  by (simp add: decode_request_def encode_request_def field_str_def field_nat_def)

lemma decode_encode_signed [simp]: "decode_signed (encode_signed t) = Some t"
  by (simp add: decode_signed_def encode_signed_def field_str_def field_nat_def)

lemma those_map_decode: "(\<And>x. dec (enc x) = Some x) \<Longrightarrow> those (map dec (map enc xs)) = Some xs"
  by (induction xs) simp_all

lemma decode_encode_attempt [simp]: "decode_attempt (encode_attempt a) = Some a"
  using those_map_decode [of decode_signed encode_signed "sa_txs a"]
  by (simp add: decode_attempt_def encode_attempt_def field_str_def field_nat_def json_list_def)

lemma decode_encode_outcome [simp]: "decode_outcome (encode_outcome c) = Some c"
proof -
  have "field_opt json_str ''to'' (encode_outcome c) = Some (oc_to c)"
    "field_opt json_str ''value'' (encode_outcome c) = Some (oc_value c)"
    "field_opt json_str ''tx_hash'' (encode_outcome c) = Some (oc_tx c)"
    by (cases "oc_to c"; cases "oc_value c"; cases "oc_tx c";
        simp add: encode_outcome_def field_opt_def json_option_def)+
  then show ?thesis by (simp add: decode_outcome_def encode_outcome_def field_str_def field_nat_def)
qed

lemma sweep_keys [simp]:
  "REQUEST_KEY \<noteq> ''audit:dropped''" "LAST_KEY \<noteq> ''audit:dropped''"
  "REQUEST_KEY \<noteq> SWEEP_ATTEMPT_KEY" "SWEEP_ATTEMPT_KEY \<noteq> REQUEST_KEY"
  "LAST_KEY \<noteq> SWEEP_ATTEMPT_KEY" "SWEEP_ATTEMPT_KEY \<noteq> LAST_KEY"
  "REQUEST_KEY \<noteq> NONCE_FLOOR_KEY" "LAST_KEY \<noteq> NONCE_FLOOR_KEY" "NONCE_FLOOR_KEY \<noteq> REQUEST_KEY"
  "NONCE_FLOOR_KEY \<noteq> LAST_KEY" "''scope'' \<noteq> SWEEP_ATTEMPT_KEY" "''scope'' \<noteq> REQUEST_KEY"
  by (simp_all add: REQUEST_KEY_def LAST_KEY_def SWEEP_ATTEMPT_KEY_def NONCE_FLOOR_KEY_def)

lemma start_marked_Inr:
  assumes "start_marked a m j = Inr j'"
  shows "(\<forall>t \<in> set (txs j). \<not> active t) \<and> txs j' = txs j \<and> jobs j' = jobs j
    \<and> int (sa_nonce a) \<le> i64_max \<and> floor_value j \<le> int (sa_nonce a)
    \<and> meta j' SWEEP_ATTEMPT_KEY = Some (Json (encode_attempt a)) \<and> meta j' REQUEST_KEY = None
    \<and> meta j' NONCE_FLOOR_KEY = meta j NONCE_FLOOR_KEY"
proof -
  let ?j = "meta_put SWEEP_ATTEMPT_KEY (Json (encode_attempt a)) (meta_delete (\<lambda>k. k = REQUEST_KEY) j)"
  from assms have none: "\<forall>t \<in> set (txs j). \<not> active t" and n: "int (sa_nonce a) \<le> i64_max"
    "meta_int NONCE_FLOOR_KEY j \<le> int (sa_nonce a)" and w: "write_mark_opt m ?j = Inr j'"
    by (auto simp: start_marked_def result_simps meta_insert_def Let_def split: if_splits)
  show ?thesis
    using none n write_mark_opt_frame [OF w] by (simp add: floor_value_def meta_int_def)
qed

lemma finish_marked_Inr:
  assumes "finish_marked n c m j = Inr j'"
  obtains j1 where "write_mark_opt m j = Inr j1" and "meta j SWEEP_ATTEMPT_KEY \<noteq> None"
    and "j' = raise_floor (int n + 1) (record_outcome c (meta_delete (\<lambda>k. k = SWEEP_ATTEMPT_KEY) j1))"
proof -
  from assms obtain j1 where w: "write_mark_opt m j = Inr j1" "meta j1 SWEEP_ATTEMPT_KEY \<noteq> None"
    "j' = raise_floor (int n + 1) (record_outcome c (meta_delete (\<lambda>k. k = SWEEP_ATTEMPT_KEY) j1))"
    unfolding finish_marked_def ensure_Inr_iff bindR_Inr_iff by blast
  show thesis
    by (rule that [OF w(1) _ w(3)]) (use w(2) write_mark_opt_frame [OF w(1)] in simp)
qed


definition sample_sweep :: sweep_attempt where
  "sample_sweep = \<lparr>sa_request = \<lparr>rq_mode = Amount, rq_wei = ''5'', rq_at = 1\<rparr>, sa_nonce = 4, sa_to = ''0xaa'',
     sa_value = ''5'', sa_txs = []\<rparr>"


end
