(* ===== verification/Fees.thy ===== *)
theory Fees
  imports Config
begin

text \<open>
  Fees and gas of the keeper's transactions (\<open>worker.rs\<close>): what a send and its replacement pay, the
  caps a plan is held to, the gas a fulfillment is sent with and how many members of a batch fit a
  cap. Amounts are \<open>u128\<close>, gas is \<open>u64\<close> and a callback limit \<open>u32\<close>; each is a \<open>nat\<close> with its checked and
  saturating operations written out at its width.
\<close>

definition checked :: "nat \<Rightarrow> nat \<Rightarrow> nat option" where
  "checked most n = (if n \<le> most then Some n else None)"

definition sat128 :: "nat \<Rightarrow> nat" where
  "sat128 n = min n u128_max"

definition div_ceil :: "nat \<Rightarrow> nat \<Rightarrow> nat" where
  "div_ceil a b = (a + b - 1) div b"

section \<open>Prices\<close>

definition RECEIPT_VISIBILITY_GRACE_SECONDS :: nat where "RECEIPT_VISIBILITY_GRACE_SECONDS = 30"

definition awaiting_receipt_visibility :: "nat \<Rightarrow> attempt \<Rightarrow> bool" where
  "awaiting_receipt_visibility now a =
     (sat_sub now (nat (max (max (broadcast a) (created a)) 0)) < RECEIPT_VISIBILITY_GRACE_SECONDS)"

definition required_fee :: "nat \<Rightarrow> nat \<Rightarrow> error + nat" where
  "required_fee base_fee priority' =
     ok_or (Bail ''Fee overflow'')
       (Option.bind (checked u128_max (base_fee * 2)) (\<lambda>f. checked u128_max (f + priority')))"

text \<open>\<open>clamp\<close> panics when \<open>min\<close> is above \<open>max\<close>, which the configuration refuses.\<close>

definition bounded_priority :: "nat option \<Rightarrow> nat \<Rightarrow> nat \<Rightarrow> nat" where
  "bounded_priority observed lo hi = (let p = (case observed of None \<Rightarrow> lo | Some p \<Rightarrow> p)
     in if p < lo then lo else if p > hi then hi else p)"

definition bump :: "nat \<Rightarrow> error + nat" where
  "bump v = bindR (ok_or (Bail ''Fee overflow'') (checked u128_max (v * 9))) (\<lambda>n. Inr (n div 8 + 1))"

definition replacement_fees :: "nat \<Rightarrow> nat \<Rightarrow> nat \<Rightarrow> nat \<Rightarrow> error + nat \<times> nat" where
  "replacement_fees previous_priority previous_fee base_fee tip =
     bindR (bump previous_priority) (\<lambda>p.
     bindR (bump previous_fee) (\<lambda>f.
       let priority' = max p tip;
           fee' = max f (sat128 (sat128 (base_fee * 2) + priority'))
       in Inr (fee', priority')))"

section \<open>Budgets\<close>

datatype fee_cap = MaxGas | MaxFeePerGas | CancelMaxFeePerGas | MaxTxCost | FeeCoverage

record fee_budget =
  fb_cap :: fee_cap
  fb_required :: nat
  fb_limit :: nat

record tx_plan =
  pl_nonce :: nat
  pl_gas :: nat
  pl_fee :: nat
  pl_priority :: nat
  pl_payload :: string
  pl_kind :: string

definition fee_headroom :: "nat \<Rightarrow> nat \<Rightarrow> nat \<Rightarrow> fee_budget option" where
  "fee_headroom base_fee priority' max_fee =
     (let required = sat128 (sat128 (base_fee * 2) + priority') in
      if required > max_fee
      then Some \<lparr>fb_cap = MaxFeePerGas, fb_required = required, fb_limit = max_fee\<rparr> else None)"

definition expected_cost :: "nat \<Rightarrow> nat \<Rightarrow> nat \<Rightarrow> nat" where
  "expected_cost base_fee priority' gas' = sat128 (sat128 (base_fee + priority') * gas')"

definition uncovered :: "nat \<Rightarrow> nat \<Rightarrow> nat \<Rightarrow> fee_budget option" where
  "uncovered cost fees coverage_bps =
     (let required = sat128 (cost * coverage_bps) div 10000 in
      if coverage_bps \<noteq> 0 \<and> required > fees
      then Some \<lparr>fb_cap = FeeCoverage, fb_required = required, fb_limit = fees\<rparr> else None)"

definition over_budget :: "tx_plan \<Rightarrow> nat \<Rightarrow> nat \<Rightarrow> nat \<Rightarrow> fee_budget option" where
  "over_budget p fulfill_cap cancel_cap max_cost =
     (let (cap, limit) = (if pl_kind p = ''cancel'' \<or> pl_kind p = ''epoch_cancel''
                          then (CancelMaxFeePerGas, cancel_cap) else (MaxFeePerGas, fulfill_cap)) in
      if pl_fee p > limit then Some \<lparr>fb_cap = cap, fb_required = pl_fee p, fb_limit = limit\<rparr>
      else case checked u128_max (pl_fee p * pl_gas p) of
             Some cost \<Rightarrow> if cost \<le> max_cost then None
                          else Some \<lparr>fb_cap = MaxTxCost, fb_required = cost, fb_limit = max_cost\<rparr>
           | None \<Rightarrow> Some \<lparr>fb_cap = MaxTxCost, fb_required = u128_max, fb_limit = max_cost\<rparr>)"

section \<open>Gas\<close>

definition CALLBACK_RESERVE_GAS :: nat where "CALLBACK_RESERVE_GAS = 140000"
definition MEMBER_OVERHEAD_GAS :: nat where "MEMBER_OVERHEAD_GAS = 400000"
definition FULFILL_TX_GAS :: nat where "FULFILL_TX_GAS = 21000 + 16 * 132 + 50000"
definition FULFILL_MEMBER_TX_GAS :: nat where "FULFILL_MEMBER_TX_GAS = 16 * 448 + 20000"

definition budget_step :: "nat option \<Rightarrow> nat \<Rightarrow> nat option" where
  "budget_step gas' limit = Option.bind gas' (\<lambda>g. checked u64_max (g + (limit + limit div 63 + MEMBER_OVERHEAD_GAS)))"

definition guard_budget :: "nat list \<Rightarrow> nat option" where
  "guard_budget limits = foldl budget_step (Some CALLBACK_RESERVE_GAS) limits"

definition fulfillment_floor :: "nat list \<Rightarrow> nat option" where
  "fulfillment_floor limits =
     Option.bind (checked u64_max (length limits)) (\<lambda>n.
     Option.bind (checked u64_max (FULFILL_MEMBER_TX_GAS * n)) (\<lambda>a.
     Option.bind (checked u64_max (a + FULFILL_TX_GAS)) (\<lambda>b.
     Option.bind (guard_budget limits) (\<lambda>g.
     Option.bind (checked u64_max (b + g)) (\<lambda>needed.
       checked u64_max (needed + div_ceil needed 63))))))"

definition fulfillment_gas_l1 :: "nat \<Rightarrow> nat list \<Rightarrow> nat \<Rightarrow> error + nat" where
  "fulfillment_gas_l1 estimate limits l1 =
     ensure (limits \<noteq> []) (Bail ''A fulfillment has members'')
      (case (guard_budget limits, fulfillment_floor limits) of
         (Some budget, Some floor) \<Rightarrow>
           bindR (ok_or (Bail ''Gas overflow'') (checked u64_max (floor + l1))) (\<lambda>floor'.
             let padding = max (sat_sub estimate budget div 5) 50000 in
             bindR (ok_or (Bail ''Gas overflow'') (checked u64_max (estimate + padding))) (\<lambda>padded.
               Inr (max padded floor')))
       | _ \<Rightarrow> Inl (Bail ''Gas overflow''))"

definition arbitrum_cancel_gas :: "nat \<Rightarrow> nat" where
  "arbitrum_cancel_gas needed = CANCEL_GAS_BOUND"

definition with_l1_margin :: "nat \<Rightarrow> nat \<Rightarrow> nat" where
  "with_l1_margin l1 margin_bps =
     (let grown = div_ceil (l1 * (10000 + margin_bps)) 10000 in if grown \<le> u64_max then grown else u64_max)"

definition gas_cap :: "nat \<Rightarrow> nat \<Rightarrow> nat \<Rightarrow> nat" where
  "gas_cap max_gas max_cost fee' =
     (if fee' = 0 then max_gas
      else let by_cost = max_cost div fee' in min max_gas (if by_cost \<le> u64_max then by_cost else u64_max))"

text \<open>Whether the first \<open>count\<close> members of a batch fit the cap.\<close>

definition count_fits :: "nat \<Rightarrow> nat list \<Rightarrow> nat \<Rightarrow> nat \<Rightarrow> nat \<Rightarrow> bool" where
  "count_fits share limits cap l1_each count =
     (count \<le> u64_max \<and>
      (let ms = take count limits; l1 = min (l1_each * count) u64_max in
       case (checked u64_max (share * count),
             Option.bind (fulfillment_floor ms) (\<lambda>f. checked u64_max (f + l1))) of
         (Some e, Some f) \<Rightarrow> (case fulfillment_gas_l1 (max e f) ms l1 of Inr g \<Rightarrow> g \<le> cap | Inl _ \<Rightarrow> False)
       | _ \<Rightarrow> False))"

definition members_within_l1 :: "nat \<Rightarrow> nat list \<Rightarrow> nat \<Rightarrow> nat \<Rightarrow> nat" where
  "members_within_l1 estimate limits cap l1_each =
     (if length limits > u64_max \<or> limits = [] then 0
      else let share = div_ceil estimate (length limits);
               fitting = takeWhile (count_fits share limits cap l1_each) [1..<Suc (length limits)]
           in if fitting = [] then 0 else last fitting)"

section \<open>Prices and budgets\<close>

lemma checked_Some_iff [result_simps]: "checked most n = Some m \<longleftrightarrow> m = n \<and> n \<le> most"
  by (auto simp: checked_def)

lemma checked_None_iff [result_simps]: "checked most n = None \<longleftrightarrow> most < n"
  by (auto simp: checked_def)

lemma bind_Some_iff [result_simps]: "Option.bind x f = Some y \<longleftrightarrow> (\<exists>z. x = Some z \<and> f z = Some y)"
  by (cases x) auto

lemma bump_Inr_iff [result_simps]: "bump v = Inr w \<longleftrightarrow> v * 9 \<le> u128_max \<and> w = v * 9 div 8 + 1"
  by (auto simp: bump_def result_simps)

text \<open>C29: A replacement is always accepted as one. Whenever its fees can be computed, both the fee and the
  tip are more than 12.5% above those of the attempt it replaces, the tip is at least the market's,
  the fee covers twice the base fee and that tip (or is the largest amount there is), and both are
  \<open>u128\<close> amounts; and they can be computed exactly when nine times the previous fee and tip are.\<close>

theorem replacement_outbids:
  assumes "previous_priority \<le> u128_max" and "previous_fee \<le> u128_max" and "tip \<le> u128_max"
  shows "(case replacement_fees previous_priority previous_fee base_fee tip of
      Inr (fee', tip') \<Rightarrow> 9 * previous_fee < 8 * fee' \<and> 9 * previous_priority < 8 * tip' \<and> tip \<le> tip'
        \<and> min (2 * base_fee + tip') u128_max \<le> fee' \<and> fee' \<le> u128_max \<and> tip' \<le> u128_max
        \<and> 9 * previous_fee \<le> u128_max \<and> 9 * previous_priority \<le> u128_max
    | Inl e \<Rightarrow> e = Bail ''Fee overflow'' \<and> (u128_max < 9 * previous_fee \<or> u128_max < 9 * previous_priority))"
proof -
  have up: "9 * v < 8 * (v * 9 div 8 + 1)" for v :: nat by simp
  have most: "v * 9 div 8 + 1 \<le> u128_max" if "v * 9 \<le> u128_max" "1 < u128_max" for v :: nat
    using that by (cases "v = 0") auto
  have one: "1 < u128_max" by (simp add: u128_max_def)
  show ?thesis
  proof (cases "previous_priority * 9 \<le> u128_max \<and> previous_fee * 9 \<le> u128_max")
    case True
    define a b where "a = previous_priority * 9 div 8 + 1" and "b = previous_fee * 9 div 8 + 1"
    have ab: "9 * previous_priority < 8 * a" "9 * previous_fee < 8 * b" "a \<le> u128_max" "b \<le> u128_max"
      using True up [of previous_priority] up [of previous_fee] most [OF _ one] by (simp_all add: a_def b_def)
    have "replacement_fees previous_priority previous_fee base_fee tip =
        Inr (max b (sat128 (sat128 (base_fee * 2) + max a tip)), max a tip)"
      using True by (simp add: replacement_fees_def bump_def checked_def a_def b_def Let_def)
    then show ?thesis
      using True ab assms(3) by (simp add: sat128_def mult.commute) (simp add: max_def min_def)
  next
    case False
    then show ?thesis by (auto simp: replacement_fees_def bump_def checked_def mult.commute split: if_splits)
  qed
qed

theorem replacement_outbids_witness:
  "replacement_fees 8 80 40 5 = Inr (91, 10) \<and> 9 * 80 < 8 * (91 :: nat) \<and> 5 \<le> (10 :: nat)"
proof -
  have "replacement_fees 8 80 40 5 = Inr (91, 10)"
    by (simp add: replacement_fees_def bump_def checked_def sat128_def u128_max_def Let_def)
  then show ?thesis using replacement_outbids [of 8 80 5 40] by (simp add: u128_max_def)
qed

lemma over_budget_None_iff:
  "over_budget p fulfill_cap cancel_cap max_cost = None \<longleftrightarrow>
     pl_fee p \<le> (if pl_kind p = ''cancel'' \<or> pl_kind p = ''epoch_cancel'' then cancel_cap else fulfill_cap)
     \<and> pl_fee p * pl_gas p \<le> max_cost \<and> pl_fee p * pl_gas p \<le> u128_max"
  by (auto simp: over_budget_def checked_def Let_def)

definition cancel_gas_of :: "config \<Rightarrow> nat" where
  "cancel_gas_of c = (case cs_gas_model (c_chain c) of Standard \<Rightarrow> CANCEL_GAS | Arbitrum \<Rightarrow> CANCEL_GAS_BOUND)"

text \<open>C27: A nonce can always be freed. Under a configuration that loads, whatever fulfillment or
  publication was sent within its caps, the cancellation that replaces it at the least price a node
  takes for a replacement exists and is itself within the caps: its fee within the cancellation cap and
  its cost within the transaction cost, for the gas a cancellation is given under the gas model.\<close>

theorem recovery_within_caps:
  assumes "load ps once get = Inr c"
    and "over_budget p (c_max_fee c) (c_cancel_max_fee c) (c_max_cost c) = None"
    and "pl_kind p \<noteq> ''cancel''" and "pl_kind p \<noteq> ''epoch_cancel''"
  shows "\<exists>fee'. bump (pl_fee p) = Inr fee' \<and> 9 * pl_fee p < 8 * fee'
    \<and> over_budget (p\<lparr>pl_kind := ''cancel'', pl_gas := cancel_gas_of c, pl_fee := fee'\<rparr>)
        (c_max_fee c) (c_cancel_max_fee c) (c_max_cost c) = None"
proof -
  obtain c0 where "load_checks get c0 = Inr c" using assms(1) by (rule load_Inr)
  then have rb: "recovery_budget (c_max_fee c) (c_cancel_max_fee c) (c_max_cost c) (cancel_gas_of c) = Inr ()"
    using load_checks_Inr unfolding cancel_gas_of_def by blast
  define f where "f = c_max_fee c * 9 div 8 + 1"
  have b: "c_max_fee c * 9 \<le> u128_max" "f \<le> c_cancel_max_fee c" "f * cancel_gas_of c \<le> u128_max"
      "f * cancel_gas_of c \<le> c_max_cost c"
    using rb by (simp_all add: recovery_budget_def f_def ensure_Inr_iff Let_def)
  have fee: "pl_fee p \<le> c_max_fee c" using assms(2-4) by (simp add: over_budget_None_iff)
  have le: "pl_fee p * 9 div 8 + 1 \<le> f" unfolding f_def using fee by (simp add: div_le_mono)
  have "bump (pl_fee p) = Inr (pl_fee p * 9 div 8 + 1)"
    unfolding bump_Inr_iff using fee b(1) by simp
  moreover have "9 * pl_fee p < 8 * (pl_fee p * 9 div 8 + 1)" by simp
  moreover have "(pl_fee p * 9 div 8 + 1) * cancel_gas_of c \<le> f * cancel_gas_of c" using le by (rule mult_le_mono1)
  ultimately show ?thesis
    using b le by (intro exI [of _ "pl_fee p * 9 div 8 + 1"]) (simp add: over_budget_None_iff)
qed

lemma gas_cap_iff:
  assumes "gas' \<le> u64_max"
  shows "gas' \<le> gas_cap max_gas max_cost fee' \<longleftrightarrow> gas' \<le> max_gas \<and> fee' * gas' \<le> max_cost"
proof (cases "fee' = 0")
  case True
  then show ?thesis by (simp add: gas_cap_def)
next
  case False
  then have "gas' \<le> max_cost div fee' \<longleftrightarrow> fee' * gas' \<le> max_cost"
    by (simp add: less_eq_div_iff_mult_less_eq mult.commute)
  then show ?thesis using False assms by (auto simp: gas_cap_def Let_def)
qed

text \<open>C30: The gas cap is the budget. For every plan whose fee is within its cap, its gas is within the gas
  cap computed from that fee exactly when it is within \<open>MAX_GAS\<close> and the plan passes the budget check;
  so a batch shrunk to the gas cap is never refused as over budget, and none that would pass is shrunk.\<close>

theorem gas_cap_is_budget:
  assumes "pl_gas p \<le> u64_max" and "max_cost \<le> u128_max"
    and "pl_fee p \<le> (if pl_kind p = ''cancel'' \<or> pl_kind p = ''epoch_cancel'' then cancel_cap else fulfill_cap)"
  shows "pl_gas p \<le> gas_cap max_gas max_cost (pl_fee p) \<longleftrightarrow>
    pl_gas p \<le> max_gas \<and> over_budget p fulfill_cap cancel_cap max_cost = None"
  unfolding over_budget_None_iff gas_cap_iff [OF assms(1)] using assms(2,3) by auto

definition sample_plan :: tx_plan where
  "sample_plan = \<lparr>pl_nonce = 3, pl_gas = 100, pl_fee = 7, pl_priority = 0, pl_payload = [], pl_kind = ''fulfill''\<rparr>"

theorem gas_cap_is_budget_witness:
  "pl_gas sample_plan \<le> gas_cap 1000 700 7 \<and> over_budget sample_plan 8 9 700 = None"
  using gas_cap_is_budget [of sample_plan 700 9 8 1000]
  by (simp add: sample_plan_def u64_max_def u128_max_def gas_cap_def over_budget_None_iff Let_def)

theorem recovery_within_caps_witness:
  "\<exists>c fee'. load sample_parsers False sample_env = Inr c \<and> bump 7 = Inr fee'
    \<and> over_budget (sample_plan\<lparr>pl_kind := ''cancel'', pl_gas := cancel_gas_of c, pl_fee := fee'\<rparr>)
        (c_max_fee c) (c_cancel_max_fee c) (c_max_cost c) = None"
proof -
  obtain c where c: "load sample_parsers False sample_env = Inr c" "c_max_fee c = 8" "c_max_cost c = 1000000"
    using sample_load by blast
  have "over_budget sample_plan (c_max_fee c) (c_cancel_max_fee c) (c_max_cost c) = None"
    using c by (simp add: over_budget_None_iff sample_plan_def u128_max_def)
  then show ?thesis
    using recovery_within_caps [OF c(1), of sample_plan] c(1) by (auto simp: sample_plan_def)
qed

section \<open>Gas of a fulfillment\<close>

lemmas gas_consts = CALLBACK_RESERVE_GAS_def MEMBER_OVERHEAD_GAS_def FULFILL_TX_GAS_def FULFILL_MEMBER_TX_GAS_def

definition member_gas :: "nat \<Rightarrow> nat" where
  "member_gas limit = limit + limit div 63 + MEMBER_OVERHEAD_GAS"

definition budget_of :: "nat list \<Rightarrow> nat" where
  "budget_of limits = CALLBACK_RESERVE_GAS + sum_list (map member_gas limits)"

definition needed_of :: "nat list \<Rightarrow> nat" where
  "needed_of limits = FULFILL_MEMBER_TX_GAS * length limits + FULFILL_TX_GAS + budget_of limits"

definition floor_of :: "nat list \<Rightarrow> nat" where
  "floor_of limits = needed_of limits + div_ceil (needed_of limits) 63"

lemma budget_fold:
  "foldl budget_step x limits =
     Option.bind x (\<lambda>g. if limits = [] then Some g else checked u64_max (g + sum_list (map member_gas limits)))"
proof (induction limits arbitrary: x)
  case Nil
  then show ?case by (cases x) simp_all
next
  case (Cons l limits)
  have step: "budget_step x l = Option.bind x (\<lambda>g. checked u64_max (g + member_gas l))"
    by (simp add: budget_step_def member_gas_def)
  show ?case
    unfolding foldl_Cons Cons.IH step by (cases x) (auto simp: checked_def)
qed

lemma guard_budget_Some_iff [result_simps]:
  "guard_budget limits = Some b \<longleftrightarrow> b = budget_of limits \<and> budget_of limits \<le> u64_max"
  by (auto simp: guard_budget_def budget_fold budget_of_def checked_Some_iff gas_consts u64_max_def)

lemma fulfillment_floor_Some_iff [result_simps]:
  "fulfillment_floor limits = Some f \<longleftrightarrow> f = floor_of limits \<and> floor_of limits \<le> u64_max"
proof
  assume "fulfillment_floor limits = Some f"
  then show "f = floor_of limits \<and> floor_of limits \<le> u64_max"
    by (auto simp: fulfillment_floor_def floor_of_def needed_of_def Let_def result_simps)
next
  assume f: "f = floor_of limits \<and> floor_of limits \<le> u64_max"
  define m where "m = FULFILL_MEMBER_TX_GAS * length limits"
  have le: "length limits \<le> m" by (simp add: m_def gas_consts)
  have sum: "floor_of limits = m + FULFILL_TX_GAS + budget_of limits + div_ceil (m + FULFILL_TX_GAS + budget_of limits) 63"
    by (simp add: floor_of_def needed_of_def m_def)
  have "length limits \<le> u64_max" "m \<le> u64_max" "m + FULFILL_TX_GAS \<le> u64_max" "budget_of limits \<le> u64_max"
      "m + FULFILL_TX_GAS + budget_of limits \<le> u64_max"
    using f le unfolding sum by linarith+
  moreover from this have "guard_budget limits = Some (budget_of limits)" by (simp add: guard_budget_Some_iff)
  ultimately show "fulfillment_floor limits = Some f"
    using f sum by (simp add: fulfillment_floor_def checked_def m_def [symmetric])
qed

lemma floor_ge: "budget_of limits + FULFILL_MEMBER_TX_GAS * length limits + FULFILL_TX_GAS \<le> floor_of limits"
  by (simp add: floor_of_def needed_of_def)

definition gas_of :: "nat \<Rightarrow> nat list \<Rightarrow> nat \<Rightarrow> nat" where
  "gas_of estimate limits l1 =
     max (estimate + max ((estimate - budget_of limits) div 5) 50000) (floor_of limits + l1)"

lemma fulfillment_gas_Inr_iff [result_simps]:
  "fulfillment_gas_l1 estimate limits l1 = Inr g \<longleftrightarrow> limits \<noteq> [] \<and> g = gas_of estimate limits l1 \<and> g \<le> u64_max"
proof (cases "floor_of limits \<le> u64_max")
  case True
  then have "guard_budget limits = Some (budget_of limits)" "fulfillment_floor limits = Some (floor_of limits)"
    using floor_ge [of limits] by (simp_all add: guard_budget_Some_iff fulfillment_floor_Some_iff)
  then show ?thesis
    by (auto simp: fulfillment_gas_l1_def gas_of_def sat_sub_def Let_def ensure_Inr_iff bindR_Inr_iff
        ok_or_Inr_iff checked_Some_iff)
next
  case False
  then have "fulfillment_floor limits = None" by (cases "fulfillment_floor limits") (auto simp: fulfillment_floor_Some_iff)
  then show ?thesis
    using False by (auto simp: fulfillment_gas_l1_def gas_of_def ensure_Inr_iff split: option.splits)
qed

text \<open>What the coordinator does with the gas that is left: before each callback it requires the callback's
  limit, a 63rd of it and the reserve. A member is its limit, the gas its own work takes before the
  check and after it, and the gas its callback burns.\<close>

fun batch_served :: "nat \<Rightarrow> (nat \<times> nat \<times> nat) list \<Rightarrow> bool" where
  "batch_served supply' [] = True"
| "batch_served supply' ((limit, work, burned) # ms) =
     (limit + limit div 63 + CALLBACK_RESERVE_GAS \<le> supply' - work \<and> batch_served (supply' - work - burned) ms)"

lemma batch_served_enough:
  assumes "budget_of (map fst ms) \<le> supply'"
    and "list_all (\<lambda>(limit, work, burned). work \<le> MEMBER_OVERHEAD_GAS \<and> burned \<le> limit) ms"
  shows "batch_served supply' ms"
  using assms
proof (induction ms arbitrary: supply')
  case Nil
  then show ?case by simp
next
  case (Cons m ms)
  obtain limit work burned where m: "m = (limit, work, burned)" by (cases m)
  have "budget_of (map fst (m # ms)) = budget_of (map fst ms) + member_gas limit"
    by (simp add: budget_of_def m)
  then show ?case
    using Cons m by (auto simp: member_gas_def budget_of_def)
qed

lemma proxy_share:
  fixes n r :: nat
  assumes "n + div_ceil n 63 \<le> r"
  shows "n \<le> r - r div 64"
proof -
  have "n div 63 * 63 + n mod 63 = n" by simp
  then have "n \<le> 63 * div_ceil n 63" by (simp add: div_ceil_def)
  then have "64 * n \<le> 63 * r" using assms by linarith
  then show ?thesis by linarith
qed

text \<open>C26: A fulfillment that is sent cannot run out of gas through its callbacks. Take the gas limit the
  keeper computes, whatever the estimate was. Take away the L1 charge, what the transaction spends
  outside the coordinator's budget (before and after the proxy's call, together no more than the keeper
  allows for it) and the 64th that the proxy's call keeps back. Then every member passes the
  coordinator's check, in order, even when each callback burns its whole limit and each member's own
  work takes all that the coordinator budgets for it.\<close>

theorem fulfillment_gas_suffices:
  assumes "fulfillment_gas_l1 estimate (map fst ms) l1 = Inr supply'"
    and "before + after \<le> FULFILL_TX_GAS + FULFILL_MEMBER_TX_GAS * length ms"
    and "list_all (\<lambda>(limit, work, burned). work \<le> MEMBER_OVERHEAD_GAS \<and> burned \<le> limit) ms"
  shows "l1 + before \<le> supply'
    \<and> (let left = supply' - l1 - before in batch_served (left - left div 64 - after) ms)"
proof -
  define n where "n = budget_of (map fst ms) + after"
  define t where "t = FULFILL_TX_GAS + FULFILL_MEMBER_TX_GAS * length ms"
  have needed: "needed_of (map fst ms) = t + budget_of (map fst ms)"
    by (simp add: needed_of_def t_def)
  have g: "floor_of (map fst ms) + l1 \<le> supply'"
    using assms(1) by (simp add: fulfillment_gas_Inr_iff gas_of_def)
  have "n + before \<le> t + budget_of (map fst ms)" using assms(2) by (simp add: n_def t_def)
  moreover have "div_ceil n 63 \<le> div_ceil (t + budget_of (map fst ms)) 63"
    using assms(2) unfolding div_ceil_def by (intro div_le_mono) (simp add: n_def t_def)
  ultimately have left: "n + div_ceil n 63 \<le> supply' - l1 - before" and fits: "l1 + before \<le> supply'"
    using g unfolding floor_of_def needed by linarith+
  have "n \<le> (supply' - l1 - before) - (supply' - l1 - before) div 64" using left by (rule proxy_share)
  then have "budget_of (map fst ms) \<le> (supply' - l1 - before) - (supply' - l1 - before) div 64 - after"
    by (simp add: n_def)
  then show ?thesis
    using batch_served_enough [OF _ assms(3)] fits by (simp add: Let_def)
qed

theorem fulfillment_gas_suffices_witness:
  "\<exists>supply'. fulfillment_gas_l1 700000 [200000, 100000] 3000 = Inr supply'
    \<and> (let left = supply' - 3000 - 80000 in batch_served (left - left div 64 - 40000)
         [(200000, 400000, 200000), (100000, 380000, 100000)])"
proof -
  define xs :: "(nat \<times> nat \<times> nat) list" where "xs = [(200000, 400000, 200000), (100000, 380000, 100000)]"
  have ls: "map fst xs = [200000, 100000]" by (simp add: xs_def)
  obtain supply' where g: "fulfillment_gas_l1 700000 (map fst xs) 3000 = Inr supply'"
    unfolding ls fulfillment_gas_Inr_iff
    by (simp add: gas_of_def floor_of_def needed_of_def budget_of_def member_gas_def div_ceil_def gas_consts u64_max_def)
  have "let left = supply' - 3000 - 80000 in batch_served (left - left div 64 - 40000) xs"
    using fulfillment_gas_suffices [OF g, of 80000 40000] by (simp add: xs_def gas_consts)
  then show ?thesis using g unfolding ls by (auto simp: xs_def)
qed

section \<open>How many members fit\<close>

definition prefix_estimate :: "nat \<Rightarrow> nat list \<Rightarrow> nat \<Rightarrow> nat \<Rightarrow> nat" where
  "prefix_estimate share limits l1_each n =
     max (share * n) (floor_of (take n limits) + min (l1_each * n) u64_max)"

definition prefix_gas :: "nat \<Rightarrow> nat list \<Rightarrow> nat \<Rightarrow> nat \<Rightarrow> nat" where
  "prefix_gas share limits l1_each n =
     gas_of (prefix_estimate share limits l1_each n) (take n limits) (min (l1_each * n) u64_max)"

lemma count_fits_iff:
  "count_fits share limits cap l1_each n \<longleftrightarrow>
     n \<le> u64_max \<and> take n limits \<noteq> [] \<and> prefix_gas share limits l1_each n \<le> min cap u64_max"
proof -
  define e f l where "e = share * n" and "f = floor_of (take n limits)" and "l = min (l1_each * n) u64_max"
  have pe: "prefix_gas share limits l1_each n = gas_of (max e (f + l)) (take n limits) l"
    by (simp add: prefix_gas_def prefix_estimate_def e_def f_def l_def)
  have ge: "max e (f + l) \<le> gas_of (max e (f + l)) (take n limits) l"
    unfolding gas_of_def by (rule order_trans [OF le_add1 max.cobounded1])
  have fits: "count_fits share limits cap l1_each n \<longleftrightarrow> n \<le> u64_max \<and> e \<le> u64_max \<and> f + l \<le> u64_max
      \<and> (\<exists>g. fulfillment_gas_l1 (max e (f + l)) (take n limits) l = Inr g \<and> g \<le> cap)"
  proof (cases "f + l \<le> u64_max")
    case True
    then have "fulfillment_floor (take n limits) = Some f" by (simp add: fulfillment_floor_Some_iff f_def)
    then show ?thesis
      using True unfolding count_fits_def Let_def e_def [symmetric] l_def [symmetric]
      by (auto simp: checked_def split: option.splits sum.splits)
  next
    case False
    then have "Option.bind (fulfillment_floor (take n limits)) (\<lambda>f. checked u64_max (f + l)) = None"
      using fulfillment_floor_Some_iff [THEN iffD1, of "take n limits"]
      by (cases "fulfillment_floor (take n limits)") (auto simp: f_def checked_def)
    then show ?thesis
      using False unfolding count_fits_def Let_def l_def [symmetric] by (auto split: option.splits)
  qed
  show ?thesis
    unfolding fits fulfillment_gas_Inr_iff pe using ge by auto
qed

lemma prefix_budget:
  assumes "n < length limits"
  shows "budget_of (take (Suc n) limits) = budget_of (take n limits) + member_gas (limits ! n)"
  using assms by (simp add: budget_of_def take_Suc_conv_app_nth)

lemma prefix_floor:
  assumes "n < length limits"
  shows "floor_of (take n limits) + member_gas (limits ! n) \<le> floor_of (take (Suc n) limits)"
proof -
  have needed: "needed_of (take (Suc n) limits) = needed_of (take n limits) + member_gas (limits ! n) + FULFILL_MEMBER_TX_GAS"
    using assms by (simp add: needed_of_def prefix_budget)
  have "div_ceil (needed_of (take n limits)) 63 \<le> div_ceil (needed_of (take (Suc n) limits)) 63"
    unfolding div_ceil_def needed by (intro div_le_mono) simp
  then show ?thesis unfolding floor_of_def needed by linarith
qed

lemma padding_mono:
  fixes e e' b x s :: nat
  assumes "b \<le> e" and "e + s \<le> e'" and "x \<le> 6 * s"
  shows "e + (e - b) div 5 \<le> e' + (e' - (b + x)) div 5"
proof -
  have "e - b \<le> 5 * s + (e + s - (b + x))" using assms(1,3) by arith
  then have "(e - b) div 5 \<le> (5 * s + (e + s - (b + x))) div 5" by (rule div_le_mono)
  also have "\<dots> = s + (e + s - (b + x)) div 5" by simp
  also have "\<dots> \<le> s + (e' - (b + x)) div 5" using assms(2) by (simp add: div_le_mono)
  finally show ?thesis using assms(2) by linarith
qed

lemma member_gas_bounds:
  assumes "limit \<le> 1000000"
  shows "400000 \<le> member_gas limit" "member_gas limit \<le> 1415873"
proof -
  have "limit div 63 \<le> 1000000 div 63" using assms by (rule div_le_mono)
  then show "400000 \<le> member_gas limit" "member_gas limit \<le> 1415873"
    using assms by (simp_all add: member_gas_def gas_consts)
qed

lemma floor_per_member:
  assumes "\<forall>l \<in> set limits. l \<le> 1000000"
  shows "427168 * length limits \<le> floor_of limits"
proof -
  have "sum_list (map (\<lambda>_. 400000) limits) \<le> sum_list (map member_gas limits)"
    using assms by (intro sum_list_mono) (simp add: member_gas_bounds)
  then show ?thesis using floor_ge [of limits] by (simp add: budget_of_def gas_consts sum_list_triv)
qed

lemma prefix_gas_mono:
  assumes "\<forall>l \<in> set limits. l \<le> 1000000" and "n < length limits"
  shows "prefix_gas share limits l1_each n \<le> prefix_gas share limits l1_each (Suc n)"
proof -
  define l l' where "l = min (l1_each * n) u64_max" and "l' = min (l1_each * Suc n) u64_max"
  define f f' where "f = floor_of (take n limits)" and "f' = floor_of (take (Suc n) limits)"
  define b x where "b = budget_of (take n limits)" and "x = member_gas (limits ! n)"
  define e e' where "e = max (share * n) (f + l)" and "e' = max (share * Suc n) (f' + l')"
  have ll: "l \<le> l'" unfolding l_def l'_def by (intro min.mono) simp_all
  have ff: "f + x \<le> f'" using prefix_floor [OF assms(2)] by (simp add: f_def f'_def x_def)
  have bb: "budget_of (take (Suc n) limits) = b + x" using prefix_budget [OF assms(2)] by (simp add: b_def x_def)
  have bf: "b \<le> f" using floor_ge [of "take n limits"] by (simp add: b_def f_def)
  have be: "b \<le> e" using bf by (simp add: e_def)
  have x: "x \<le> 1415873" using assms member_gas_bounds(2) [of "limits ! n"] by (simp add: x_def)
  have "\<forall>m \<in> set (take n limits). m \<le> 1000000" using assms(1) by (auto dest: in_set_takeD)
  then have fn: "427168 * n \<le> f" using floor_per_member [of "take n limits"] assms(2) by (simp add: f_def)
  have ee: "e \<le> e'"
  proof -
    have "share * n \<le> share * Suc n" by simp
    then show ?thesis unfolding e_def e'_def using ff ll by linarith
  qed
  have "e + (e - b) div 5 \<le> e' + (e' - (b + x)) div 5"
  proof (cases "share * n \<le> f + l")
    case True
    then have "e + x \<le> e'" using ff ll by (simp add: e_def e'_def)
    then show ?thesis using be by (intro padding_mono [of b e x e' x]) simp_all
  next
    case False
    then have "427168 * n < share * n" using fn by linarith
    then have "427168 < share" by simp
    moreover have "e + share \<le> e'" using False by (simp add: e_def e'_def)
    ultimately show ?thesis using be x by (intro padding_mono [of b e share e' x]) simp_all
  qed
  then have "max (e + max ((e - b) div 5) 50000) (f + l) \<le> max (e' + max ((e' - (b + x)) div 5) 50000) (f' + l')"
    using ee ff ll by linarith
  then show ?thesis
    by (simp add: prefix_gas_def prefix_estimate_def gas_of_def bb
        l_def [symmetric] l'_def [symmetric] f_def [symmetric] f'_def [symmetric] b_def [symmetric]
        e_def [symmetric] e'_def [symmetric] del: mult_Suc_right)
qed

lemma takeWhile_greatest:
  assumes "\<And>n. 1 \<le> n \<Longrightarrow> n < m \<Longrightarrow> P (Suc n) \<Longrightarrow> P n"
  shows "\<exists>k \<le> m. takeWhile P [1..<Suc m] = [1..<Suc k] \<and> (\<forall>n. 1 \<le> n \<and> n \<le> m \<longrightarrow> P n = (n \<le> k))"
  using assms
proof (induction m)
  case 0
  then show ?case by auto
next
  case (Suc m)
  then obtain k where k: "k \<le> m" "takeWhile P [1..<Suc m] = [1..<Suc k]"
      "\<And>n. 1 \<le> n \<Longrightarrow> n \<le> m \<Longrightarrow> P n = (n \<le> k)" by (metis less_SucI)
  show ?case
  proof (cases "P (Suc m)")
    case True
    have all: "P n" if "1 \<le> n" "n \<le> Suc m" for n
      using that(2,1) by (induction rule: inc_induct) (use True Suc.prems in auto)
    then have "takeWhile P [1..<Suc (Suc m)] = [1..<Suc (Suc m)]"
      by (auto simp: takeWhile_eq_all_conv simp del: upt_Suc)
    then show ?thesis using all by (intro exI [of _ "Suc m"]) auto
  next
    case False
    have "takeWhile P [1..<Suc (Suc m)] = takeWhile P [1..<Suc m]"
      using False by (simp add: takeWhile_append)
    then show ?thesis using k False by (intro exI [of _ k]) (auto simp: le_Suc_eq)
  qed
qed

text \<open>C28: A batch is shrunk no further than it must be. For the callback limits the coordinator accepts (at
  most 1,000,000 gas), the members kept are a count \<open>n\<close> such that, of the prefixes of the batch, exactly
  those of at most \<open>n\<close> members have a predicted gas limit within the cap: the scan stops at the first
  prefix that does not fit, and no longer one would.\<close>

theorem members_within_greatest:
  assumes "length limits \<le> u64_max" and "\<forall>l \<in> set limits. l \<le> 1000000"
  shows "members_within_l1 estimate limits cap l1_each \<le> length limits
    \<and> (\<forall>n. 1 \<le> n \<and> n \<le> length limits \<longrightarrow>
         (count_fits (div_ceil estimate (length limits)) limits cap l1_each n
          \<longleftrightarrow> n \<le> members_within_l1 estimate limits cap l1_each))"
proof (cases "limits = []")
  case True
  then show ?thesis by (simp add: members_within_l1_def)
next
  case False
  define share where "share = div_ceil estimate (length limits)"
  have "count_fits share limits cap l1_each n"
    if "1 \<le> n" "n < length limits" "count_fits share limits cap l1_each (Suc n)" for n
    using that prefix_gas_mono [OF assms(2) that(2), of share l1_each] by (auto simp: count_fits_iff)
  then obtain k where k: "k \<le> length limits"
      "takeWhile (count_fits share limits cap l1_each) [1..<Suc (length limits)] = [1..<Suc k]"
      "\<And>n. 1 \<le> n \<Longrightarrow> n \<le> length limits \<Longrightarrow> count_fits share limits cap l1_each n = (n \<le> k)"
    using takeWhile_greatest [of "length limits" "count_fits share limits cap l1_each"] by blast
  have "members_within_l1 estimate limits cap l1_each = k"
    using False assms(1) k(2) by (cases k) (simp_all add: members_within_l1_def share_def [symmetric] Let_def)
  then show ?thesis using k by (simp add: share_def)
qed

theorem members_within_greatest_witness:
  "members_within_l1 0 [200000, 100000] 800000 0 \<le> 2
    \<and> (count_fits 0 [200000, 100000] 800000 0 1 \<longleftrightarrow> 1 \<le> members_within_l1 0 [200000, 100000] 800000 0)"
  using members_within_greatest [of "[200000, 100000]" 0 800000 0] by (simp add: u64_max_def div_ceil_def)

end
