(* ===== verification/Policy.thy ===== *)
theory Policy
  imports Health Config "HOL-Library.Multiset"
begin

text \<open>
  What a tick decides before it signs anything (\<open>worker.rs\<close>): how a failed tick is counted, how a
  request's settlement is read, where discovery starts, which request a node may send and in which
  order, whether its wallet may publish, and which epoch work counts as waiting or stalled. Chain reads
  are arguments. A job's stored deadline is read as the code reads it: \<open>try_from\<close> with 0 for a negative
  one, or the cast \<open>as u64\<close>, which wraps.
\<close>

section \<open>Failed ticks\<close>

definition tick_failure_ends_the_run :: "bool \<Rightarrow> bool \<Rightarrow> nat \<Rightarrow> nat \<Rightarrow> bool" where
  "tick_failure_ends_the_run once incident failures limit = (once \<or> (\<not> incident \<and> failures \<ge> limit))"

datatype failed_tick = RateLimited | ProviderUnavailable | Counted

text \<open>\<open>FailedTick::of\<close>: the two classes of an error, as the RPC client tells them.\<close>

definition failed_tick_of :: "coordinator_kind \<Rightarrow> bool \<Rightarrow> bool \<Rightarrow> failed_tick" where
  "failed_tick_of kind' is_rate_limited is_provider_failure =
     (if is_rate_limited then RateLimited
      else if kind' = Round \<and> is_provider_failure then ProviderUnavailable
      else Counted)"

record provider_outage =
  deferred_ticks :: nat
  since :: "nat option"
  reported :: bool

definition no_outage :: provider_outage where
  "no_outage = \<lparr>deferred_ticks = 0, since = None, reported = False\<rparr>"

definition u32_max :: nat where "u32_max = 2 ^ 32 - 1"

definition defer_tick :: "nat \<Rightarrow> nat \<Rightarrow> provider_outage \<Rightarrow> (nat \<times> bool) \<times> provider_outage" where
  "defer_tick stuck now o' =
     (let n = min (deferred_ticks o' + 1) u32_max;
          began = (case since o' of Some t \<Rightarrow> t | None \<Rightarrow> now);
          report = (\<not> reported o' \<and> now - began \<ge> stuck)
      in ((n, report), \<lparr>deferred_ticks = n, since = Some began, reported = (reported o' \<or> report)\<rparr>))"

definition end_outage :: "provider_outage \<Rightarrow> nat option \<times> provider_outage" where
  "end_outage o' = ((if deferred_ticks o' > 0 then Some (deferred_ticks o') else None), no_outage)"

section \<open>Settlement\<close>

record settlement =
  s_deadline :: nat
  fulfilled :: bool
  delivered :: bool
  refunded :: bool
  missing :: bool

definition missing_request :: settlement where
  "missing_request = \<lparr>s_deadline = 0, fulfilled = False, delivered = False, refunded = False, missing = True\<rparr>"

definition of_round :: "settlement option \<Rightarrow> settlement" where
  "of_round r = (case r of Some s \<Rightarrow> s | None \<Rightarrow> missing_request)"

definition terminal :: "settlement \<Rightarrow> nat \<Rightarrow> string option" where
  "terminal r now =
     (if missing r then Some ''vanished''
      else if fulfilled r then Some ''served''
      else if refunded r then Some ''refunded''
      else if now > s_deadline r then Some ''expired''
      else None)"

definition settled_state :: "settlement \<Rightarrow> int \<Rightarrow> nat \<Rightarrow> string option" where
  "settled_state r job_deadline now =
     (if missing r then (if min (int now) i64_max > job_deadline then Some ''vanished'' else None)
      else terminal r now)"

definition timely :: "settlement \<Rightarrow> nat \<Rightarrow> nat \<Rightarrow> bool" where
  "timely r now margin = (terminal r now = None \<and> sat_add now margin < s_deadline r)"

definition as_u64 :: "int \<Rightarrow> nat" where
  "as_u64 i = nat (i mod 2 ^ 64)"

definition resend_due :: "attempt \<Rightarrow> nat \<Rightarrow> bool" where
  "resend_due latest now = (tx_kind latest \<noteq> ''cancel''
     \<and> (sat_sub now (as_u64 (broadcast latest)) \<ge> 2 \<or> sat_sub now (as_u64 (created latest)) \<ge> 10))"

definition resolved_state :: "settlement \<Rightarrow> nat \<Rightarrow> string \<Rightarrow> nat \<Rightarrow> string" where
  "resolved_state r now kind' status' = (case terminal r now of
      Some s \<Rightarrow> s
    | None \<Rightarrow> if kind' = ''cancel'' \<or> status' = 0 then ''blocked'' else ''inconsistent'')"

definition batch_member_state :: "settlement \<Rightarrow> nat \<Rightarrow> string \<Rightarrow> nat \<Rightarrow> string" where
  "batch_member_state r now kind' status' =
     (if kind' = ''fulfill_batch'' \<and> status' = 0
      then (case terminal r now of Some s \<Rightarrow> s | None \<Rightarrow> ''prepared'')
      else resolved_state r now kind' status')"

definition epoch_resolved_state :: "string option \<Rightarrow> string \<Rightarrow> nat \<Rightarrow> string" where
  "epoch_resolved_state terminal' kind' status' = (case terminal' of
      Some s \<Rightarrow> s
    | None \<Rightarrow> if kind' = ''epoch_cancel'' \<and> status' = 1 then ''prepared''
              else if kind' = ''epoch_cancel'' \<or> status' = 0 then ''blocked''
              else ''inconsistent'')"

section \<open>Discovery\<close>

function live_lower_bound_from :: "nat \<Rightarrow> nat \<Rightarrow> nat \<Rightarrow> (nat \<Rightarrow> error + nat) \<Rightarrow> error + nat" where
  "live_lower_bound_from lo hi now deadline_of =
     (if lo < hi then
        (let mid = lo + (hi - lo) div 2 in
         bindR (deadline_of mid) (\<lambda>d.
           if d < now then live_lower_bound_from (mid + 1) hi now deadline_of
           else live_lower_bound_from lo mid now deadline_of))
      else Inr lo)"
  by pat_completeness auto
termination
  by (relation "measure (\<lambda>(lo, hi, _, _). hi - lo)") auto

declare live_lower_bound_from.simps [simp del]

definition live_lower_bound :: "nat \<Rightarrow> nat \<Rightarrow> (nat \<Rightarrow> error + nat) \<Rightarrow> error + nat" where
  "live_lower_bound end' now deadline_of = live_lower_bound_from 1 end' now deadline_of"

fun page_in_order :: "nat \<Rightarrow> nat \<Rightarrow> nat option \<Rightarrow> nat list \<Rightarrow> error + unit" where
  "page_in_order cursor' next' previous [] = Inr ()"
| "page_in_order cursor' next' previous (i # ids) =
     ensure (i \<le> u64_max) TryFromInt
      (ensure (i \<ge> cursor' \<and> i < next' \<and> (case previous of None \<Rightarrow> True | Some p \<Rightarrow> i > p)) (Bail ''Invalid discovery page'')
        (page_in_order cursor' next' (Some i) ids))"

definition discovery_page_advances :: "nat \<Rightarrow> nat \<Rightarrow> nat list \<Rightarrow> error + bool" where
  "discovery_page_advances cursor' next' ids =
     (if ids = [] \<and> next' \<le> cursor' then Inr False
      else ensure (next' > cursor' \<and> next' - cursor' \<le> 256) (Bail ''Invalid discovery cursor'')
             (bindR (page_in_order cursor' next' None ids) (\<lambda>_. Inr True)))"

section \<open>What to send, and in which order\<close>

definition prepared_in_order :: "(string \<Rightarrow> nat option) \<Rightarrow> job list \<Rightarrow> bool \<Rightarrow> error + job list" where
  "prepared_in_order u256_parse js tail_first =
     bindR (mapR (\<lambda>r. bindR (ok_or ParseInt (u256_parse (job_id r))) (\<lambda>i. Inr (deadline r, i, r)))
              (filter (\<lambda>r. job_state r = ''prepared'' \<and> job_call r \<noteq> None) js)) (\<lambda>keyed.
       let sorted' = sort_key (\<lambda>(d, i, _). (d, i)) keyed;
           order = (if tail_first then rev sorted' else sorted')
       in Inr (map (\<lambda>(_, _, r). r) order))"

definition preparation_candidate :: "job \<Rightarrow> nat \<Rightarrow> nat \<Rightarrow> bool" where
  "preparation_candidate r now margin =
     (job_state r = ''pending'' \<and> job_call r = None \<and> now + margin < as_u64 (deadline r))"

record send_policy =
  joined :: bool
  tail_first :: bool
  rank :: nat
  lanes :: nat

definition PRIMARY_POLICY :: send_policy where
  "PRIMARY_POLICY = \<lparr>joined = True, tail_first = False, rank = 0, lanes = 1\<rparr>"

text \<open>A remainder by 0 lanes, which the package stops at, is not reached: \<open>allows\<close> asks only for more
  than one lane.\<close>

definition lane_of :: "(string \<Rightarrow> nat option) \<Rightarrow> string \<Rightarrow> nat \<Rightarrow> nat option" where
  "lane_of u256_parse i n = map_option (\<lambda>v. v mod n) (u256_parse i)"

definition allows :: "(string \<Rightarrow> nat option) \<Rightarrow> send_policy \<Rightarrow> string \<Rightarrow> nat \<Rightarrow> nat \<Rightarrow> bool" where
  "allows u256_parse p i d now =
     (if sat_add now SAFETY_AGE_SECONDS \<ge> d then True
      else joined p \<and> (lanes p \<le> 1 \<or> lane_of u256_parse i (lanes p) = Some (rank p)))"

definition note_preparation_attempt :: "(string \<Rightarrow> nat option) \<Rightarrow> bool \<Rightarrow> send_policy \<Rightarrow> string \<Rightarrow> nat \<Rightarrow> nat \<Rightarrow> nat
    \<Rightarrow> journal \<Rightarrow> journal" where
  "note_preparation_attempt u256_parse send p i d chain_now wall_now j =
     (if send \<and> allows u256_parse p i d chain_now then preparation_waiting i wall_now j else j)"

definition owns_any :: "(string \<Rightarrow> nat option) \<Rightarrow> send_policy \<Rightarrow> job list \<Rightarrow> nat \<Rightarrow> bool" where
  "owns_any u256_parse p js now = list_ex (\<lambda>r. allows u256_parse p (job_id r) (nat (deadline r)) now) js"

definition resend_first :: "(string \<Rightarrow> nat option) \<Rightarrow> job list \<Rightarrow> string set \<Rightarrow> send_policy \<Rightarrow> nat \<Rightarrow> job list \<times> nat" where
  "resend_first u256_parse js excluded p now =
     (let lead = filter (\<lambda>r. job_id r \<in> excluded \<and> owns_any u256_parse p [r] now) js;
          rest = filter (\<lambda>r. \<not> (job_id r \<in> excluded \<and> owns_any u256_parse p [r] now)) js
      in (lead @ rest, length lead))"

definition retire_follower_settlement :: "(string \<Rightarrow> nat option) \<Rightarrow> role \<Rightarrow> send_policy \<Rightarrow> nat \<Rightarrow> journal \<Rightarrow> error + journal" where
  "retire_follower_settlement u256_parse role' p now j =
     (if \<not> is_follower role' \<or> unresolved j \<noteq> [] then Inr j
      else bindR (i64_try TryFromInt now) (\<lambda>at.
        let prepared = take 1024 (sort_key (\<lambda>r. - deadline r)
              (filter (\<lambda>r. job_state r = ''prepared'' \<and> deadline r > at) (jobs j)))
        in Inr (if owns_any u256_parse p prepared now then j else recovered ''settlement'' j)))"

section \<open>Who may publish\<close>

datatype wallet_status = Authorized | Unauthorized string | Misconfigured string

text \<open>The coordinator's or the registry's answers: the primary wallet, and whether this wallet is an
  allowed backup; a read that failed is \<open>Inl\<close>. The two coordinators differ in the words of the reasons.\<close>

record role_words =
  w_primary_is_backup :: string
  w_primary_not :: string
  w_follower_is_primary :: string
  w_follower_not :: string

definition wallet_status_of :: "role_words \<Rightarrow> error + nat \<Rightarrow> error + bool \<Rightarrow> nat \<Rightarrow> role \<Rightarrow> error + wallet_status" where
  "wallet_status_of w primary' backup wallet role' =
     bindR primary' (\<lambda>p.
       case role' of
         Primary \<Rightarrow> Inr (if p = wallet then Authorized
                        else if backup = Inr True then Misconfigured (w_primary_is_backup w)
                        else Unauthorized (w_primary_not w))
       | Follower _ \<Rightarrow> if p = wallet then Inr (Misconfigured (w_follower_is_primary w))
                       else bindR backup (\<lambda>b. Inr (if b then Authorized else Unauthorized (w_follower_not w))))"

definition REGISTRY_WORDS :: role_words where
  "REGISTRY_WORDS = \<lparr>
     w_primary_is_backup = ''The primary transaction wallet is an allowed backup committer, not the registry committer; run it with KEEPER_ROLE=follower'',
     w_primary_not = ''Epoch committer does not match the transaction wallet'',
     w_follower_is_primary = ''The follower transaction wallet is the registry committer; run it with KEEPER_ROLE=primary'',
     w_follower_not = ''The follower transaction wallet is not an allowed backup committer; the registry owner must call setBackupCommitter(wallet, true)''\<rparr>"

definition COORDINATOR_WORDS :: role_words where
  "COORDINATOR_WORDS = \<lparr>
     w_primary_is_backup = ''The primary transaction wallet is an allowed backup keeper, not the coordinator's keeper; run it with KEEPER_ROLE=follower'',
     w_primary_not = ''The coordinator's keeper is not the primary keeper wallet'',
     w_follower_is_primary = ''The follower transaction wallet is the coordinator's keeper; run it with KEEPER_ROLE=primary'',
     w_follower_not = ''The follower transaction wallet is not an allowed backup keeper; the coordinator owner must call setBackupKeeper(wallet, true)''\<rparr>"

definition wallet_status :: "coordinator_kind \<Rightarrow> error + nat \<Rightarrow> error + bool \<Rightarrow> nat \<Rightarrow> role \<Rightarrow> error + wallet_status" where
  "wallet_status kind' = wallet_status_of (case kind' of Epoch \<Rightarrow> REGISTRY_WORDS | Round \<Rightarrow> COORDINATOR_WORDS)"

definition authorize_wallet :: "coordinator_kind \<Rightarrow> error + nat \<Rightarrow> error + bool \<Rightarrow> nat \<Rightarrow> role \<Rightarrow> error + unit" where
  "authorize_wallet kind' primary' backup wallet role' =
     bindR (wallet_status kind' primary' backup wallet role') (\<lambda>s. case s of
        Authorized \<Rightarrow> Inr () | Unauthorized reason \<Rightarrow> Inl (Bail reason) | Misconfigured reason \<Rightarrow> Inl (Bail reason))"

section \<open>Where discovery starts\<close>

lemma live_lower_bound_done: "\<not> lo < hi \<Longrightarrow> live_lower_bound_from lo hi now f = Inr lo"
  by (simp add: live_lower_bound_from.simps)

lemma live_lower_bound_step:
  "lo < hi \<Longrightarrow> mid = lo + (hi - lo) div 2 \<Longrightarrow> live_lower_bound_from lo hi now f =
     bindR (f mid) (\<lambda>d. if d < now then live_lower_bound_from (mid + 1) hi now f else live_lower_bound_from lo mid now f)"
  by (subst live_lower_bound_from.simps) (simp only: Let_def if_True)

lemma live_lower_bound_reads:
  assumes "live_lower_bound_from lo hi now f = Inr k" and "lo \<le> hi"
  shows "lo \<le> k \<and> k \<le> hi \<and> (lo < k \<longrightarrow> (\<exists>d. f (k - 1) = Inr d \<and> d < now)) \<and> (k < hi \<longrightarrow> (\<exists>d. f k = Inr d \<and> now \<le> d))"
  using assms
proof (induction lo hi now f arbitrary: k rule: live_lower_bound_from.induct)
  case (1 lo hi now f)
  define mid where "mid = lo + (hi - lo) div 2"
  show ?case
  proof (cases "lo < hi")
    case False
    then show ?thesis using "1.prems" live_lower_bound_done [OF False, of now f] by simp
  next
    case True
    then have mid: "lo \<le> mid" "mid < hi" by (simp_all add: mid_def)
    obtain d where d: "f mid = Inr d"
      and k: "(if d < now then live_lower_bound_from (mid + 1) hi now f else live_lower_bound_from lo mid now f) = Inr k"
      using "1.prems"(1) unfolding live_lower_bound_step [OF True mid_def] bindR_Inr_iff by blast
    show ?thesis
    proof (cases "d < now")
      case low: True
      then have "mid + 1 \<le> k \<and> k \<le> hi \<and> (mid + 1 < k \<longrightarrow> (\<exists>d. f (k - 1) = Inr d \<and> d < now))
          \<and> (k < hi \<longrightarrow> (\<exists>d. f k = Inr d \<and> now \<le> d))"
        using "1.IH"(1) [OF True mid_def low, of k] k mid by simp
      moreover have "\<exists>d. f (k - 1) = Inr d \<and> d < now" if "\<not> mid + 1 < k"
        using that calculation low d by (auto simp: le_antisym)
      ultimately show ?thesis using mid by auto
    next
      case False
      then have "lo \<le> k \<and> k \<le> mid \<and> (lo < k \<longrightarrow> (\<exists>d. f (k - 1) = Inr d \<and> d < now))
          \<and> (k < mid \<longrightarrow> (\<exists>d. f k = Inr d \<and> now \<le> d))"
        using "1.IH"(2) [OF True mid_def False, of k] k mid by simp
      then show ?thesis using mid d False by (auto simp: le_less)
    qed
  qed
qed

lemma live_lower_bound_returns:
  assumes "\<And>i. lo \<le> i \<Longrightarrow> i < hi \<Longrightarrow> \<exists>d. f i = Inr d"
  shows "\<exists>k. live_lower_bound_from lo hi now f = Inr k"
  using assms
proof (induction lo hi now f rule: live_lower_bound_from.induct)
  case (1 lo hi now f)
  define mid where "mid = lo + (hi - lo) div 2"
  show ?case
  proof (cases "lo < hi")
    case False
    then show ?thesis using live_lower_bound_done [OF False] by blast
  next
    case True
    then have mid: "lo \<le> mid" "mid < hi" by (simp_all add: mid_def)
    obtain d where d: "f mid = Inr d" using "1.prems" [of mid] mid by blast
    have "\<exists>k. (if d < now then live_lower_bound_from (mid + 1) hi now f else live_lower_bound_from lo mid now f) = Inr k"
      using "1.IH"(1) [OF True mid_def, of d] "1.IH"(2) [OF True mid_def, of d] "1.prems" mid by auto
    then show ?thesis unfolding live_lower_bound_step [OF True mid_def] d bindR_simps by blast
  qed
qed

text \<open>C31: Discovery starts at the first live request. The search ends whatever the chain answers: it
  returns whenever every request it may read can be read. When deadlines do not decrease along the ids,
  it returns the boundary itself: every id of the range below the result has expired, and every id from
  the result on is live. And whatever the order, the result is in the range, the request before it (if
  any) was read as expired and the request at it (if any) as live.\<close>

theorem discovery_starts_at_first_live:
  assumes "start \<le> end'" and "\<And>i. start \<le> i \<Longrightarrow> i < end' \<Longrightarrow> \<exists>d. f i = Inr d"
  shows "\<exists>k. live_lower_bound_from start end' now f = Inr k \<and> start \<le> k \<and> k \<le> end'
    \<and> (start < k \<longrightarrow> (\<exists>d. f (k - 1) = Inr d \<and> d < now)) \<and> (k < end' \<longrightarrow> (\<exists>d. f k = Inr d \<and> now \<le> d))
    \<and> ((\<forall>i i' d d'. start \<le> i \<longrightarrow> i \<le> i' \<longrightarrow> i' < end' \<longrightarrow> f i = Inr d \<longrightarrow> f i' = Inr d' \<longrightarrow> d \<le> d')
       \<longrightarrow> (\<forall>i d. start \<le> i \<longrightarrow> i < end' \<longrightarrow> f i = Inr d \<longrightarrow> (d < now \<longleftrightarrow> i < k)))"
proof -
  obtain k where k: "live_lower_bound_from start end' now f = Inr k" using live_lower_bound_returns assms(2) by blast
  note r = live_lower_bound_reads [OF k assms(1)]
  have "d < now \<longleftrightarrow> i < k"
    if mono: "\<forall>i i' d d'. start \<le> i \<longrightarrow> i \<le> i' \<longrightarrow> i' < end' \<longrightarrow> f i = Inr d \<longrightarrow> f i' = Inr d' \<longrightarrow> d \<le> d'"
      and i: "start \<le> i" "i < end'" "f i = Inr d" for i d
  proof (cases "i < k")
    case True
    then obtain d' where "f (k - 1) = Inr d'" "d' < now" using r i by (meson le_less_trans)
    moreover have "k - 1 < end'" "i \<le> k - 1" using True r by auto
    ultimately show ?thesis using mono i True by (meson le_less_trans)
  next
    case False
    then obtain d' where "f k = Inr d'" "now \<le> d'" using r i by (meson le_less_trans not_less)
    then have "d' \<le> d" using mono i False r by (meson not_less)
    then show ?thesis using False \<open>now \<le> d'\<close> by simp
  qed
  then show ?thesis using k r by blast
qed

theorem discovery_starts_at_first_live_witness:
  "live_lower_bound_from 1 6 25 (\<lambda>i. Inr (10 * i)) = Inr 3"
proof -
  obtain k where k: "live_lower_bound_from 1 6 25 (\<lambda>i. Inr (10 * i)) = (Inr k :: error + nat)" "1 \<le> k" "k \<le> 6"
      "1 < k \<longrightarrow> 10 * (k - 1) < 25" "k < 6 \<longrightarrow> 25 \<le> 10 * k"
    using discovery_starts_at_first_live [of 1 6 "\<lambda>i. Inr (10 * i)" 25] by auto
  then have "k = 3" by (cases "1 < k"; cases "k < 6") simp_all
  then show ?thesis using k(1) by simp
qed

section \<open>Pages of discovery\<close>

lemma page_in_order_iff:
  "page_in_order c n p ids = Inr () \<longleftrightarrow> list_all (\<lambda>i. i \<le> u64_max \<and> c \<le> i \<and> i < n) ids
     \<and> sorted_wrt (<) (case p of None \<Rightarrow> ids | Some q \<Rightarrow> q # ids)"
proof (induction ids arbitrary: p)
  case Nil
  then show ?case by (cases p) auto
next
  case (Cons i ids)
  have tr: "sorted_wrt (<) (q # i # ids) \<longleftrightarrow> q < i \<and> sorted_wrt (<) (i # ids)" for q by (auto intro: less_trans)
  show ?case using Cons [of "Some i"] by (cases p) (auto simp: ensure_Inr_iff tr simp del: sorted_wrt.simps(2))
qed

text \<open>C35: A malformed page never moves the cursor. A page is taken exactly when it goes forward by 1 to 256
  ids and its ids are strictly increasing within that range (so there are at most 256 of them); it is
  put off, without an error, exactly when it is empty and ends at or before the cursor, as a lagging
  endpoint answers; and every other page is an error.\<close>

theorem page_taken_put_off_or_refused:
  "(discovery_page_advances c n ids = Inr True \<longleftrightarrow>
      c < n \<and> n \<le> c + 256 \<and> list_all (\<lambda>i. i \<le> u64_max \<and> c \<le> i \<and> i < n) ids \<and> sorted_wrt (<) ids)
   \<and> (discovery_page_advances c n ids = Inr False \<longleftrightarrow> ids = [] \<and> n \<le> c)
   \<and> (discovery_page_advances c n ids = Inr True \<longrightarrow> length ids \<le> 256)"
proof -
  have iff: "discovery_page_advances c n ids = Inr True \<longleftrightarrow>
      c < n \<and> n \<le> c + 256 \<and> list_all (\<lambda>i. i \<le> u64_max \<and> c \<le> i \<and> i < n) ids \<and> sorted_wrt (<) ids"
    using page_in_order_iff [of c n None ids]
    by (cases "page_in_order c n None ids") (auto simp: discovery_page_advances_def ensure_def)
  have "length ids \<le> 256" if "discovery_page_advances c n ids = Inr True"
  proof -
    have s: "sorted_wrt (<) ids" "set ids \<subseteq> {c..<n}" "n \<le> c + 256" using that iff by (auto simp: list_all_iff)
    then have "length ids = card (set ids)" by (simp add: distinct_card strict_sorted_iff)
    also have "\<dots> \<le> card {c..<n}" using s(2) by (rule card_mono [OF finite_atLeastLessThan])
    finally show ?thesis using s(3) by simp
  qed
  moreover have "discovery_page_advances c n ids = Inr False \<longleftrightarrow> ids = [] \<and> n \<le> c"
    by (auto simp: discovery_page_advances_def result_simps)
  ultimately show ?thesis using iff by blast
qed

theorem page_taken_put_off_or_refused_witness:
  "discovery_page_advances 10 20 [10, 12] = Inr True \<and> length [10, 12 :: nat] \<le> 256"
  using page_taken_put_off_or_refused [of 10 20 "[10, 12]"] by (simp add: u64_max_def)

section \<open>Which node sends a request\<close>

text \<open>C33: The follower lanes share the queue out, and the safety age overrides them. Before a request's safety
  age, of the lanes of any number of joined followers exactly one may send it, and a follower that has
  not joined may not; the primary may send everything. From the safety age on every node may send it,
  joined or not and whatever its lane.\<close>

theorem lanes_share_the_queue:
  assumes "u256_parse i = Some v" and "1 < n" and "d \<le> u64_max"
  shows "(now + 20 < d \<longrightarrow> (\<exists>!k. k < n \<and> allows u256_parse \<lparr>joined = True, tail_first = t, rank = k, lanes = n\<rparr> i d now)
            \<and> (\<forall>p. \<not> joined p \<longrightarrow> \<not> allows u256_parse p i d now))
    \<and> (d \<le> now + 20 \<longrightarrow> (\<forall>p. allows u256_parse p i d now))
    \<and> allows u256_parse PRIMARY_POLICY i d now"
proof -
  have sat: "sat_add now SAFETY_AGE_SECONDS \<ge> d \<longleftrightarrow> d \<le> now + 20"
    using assms(3) by (simp add: sat_add_def SAFETY_AGE_SECONDS_def min_def)
  have "allows u256_parse \<lparr>joined = True, tail_first = t, rank = k, lanes = n\<rparr> i d now \<longleftrightarrow> k = v mod n"
    if "now + 20 < d" for k
    using that assms(1,2) by (auto simp: allows_def sat lane_of_def)
  moreover have "v mod n < n" using assms(2) by simp
  ultimately show ?thesis
    by (auto simp: allows_def sat PRIMARY_POLICY_def)
qed

theorem lanes_share_the_queue_witness:
  "(\<exists>!k. k < 3 \<and> allows (\<lambda>_. Some 7) \<lparr>joined = True, tail_first = True, rank = k, lanes = 3\<rparr> ''7'' 100 50)
    \<and> allows (\<lambda>_. Some 7) \<lparr>joined = False, tail_first = True, rank = 0, lanes = 3\<rparr> ''7'' 100 80"
  using lanes_share_the_queue [of "\<lambda>_. Some 7" "''7''" 7 3 100 50 True]
    lanes_share_the_queue [of "\<lambda>_. Some 7" "''7''" 7 3 100 80 True]
  by (simp add: u64_max_def)

lemma parse_role_Follower:
  assumes "parse_role role' t margin = Inr (Follower p)"
  shows "5 \<le> fp_delay p \<and> fp_delay p + margin + 10 \<le> 60 \<and> margin + 10 \<le> 20 \<and> fp_rank p < fp_lanes p \<and> fp_lanes p \<le> 4
    \<and> 5 \<le> fp_liveness p \<and> fp_liveness p \<le> 30"
  using assms
  by (auto simp: parse_role_def Let_def result_simps within_def FOLLOWER_DELAY_RANGE_def FULFILLMENT_ROUND_SECONDS_def
      RESPONSE_TIMEOUT_SECONDS_def SAFETY_AGE_SECONDS_def PRIMARY_LIVENESS_RANGE_def MAX_FOLLOWER_LANES_def split: if_splits)

lemma loaded_role:
  assumes "load ps once get = Inr c"
  shows "load_role get (c_margin c) = Inr (c_role c)"
proof -
  obtain chain_id urls pin relays lock_dir margin role' poll_ms c0 where
    role: "load_role get margin = Inr role'"
    and fields: "load_fields ps get once chain_id urls pin relays lock_dir margin role' poll_ms = Inr c0"
    and checks: "load_checks get c0 = Inr c"
    using assms by (rule load_Inr)
  show ?thesis using role load_fields_Inr [OF fields] load_checks_Inr [OF checks] by simp
qed

text \<open>C32: A takeover comes in time. Under a configuration that loads as a follower, a request that nobody
  has served can still be sent throughout the fulfillment round that follows the follower's join delay,
  and throughout the round that follows its safety age; at the safety age every node may send it, and
  the follower's lane is one of at most four that exist.\<close>

theorem takeover_in_time:
  assumes "load ps once get = Inr c" and "c_role c = Follower p"
    and "\<not> fulfilled r" and "\<not> refunded r" and "\<not> missing r"
    and "s_deadline r = created' + RESPONSE_TIMEOUT_SECONDS" and "s_deadline r \<le> u64_max"
  shows "(\<forall>now < created' + fp_delay p + FULFILLMENT_ROUND_SECONDS. timely r now (c_margin c))
    \<and> (\<forall>now < s_deadline r - SAFETY_AGE_SECONDS + FULFILLMENT_ROUND_SECONDS. timely r now (c_margin c))
    \<and> (\<forall>now \<ge> s_deadline r - SAFETY_AGE_SECONDS. \<forall>q i. allows u256_parse q i (s_deadline r) now)
    \<and> fp_rank p < fp_lanes p \<and> fp_lanes p \<le> MAX_FOLLOWER_LANES"
proof -
  have "load_role get (c_margin c) = Inr (Follower p)" using loaded_role [OF assms(1)] assms(2) by simp
  then have plan: "fp_delay p + c_margin c + 10 \<le> 60" "c_margin c + 10 \<le> 20" "fp_rank p < fp_lanes p" "fp_lanes p \<le> 4"
    unfolding load_role_def using parse_role_Follower by blast+
  have timely: "timely r now (c_margin c)" if "now + c_margin c < created' + 60" for now
    using that assms(3-7) by (simp add: timely_def terminal_def sat_add_def min_def RESPONSE_TIMEOUT_SECONDS_def)
  show ?thesis
    using plan timely assms(6,7)
    by (auto simp: FULFILLMENT_ROUND_SECONDS_def RESPONSE_TIMEOUT_SECONDS_def SAFETY_AGE_SECONDS_def MAX_FOLLOWER_LANES_def
        allows_def sat_add_def)
qed

theorem takeover_in_time_witness:
  "\<exists>c p. load sample_parsers False (sample_env_as (Some ''follower'')) = Inr c \<and> c_role c = Follower p
    \<and> timely \<lparr>s_deadline = 160, fulfilled = False, delivered = False, refunded = False, missing = False\<rparr> 125 (c_margin c)"
proof -
  define r where "r = \<lparr>s_deadline = 160, fulfilled = False, delivered = False, refunded = False, missing = False\<rparr>"
  define p :: follower_plan where "p = \<lparr>fp_delay = 20, fp_queue_join = 150, fp_liveness = 10, fp_rank = 0, fp_lanes = 1\<rparr>"
  obtain c where c: "load sample_parsers False (sample_env_as (Some ''follower'')) = Inr c" "c_role c = Follower p"
    using sample_follower_load unfolding p_def by blast
  have "timely r 125 (c_margin c)"
    using takeover_in_time [OF c, of r 100]
    by (simp add: r_def p_def RESPONSE_TIMEOUT_SECONDS_def FULFILLMENT_ROUND_SECONDS_def u64_max_def)
  then show ?thesis using c by (auto simp: r_def)
qed

section \<open>In which order\<close>

lemma sort_key_map: "map g (sort_key (h \<circ> g) xs) = sort_key h (map g xs)"
proof -
  have "map g (insort_key (h \<circ> g) x ys) = insort_key h (g x) (map g ys)" for x ys
    by (induction ys) simp_all
  then show ?thesis by (induction xs) simp_all
qed

lemma keyed_jobs:
  assumes "mapR (\<lambda>r. bindR (ok_or ParseInt (u256_parse (job_id r))) (\<lambda>i. Inr (deadline r, i, r))) js = Inr keyed"
  shows "keyed = map (\<lambda>r. (deadline r, the (u256_parse (job_id r)), r)) js \<and> list_all (\<lambda>r. u256_parse (job_id r) \<noteq> None) js"
  using assms by (induction js arbitrary: keyed) (auto simp: result_simps)

definition send_key :: "(string \<Rightarrow> nat option) \<Rightarrow> job \<Rightarrow> int \<times> nat" where
  "send_key u256_parse r = (deadline r, the (u256_parse (job_id r)))"

lemma prepared_in_order_Inr:
  assumes "prepared_in_order u256_parse js tail = Inr order"
  shows "order = (if tail then rev else (\<lambda>x. x))
      (sort_key (send_key u256_parse) (filter (\<lambda>r. job_state r = ''prepared'' \<and> job_call r \<noteq> None) js))"
proof -
  define ps where "ps = filter (\<lambda>r. job_state r = ''prepared'' \<and> job_call r \<noteq> None) js"
  define g where "g = (\<lambda>r :: job. (deadline r, the (u256_parse (job_id r)), r))"
  obtain keyed where "mapR (\<lambda>r. bindR (ok_or ParseInt (u256_parse (job_id r))) (\<lambda>i. Inr (deadline r, i, r))) ps = Inr keyed"
      and order: "order = map (\<lambda>(_, _, r). r) ((if tail then rev else (\<lambda>x. x)) (sort_key (\<lambda>(d, i, _). (d, i)) keyed))"
    using assms by (auto simp: prepared_in_order_def bindR_Inr_iff ps_def Let_def)
  then have keyed: "keyed = map g ps" using keyed_jobs unfolding g_def by blast
  have "order = map (\<lambda>(_, _, r). r) ((if tail then rev else (\<lambda>x. x)) (map g (sort_key (send_key u256_parse) ps)))"
  proof -
    have "(\<lambda>(d, i, _). (d, i)) \<circ> g = send_key u256_parse" by (rule ext) (simp add: g_def send_key_def)
    then show ?thesis unfolding order keyed sort_key_map [symmetric] by simp
  qed
  then show ?thesis by (simp add: ps_def rev_map [symmetric] comp_def g_def)
qed



section \<open>Outages\<close>

fun outage_run :: "nat \<Rightarrow> nat list \<Rightarrow> provider_outage \<Rightarrow> bool list \<times> provider_outage" where
  "outage_run stuck [] o' = ([], o')"
| "outage_run stuck (t # ts) o' =
     (let ((_, report), o1) = defer_tick stuck t o'; (reports, o2) = outage_run stuck ts o1 in (report # reports, o2))"

lemma outage_run_reports:
  assumes "since o' = Some s" and "outage_run stuck ts o' = (reports, o2)"
  shows "length reports = length ts
    \<and> (\<forall>i < length ts. reports ! i \<longleftrightarrow> \<not> reported o' \<and> stuck \<le> ts ! i - s \<and> (\<forall>k < i. ts ! k - s < stuck))
    \<and> (reported o2 \<longleftrightarrow> reported o' \<or> (\<exists>t \<in> set ts. stuck \<le> t - s))
    \<and> deferred_ticks o2 = (if ts = [] then deferred_ticks o' else min (deferred_ticks o' + length ts) u32_max)"
  using assms
proof (induction ts arbitrary: o' reports)
  case Nil
  then show ?case by auto
next
  case (Cons t ts)
  define report where "report = (\<not> reported o' \<and> stuck \<le> t - s)"
  define o1 where "o1 = \<lparr>deferred_ticks = min (deferred_ticks o' + 1) u32_max, since = Some s, reported = (reported o' \<or> report)\<rparr>"
  have d: "defer_tick stuck t o' = ((min (deferred_ticks o' + 1) u32_max, report), o1)"
    using Cons.prems(1) by (simp add: defer_tick_def o1_def report_def Let_def)
  obtain rs where rs: "outage_run stuck ts o1 = (rs, o2)" "reports = report # rs"
    using Cons.prems(2) d by (auto split: prod.splits)
  have "since o1 = Some s" by (simp add: o1_def)
  note ih = Cons.IH [OF this rs(1)]
  have reports: "(report # rs) ! i \<longleftrightarrow> \<not> reported o' \<and> stuck \<le> (t # ts) ! i - s \<and> (\<forall>k < i. (t # ts) ! k - s < stuck)"
    if "i < Suc (length ts)" for i
  proof (cases i)
    case 0
    then show ?thesis by (simp add: report_def)
  next
    case (Suc m)
    have "(\<forall>k < Suc m. (t # ts) ! k - s < stuck) \<longleftrightarrow> t - s < stuck \<and> (\<forall>k < m. ts ! k - s < stuck)"
      by (auto simp: less_Suc_eq_0_disj)
    then show ?thesis using Suc that ih by (auto simp: o1_def report_def)
  qed
  show ?case using ih rs(2) reports by (auto simp: o1_def report_def min_def)
qed

text \<open>C36: An outage is reported once. Over any run of ticks deferred because the endpoints are down, the report
  is made at exactly one tick at most: the first one at which the run has lasted as long as the limit.
  The run then stands as reported exactly when some tick of it reached the limit; and the tick that ends
  it tells how many were deferred (up to the counter's width) and leaves nothing behind.\<close>

theorem outage_reported_once:
  assumes "outage_run stuck (t0 # ts) no_outage = (reports, o2)" and "t = t0 # ts"
  shows "length reports = length t
    \<and> (\<forall>i < length t. reports ! i \<longleftrightarrow> stuck \<le> t ! i - t0 \<and> (\<forall>k < i. t ! k - t0 < stuck))
    \<and> (reported o2 \<longleftrightarrow> (\<exists>x \<in> set t. stuck \<le> x - t0))
    \<and> end_outage o2 = (Some (min (length t) u32_max), no_outage)"
proof -
  define o0 where "o0 = no_outage\<lparr>since := Some t0\<rparr>"
  have "outage_run stuck (t0 # ts) o0 = (reports, o2)"
    using assms(1) by (simp add: defer_tick_def no_outage_def o0_def Let_def)
  moreover have "since o0 = Some t0" "\<not> reported o0" "deferred_ticks o0 = 0" by (simp_all add: o0_def no_outage_def)
  ultimately show ?thesis
    using outage_run_reports [of o0 t0 stuck "t0 # ts" reports o2] assms(2)
    by (simp add: end_outage_def u32_max_def)
qed

theorem outage_reported_once_witness:
  "\<exists>o2. outage_run 20 [100, 110, 121, 130] no_outage = ([False, False, True, False], o2)
    \<and> end_outage o2 = (Some 4, no_outage)"
proof -
  obtain o2 where o2: "outage_run 20 [100, 110, 121, 130] no_outage = ([False, False, True, False], o2)"
    by (simp add: defer_tick_def no_outage_def Let_def u32_max_def)
  show ?thesis using o2 outage_reported_once [OF o2 refl] by (simp add: u32_max_def)
qed

end
