(* ===== verification/Worker.thy ===== *)
theory Worker
  imports Policy Fees Suspicion Sweep
begin

text \<open>
  The worker whose ticks the keeper runs (\<open>worker.rs\<close>): its state, the world it asks, and the
  operations its lanes share. The world is what is outside the process: the endpoints, the clock, the
  signing key. Each of its answers is given at a moment of the worker's run, counted by
  \<open>wk_moment\<close>, so that the same question asked twice may be answered differently. Log lines and
  the notices to Telegram and Discord are not modelled; a transaction handed to an endpoint is
  appended to \<open>wk_sent\<close>, with the journal as it was committed at that moment.
\<close>

section \<open>What the world answers\<close>

text \<open>\<open>Head\<close> of \<open>rpc.rs\<close>.\<close>

record chain_head = head +
  ch_hash :: string
  ch_base_fee :: nat

datatype block_tag = Finalized_Tag | Latest_Tag | At_Block nat

text \<open>\<open>Request\<close> of \<open>abi.rs\<close>, as far as the keeper reads it.\<close>

record epoch_request = settlement +
  er_epoch :: nat

text \<open>\<open>RoundRequest\<close> of \<open>abi_round.rs\<close>, as far as the keeper reads it. A round that is not verified has
  the randomness 0.\<close>

record round_request = settlement +
  rr_consumer :: nat
  rr_client_seed :: nat
  rr_mapping :: nat
  rr_block :: nat
  rr_beacon :: nat
  rr_round :: nat
  rr_randomness :: nat

text \<open>The answer of one read of a contract: a value, the node's own error (a revert), or no answer.\<close>

datatype 'a answer = Answered 'a | Refused | Undelivered error

text \<open>The fields of a receipt the keeper parses, and the requests its logs say it served.\<close>

record chain_receipt =
  cr_number :: "error + nat"
  cr_block_text :: "string option"
  cr_block :: "string option"
  cr_status :: "error + nat"
  cr_served :: "error + nat list"

datatype broadcast_outcome = Acknowledged | AlreadyKnown | Ambiguous | Rejected string

datatype pins = Pins_Hold | Pins_Approved | Pins_Failed error

text \<open>What the transaction of a nonce carries, decoded from its payload: each request with its proof's
  seed, a single's signature, and the signatures a batch lists by beacon and round.\<close>

record carried =
  cd_proofs :: "(nat \<times> nat) list"
  cd_single :: "string option"
  cd_listed :: "((nat \<times> nat) \<times> string) list"

text \<open>Where a transaction goes.\<close>

datatype target = To_Wallet | To_Registry | To_Coordinator | To_Recipient nat

record world =
  w_cfg :: config
  w_wallet :: nat
  w_key_hash :: nat
  w_registry :: string
  w_catalog :: string
  w_parse_id :: "string \<Rightarrow> nat option"
  w_parse_hash :: "string \<Rightarrow> nat option"
  w_keccak_hex :: "string \<Rightarrow> string"
  w_address :: "nat \<Rightarrow> string"
  w_seed_domain :: nat
  w_abi_hash :: "nat list \<Rightarrow> nat"
  w_b256 :: "nat \<Rightarrow> string"
  w_randomness :: "string \<Rightarrow> nat"
  w_decode_epoch :: "string \<Rightarrow> (nat \<times> nat) list option"
  w_decode_round :: "string \<Rightarrow> carried option"
  w_proof_seed :: "string \<Rightarrow> nat option"
  w_proof_fingerprint :: "string \<Rightarrow> string option"
  w_packet_time :: "string \<Rightarrow> nat option"
  w_is_beacon :: "string \<Rightarrow> bool"
  w_sign :: "tx_plan \<Rightarrow> target \<Rightarrow> nat \<Rightarrow> error + string \<times> string"
  w_now :: "nat \<Rightarrow> error + nat"
  w_instant :: "nat \<Rightarrow> nat"
  w_out_of_time :: "nat \<Rightarrow> bool"
  w_head :: "nat \<Rightarrow> error + chain_head"
  w_decision_head :: "nat \<Rightarrow> error + chain_head"
  w_finalized :: "nat \<Rightarrow> error + chain_head"
  w_nonce :: "nat \<Rightarrow> block_tag \<Rightarrow> error + nat"
  w_pending_nonce :: "nat \<Rightarrow> error + nat"
  w_block_hashes :: "nat \<Rightarrow> nat list \<Rightarrow> error + string list"
  w_receipt :: "nat \<Rightarrow> string \<Rightarrow> error + chain_receipt option"
  w_settled :: "nat \<Rightarrow> string \<Rightarrow> chain_receipt \<Rightarrow> error + bool"
  w_receipt_any :: "nat \<Rightarrow> string list \<Rightarrow> error + (nat \<times> chain_receipt) option"
  w_request :: "nat \<Rightarrow> nat \<Rightarrow> block_tag \<Rightarrow> error + epoch_request"
  w_requests :: "nat \<Rightarrow> nat list \<Rightarrow> block_tag \<Rightarrow> error + epoch_request list"
  w_round_request :: "nat \<Rightarrow> nat \<Rightarrow> block_tag \<Rightarrow> round_request answer"
  w_round_requests :: "nat \<Rightarrow> nat list \<Rightarrow> block_tag \<Rightarrow> round_request list answer"
  w_next_id :: "nat \<Rightarrow> block_tag \<Rightarrow> error + nat"
  w_proof_context :: "nat \<Rightarrow> nat \<Rightarrow> nat \<Rightarrow> nat answer"
  w_epoch_known :: "nat \<Rightarrow> nat \<Rightarrow> nat option \<Rightarrow> bool answer"
  w_fee_recipient :: "nat \<Rightarrow> error + nat"
  w_balance :: "nat \<Rightarrow> error + nat"
  w_tip :: "nat \<Rightarrow> error + nat"
  w_self_estimate :: "nat \<Rightarrow> error + nat"
  w_transfer_estimate :: "nat \<Rightarrow> nat \<Rightarrow> nat answer"
  w_self_l1 :: "nat \<Rightarrow> error + nat"
  w_pins :: "nat \<Rightarrow> pins"
  w_broadcast :: "nat \<Rightarrow> string \<Rightarrow> string \<Rightarrow> error + broadcast_outcome"

section \<open>The worker\<close>

text \<open>What the recovery from a mismatch has done (\<open>Stats\<close> of \<open>recovery.rs\<close>).\<close>

record stats =
  reopened_nonces :: "nat list"
  resent_nonces :: "nat list"
  filled_nonces :: "nat list"
  stale_nonces :: "nat list"
  marks_dropped :: nat
  marks_replaced :: nat
  jobs_settled :: nat
  jobs_reopened :: nat
  jobs_reproved :: nat
  epochs_reopened :: nat
  epochs_unread :: nat

text \<open>The fields of \<open>Worker\<close> that a tick changes, with the statistics a recovery step holds, the
  bytes handed to an endpoint so far, and the moment.\<close>

record worker =
  wk_journal :: journal
  wk_suspicion :: "suspicion option"
  wk_finality_open :: bool
  wk_recovery_lane :: bool
  wk_authorized :: bool
  wk_upgraded :: bool
  wk_stats :: stats
  wk_sent :: "(string \<times> journal) list"
  wk_moment :: nat

type_synonym 'a tick = "(worker, 'a) program"

definition on_journal :: "'a prog \<Rightarrow> 'a tick" where
  "on_journal p s = (fst (p (wk_journal s)), s\<lparr>wk_journal := snd (p (wk_journal s))\<rparr>)"

definition ask :: "(nat \<Rightarrow> 'a) \<Rightarrow> 'a tick" where
  "ask f s = (Inr (f (wk_moment s)), s\<lparr>wk_moment := Suc (wk_moment s)\<rparr>)"

definition askR :: "(nat \<Rightarrow> error + 'a) \<Rightarrow> 'a tick" where
  "askR f = bindP (ask f) liftP"

abbreviation kind_of :: "world \<Rightarrow> coordinator_kind" where
  "kind_of w \<equiv> cs_coordinator_kind (c_chain (w_cfg w))"

abbreviation soft :: "world \<Rightarrow> bool" where
  "soft w \<equiv> cs_finality_mode (c_chain (w_cfg w)) = Soft"

section \<open>Reads of the coordinator\<close>

definition decision_tag :: "world \<Rightarrow> chain_head \<Rightarrow> block_tag" where
  "decision_tag w h = (if soft w then At_Block (hd_number h) else Finalized_Tag)"

definition current_decision_tag :: "world \<Rightarrow> block_tag tick" where
  "current_decision_tag w =
     (if \<not> soft w then pureP Finalized_Tag
      else if soft_depth_blocks (c_chain (w_cfg w)) = 0 then pureP Latest_Tag
      else bindP (askR (w_decision_head w)) (\<lambda>h. pureP (decision_tag w h)))"

definition decision_nonce :: "world \<Rightarrow> chain_head \<Rightarrow> nat tick" where
  "decision_nonce w h = askR (\<lambda>m. w_nonce w m (decision_tag w h))"

definition parse_id :: "world \<Rightarrow> string \<Rightarrow> nat tick" where
  "parse_id w i = liftP (ok_or ParseInt (w_parse_id w i))"

definition epoch_reads :: "world \<Rightarrow> unit tick" where
  "epoch_reads w = liftP (ensure (kind_of w = Epoch)
     (Bail ''getRequest is an epoch coordinator's read, and this keeper serves a round coordinator'') (Inr ()))"

text \<open>\<open>request\<close>, at the view tag, and \<open>request_at\<close>.\<close>

definition request :: "world \<Rightarrow> nat \<Rightarrow> epoch_request tick" where
  "request w i = bindP (epoch_reads w) (\<lambda>_.
     askR (\<lambda>m. w_request w m i (if soft w then Latest_Tag else Finalized_Tag)))"

definition request_at :: "world \<Rightarrow> nat \<Rightarrow> nat \<Rightarrow> epoch_request tick" where
  "request_at w i n = bindP (epoch_reads w) (\<lambda>_. askR (\<lambda>m. w_request w m i (At_Block n)))"

abbreviation REQUEST_BATCH :: nat where "REQUEST_BATCH \<equiv> 16"

function chunks :: "nat \<Rightarrow> 'a list \<Rightarrow> 'a list list" where
  "chunks n xs = (if xs = [] \<or> n = 0 then [] else take n xs # chunks n (drop n xs))"
  by auto
termination by (relation "measure (\<lambda>(n, xs). length xs)") auto

declare chunks.simps [simp del]

definition requests_in :: "world \<Rightarrow> nat list \<Rightarrow> block_tag \<Rightarrow> epoch_request list tick" where
  "requests_in w ids tag = bindP (epoch_reads w) (\<lambda>_.
     bindP (mapP (\<lambda>chunk. askR (\<lambda>m. w_requests w m chunk tag)) (chunks REQUEST_BATCH ids))
       (\<lambda>out. pureP (concat out)))"

definition round_request_tagged :: "world \<Rightarrow> nat \<Rightarrow> block_tag \<Rightarrow> round_request option tick" where
  "round_request_tagged w i tag =
     bindP (ask (\<lambda>m. w_round_request w m i tag)) (\<lambda>r. case r of
        Answered q \<Rightarrow> pureP (Some q)
      | Refused \<Rightarrow> bindP (askR (\<lambda>m. w_next_id w m tag)) (\<lambda>next.
                     if next \<le> i then pureP None else failP RpcFailed)
      | Undelivered e \<Rightarrow> failP e)"

definition round_requests_in :: "world \<Rightarrow> nat list \<Rightarrow> block_tag \<Rightarrow> round_request option list tick" where
  "round_requests_in w ids tag =
     bindP (mapP (\<lambda>chunk.
        bindP (ask (\<lambda>m. w_round_requests w m chunk tag)) (\<lambda>r. case r of
           Answered qs \<Rightarrow> pureP (map Some qs)
         | Refused \<Rightarrow> mapP (\<lambda>i. round_request_tagged w i tag) chunk
         | Undelivered e \<Rightarrow> failP e)) (chunks REQUEST_BATCH ids))
       (\<lambda>out. pureP (concat out))"

text \<open>\<open>Status::of\<close> of either coordinator's request.\<close>

definition status_of :: "'z settlement_scheme \<Rightarrow> settlement" where
  "status_of r = settlement.truncate r"

definition of_round_request :: "round_request option \<Rightarrow> settlement" where
  "of_round_request r = of_round (map_option status_of r)"

definition status_at :: "world \<Rightarrow> nat \<Rightarrow> nat \<Rightarrow> settlement tick" where
  "status_at w i n = (case kind_of w of
      Epoch \<Rightarrow> bindP (request_at w i n) (\<lambda>r. pureP (status_of r))
    | Round \<Rightarrow> bindP (round_request_tagged w i (At_Block n)) (\<lambda>r. pureP (of_round_request r)))"

definition statuses_in :: "world \<Rightarrow> nat list \<Rightarrow> block_tag \<Rightarrow> settlement list tick" where
  "statuses_in w ids tag = (case kind_of w of
      Epoch \<Rightarrow> bindP (requests_in w ids tag) (\<lambda>rs. pureP (map status_of rs))
    | Round \<Rightarrow> bindP (round_requests_in w ids tag) (\<lambda>rs. pureP (map of_round_request rs)))"

definition next_request_id_at :: "world \<Rightarrow> nat \<Rightarrow> nat tick" where
  "next_request_id_at w n =
     bindP (askR (\<lambda>m. w_next_id w m (At_Block n))) (\<lambda>i. liftP (ok_or TryFromInt (checked u64_max i)))"

definition deadline_at :: "world \<Rightarrow> nat \<Rightarrow> nat \<Rightarrow> nat tick" where
  "deadline_at w i n = bindP (status_at w i n) (\<lambda>s. pureP (s_deadline s))"

definition current_status :: "world \<Rightarrow> string \<Rightarrow> settlement tick" where
  "current_status w i = (case kind_of w of
      Epoch \<Rightarrow> bindP (parse_id w i) (\<lambda>n. bindP (request w n) (\<lambda>r. pureP (status_of r)))
    | Round \<Rightarrow>
        bindP (askR (w_decision_head w)) (\<lambda>h.
        bindP (parse_id w i) (\<lambda>n.
        bindP (round_request_tagged w n (decision_tag w h)) (\<lambda>r. pureP (of_round_request r)))))"

definition current_status_at :: "world \<Rightarrow> string \<Rightarrow> chain_head \<Rightarrow> settlement tick" where
  "current_status_at w i h = (case kind_of w of
      Epoch \<Rightarrow> current_status w i
    | Round \<Rightarrow> bindP (parse_id w i) (\<lambda>n.
        bindP (round_request_tagged w n (decision_tag w h)) (\<lambda>r. pureP (of_round_request r))))"

definition member_statuses :: "world \<Rightarrow> string list \<Rightarrow> settlement list tick" where
  "member_statuses w ms =
     bindP (mapP (parse_id w) ms) (\<lambda>ids.
     bindP (case kind_of w of
              Epoch \<Rightarrow> current_decision_tag w
            | Round \<Rightarrow> bindP (askR (w_decision_head w)) (\<lambda>h. pureP (decision_tag w h)))
       (statuses_in w ids))"

definition member_statuses_at :: "world \<Rightarrow> string list \<Rightarrow> chain_head \<Rightarrow> settlement list tick" where
  "member_statuses_at w ms h =
     (if kind_of w = Epoch then member_statuses w ms
      else bindP (mapP (parse_id w) ms) (\<lambda>ids. statuses_in w ids (decision_tag w h)))"

section \<open>Gates before a signature or a broadcast\<close>

text \<open>An error of \<open>sqlx\<close>, which fails the tick wherever it arises.\<close>

definition sql_error :: "error \<Rightarrow> bool" where
  "sql_error e = (e \<in> {NoSuchTable, RowNotFound, UniqueConstraint})"

text \<open>\<open>Lane::sends\<close>; \<open>round::SENDS\<close> is true.\<close>

definition lane_sends :: "world \<Rightarrow> bool" where
  "lane_sends w = (case kind_of w of Epoch \<Rightarrow> True | Round \<Rightarrow> True)"

definition may_send :: "world \<Rightarrow> worker \<Rightarrow> bool" where
  "may_send w s = (c_send (w_cfg w) \<and> lane_sends w \<and> wk_authorized s \<and> \<not> wk_finality_open s)"

definition sending_halted :: "world \<Rightarrow> worker \<Rightarrow> bool" where
  "sending_halted w s = (soft w \<and> wk_suspicion s \<noteq> None)"

definition ensure_not_halted :: "world \<Rightarrow> unit tick" where
  "ensure_not_halted w = bindP (readP (sending_halted w)) (\<lambda>halted.
     if halted then failP (Bail ''finality halted'') else pureP ())"

definition ensure_lane_sends :: "world \<Rightarrow> unit tick" where
  "ensure_lane_sends w = (if lane_sends w then pureP () else failP (Bail ''round sends disabled''))"

definition ensure_not_upgraded :: "unit tick" where
  "ensure_not_upgraded = bindP (readP wk_upgraded) (\<lambda>u. if u then failP (Bail ''approved upgrade'') else pureP ())"

text \<open>The time of the last verification, which only paces the periodic re-check, is not kept.\<close>

definition verify_runtime :: "world \<Rightarrow> unit tick" where
  "verify_runtime w =
     bindP ensure_not_upgraded (\<lambda>_.
     bindP (ask (w_pins w)) (\<lambda>p. case p of
        Pins_Hold \<Rightarrow> pureP ()
      | Pins_Approved \<Rightarrow> bindP (execP (\<lambda>s. s\<lparr>wk_upgraded := True\<rparr>)) (\<lambda>_. failP (Bail ''approved upgrade''))
      | Pins_Failed e \<Rightarrow> failP e))"

section \<open>Prices of the worker's sends\<close>

definition plan_over_budget :: "world \<Rightarrow> tx_plan \<Rightarrow> fee_budget option" where
  "plan_over_budget w p = over_budget p (c_max_fee (w_cfg w)) (c_cancel_max_fee (w_cfg w)) (c_max_cost (w_cfg w))"

definition defer_for_budget :: "world \<Rightarrow> unit tick" where
  "defer_for_budget w =
     (if c_send (w_cfg w)
      then bindP (askR (w_now w)) (\<lambda>now. on_journal (execP (blocked ''fee_budget'' now)))
      else pureP ())"

definition priority_fee :: "world \<Rightarrow> nat tick" where
  "priority_fee w = bindP (ask (w_tip w)) (\<lambda>tip.
     pureP (bounded_priority (case tip of Inr p \<Rightarrow> Some p | Inl _ \<Rightarrow> None)
              (c_min_priority_fee (w_cfg w)) (c_max_priority_fee (w_cfg w))))"

definition cancel_gas :: "world \<Rightarrow> nat tick" where
  "cancel_gas w =
     (if cs_gas_model (c_chain (w_cfg w)) \<noteq> Arbitrum then pureP CANCEL_GAS
      else let margin = l1_gas_margin_bps (c_chain (w_cfg w)) in
        bindP (ask (w_self_estimate w)) (\<lambda>r. case r of
           Inr estimate \<Rightarrow> pureP (arbitrum_cancel_gas (with_l1_margin estimate margin))
         | Inl _ \<Rightarrow> bindP (askR (w_self_l1 w)) (\<lambda>l1.
             pureP (arbitrum_cancel_gas (sat_add CANCEL_GAS (sat_mul (with_l1_margin l1 margin) 2))))))"

definition replacement_gas :: "world \<Rightarrow> string \<Rightarrow> int \<Rightarrow> nat tick" where
  "replacement_gas w kind' previous =
     bindP (liftP (u64_try TryFromInt previous)) (\<lambda>p.
       if cs_gas_model (c_chain (w_cfg w)) \<noteq> Arbitrum \<or> \<not> (kind' = ''cancel'' \<or> kind' = ''epoch_cancel'')
       then pureP p
       else bindP (tryP (cancel_gas w)) (\<lambda>r. case r of
              Inr fresh \<Rightarrow> pureP (max p fresh)
            | Inl _ \<Rightarrow> pureP (max p CANCEL_GAS_BOUND)))"

text \<open>\<open>parse::<u128>\<close> of a price the journal holds.\<close>

definition parse_price :: "string \<Rightarrow> nat tick" where
  "parse_price t = liftP (ok_or ParseInt (parse_uint u128_max t))"

text \<open>The largest up-front cost the wallet could not pay.\<close>

definition note_low_funds :: "nat option \<Rightarrow> nat \<Rightarrow> unit tick" where
  "note_low_funds stored need =
     (if (case stored of Some n \<Rightarrow> need \<le> n | None \<Rightarrow> False) then pureP ()
      else on_journal (execP (set_meta ''keeper:low_funds'' (Text (show_nat need)))))"

definition funds_short :: "world \<Rightarrow> nat \<Rightarrow> unit tick" where
  "funds_short w need =
     bindP (on_journal (readP (meta_text ''keeper:low_funds''))) (\<lambda>stored.
     bindP (ask (w_balance w)) (\<lambda>_.
       note_low_funds (map_option (\<lambda>t. case parse_uint u128_max t of Some n \<Rightarrow> n | None \<Rightarrow> 0) stored) need))"

section \<open>Marks of what the keeper acted on\<close>

definition receipt_mark :: "world \<Rightarrow> string \<Rightarrow> chain_receipt \<Rightarrow> mark option tick" where
  "receipt_mark w h r =
     (if \<not> soft w then pureP None
      else bindP (liftP (ok_or (Bail ''Missing receipt block hash'') (cr_block r))) (\<lambda>block.
           bindP (liftP (cr_number r)) (\<lambda>n.
           bindP (askR (w_now w)) (\<lambda>now.
           bindP (liftP (cr_status r)) (\<lambda>st.
             pureP (Some \<lparr>mk_kind = Receipt, mk_number = n, mk_hash = block, mk_ref = h,
                          mk_created = now, mk_status = Some st\<rparr>))))))"

definition record_receipt :: "world \<Rightarrow> string \<Rightarrow> chain_receipt \<Rightarrow> mark option tick" where
  "record_receipt w h r =
     bindP (if soft w then pureP ()
            else bindP (liftP (cr_number r)) (\<lambda>n.
                 bindP (liftP (ok_or (Bail ''Missing receipt block hash'') (cr_block_text r))) (\<lambda>block.
                 bindP (liftP (cr_status r)) (\<lambda>st.
                   on_journal (txP (finalized_receipt h n block st))))))
       (\<lambda>_. receipt_mark w h r)"

definition mark_at :: "world \<Rightarrow> mark_kind \<Rightarrow> chain_head \<Rightarrow> string \<Rightarrow> mark option tick" where
  "mark_at w k decided ref =
     (if \<not> soft w then pureP None
      else bindP (askR (w_now w)) (\<lambda>now.
             pureP (Some \<lparr>mk_kind = k, mk_number = hd_number decided, mk_hash = ch_hash decided,
                          mk_ref = ref, mk_created = now, mk_status = None\<rparr>)))"

definition sign_mark :: "world \<Rightarrow> chain_head \<Rightarrow> string \<Rightarrow> mark option tick" where
  "sign_mark w decided h = mark_at w Sign decided h"

definition nonce_mark :: "world \<Rightarrow> chain_head \<Rightarrow> int \<Rightarrow> mark option tick" where
  "nonce_mark w decided n = mark_at w Nonce decided (show_int n)"

section \<open>Lane health\<close>

definition lane_started :: "world \<Rightarrow> int \<Rightarrow> nat tick" where
  "lane_started w n =
     bindP (askR (w_now w)) (\<lambda>now.
     bindP (on_journal (execP (\<lambda>j. fst (meta_insert (nonce_started_key n) (Text (show_nat now)) j)))) (\<lambda>_.
     bindP (on_journal (readP (meta_text (nonce_started_key n)))) (\<lambda>saved.
       liftP (bindR (ok_or (Bail ''Missing nonce health timestamp'') saved)
                (\<lambda>t. ok_or ParseInt (parse_uint u64_max t))))))"

definition check_lane_health :: "world \<Rightarrow> send_policy \<Rightarrow> unit tick" where
  "check_lane_health w policy =
     bindP (askR (w_now w)) (\<lambda>now.
     bindP (on_journal (txP (retire_follower_settlement (w_parse_id w) (c_role (w_cfg w)) policy now))) (\<lambda>_.
     bindP (on_journal (readP unresolved)) (\<lambda>attempts.
     bindP (case attempts of
              [] \<Rightarrow> pureP None
            | first # _ \<Rightarrow> bindP (lane_started w (nonce first)) (\<lambda>t. pureP (Some (nonce first, t)))) (\<lambda>lane.
     bindP (readP (may_send w)) (\<lambda>sends.
     bindP (askR (w_now w)) (\<lambda>now'.
     bindP (on_journal (assess sends now' (c_progress_stuck_seconds (w_cfg w)) lane
                          (c_nonce_stuck_seconds (w_cfg w)))) (\<lambda>_. pureP ())))))))"

end
