(* ===== verification/Reconcile.thy ===== *)
theory Reconcile
  imports Worker
begin

text \<open>
  The nonce lane of a tick (\<open>worker.rs\<close>): signing and journaling, the broadcast of the latest
  attempt, and reconciliation, which settles the lane's nonce from a receipt or from chain state,
  cancels it when its work is over, outbids it when it is not included, and otherwise broadcasts it
  again. One definition per function of the source; the answers of the chain are the world's.
\<close>

section \<open>Epoch work\<close>

record epoch_task =
  wo_key :: string
  wo_epoch :: nat
  wo_start :: nat
  wo_state :: string
  wo_api :: "string option"
  wo_selection :: "string option"
  wo_fallback :: nat
  wo_sources :: nat
  wo_attempts :: int
  wo_retry_at :: int
  wo_last_error :: "string option"
  wo_failing_since :: "int option"
  wo_failed_at :: "int option"
  wo_failed_rpc :: bool
  wo_in_flight :: bool

definition epoch_task_of :: "string \<Rightarrow> journal \<Rightarrow> error + epoch_task" where
  "epoch_task_of key j =
     bindR (table (epoch_work j)) (\<lambda>rows.
     bindR (ok_or RowNotFound (find (\<lambda>r. ew_key r = key) rows)) (\<lambda>r.
     bindR (u64_try TryFromInt (ew_epoch r)) (\<lambda>e.
     bindR (u64_try TryFromInt (ew_start r)) (\<lambda>s.
     bindR (u8_try (ew_fallback r)) (\<lambda>f.
     bindR (u8_try (ew_sources r)) (\<lambda>n.
       Inr \<lparr>wo_key = ew_key r, wo_epoch = e, wo_start = s, wo_state = ew_state r, wo_api = ew_api r,
            wo_selection = ew_selection r, wo_fallback = f, wo_sources = n, wo_attempts = ew_attempts r,
            wo_retry_at = ew_retry_at r, wo_last_error = ew_last_error r,
            wo_failing_since = ew_failing_since r, wo_failed_at = ew_failed_at r,
            wo_failed_rpc = (ew_failed_rpc r = Some 1),
            wo_in_flight = list_ex (\<lambda>t. tx_job t = ew_key r \<and> tx_state t \<noteq> ''resolved'') (txs j)\<rparr>))))))"

abbreviation BEACON_MAX_AGE :: nat where "BEACON_MAX_AGE \<equiv> 200"

definition stale_beacon :: "world \<Rightarrow> epoch_task \<Rightarrow> nat \<Rightarrow> bool" where
  "stale_beacon w task now =
     (\<not> wo_in_flight task \<and> wo_state task \<in> {''pending'', ''prepared'', ''blocked''}
      \<and> (case Option.bind (wo_api task) (w_packet_time w) of
           Some t \<Rightarrow> now > min (t + BEACON_MAX_AGE) u256_max | None \<Rightarrow> False)
      \<and> (case wo_selection task of Some s \<Rightarrow> w_is_beacon w s | None \<Rightarrow> False))"

definition epoch_terminal :: "world \<Rightarrow> epoch_task \<Rightarrow> nat \<Rightarrow> error + string option" where
  "epoch_terminal w task now =
     (if stale_beacon w task now then Inr None
      else case wo_api task of
             None \<Rightarrow> Inr None
           | Some packet \<Rightarrow>
               bindR (ok_or MalformedJson (w_packet_time w packet)) (\<lambda>t.
                 Inr (if now > min (t + 240) u256_max then Some ''blocked'' else None)))"

definition epoch_key :: "world \<Rightarrow> nat \<Rightarrow> string" where
  "epoch_key w e = ''epoch:'' @ w_registry w @ '':'' @ w_catalog w @ '':'' @ show_nat e"

text \<open>\<open>epoch()\<close>: the publisher of an epoch coordinator's keeper.\<close>

definition epoch_lane_only :: "world \<Rightarrow> unit tick" where
  "epoch_lane_only w = (if kind_of w = Epoch then pureP () else failP (Bail ''no epoch lane''))"

text \<open>\<open>epoch::state\<close>.\<close>

definition put_epoch_state :: "string \<Rightarrow> string \<Rightarrow> journal \<Rightarrow> error + journal" where
  "put_epoch_state key st j = bindR (table (epoch_work j)) (\<lambda>rows.
     Inr (j\<lparr>epoch_work := Some (upd_where (\<lambda>r. ew_key r = key) (\<lambda>r. r\<lparr>ew_state := st\<rparr>) rows)\<rparr>))"

definition epoch_demand_ids :: "nat \<Rightarrow> nat \<Rightarrow> journal \<Rightarrow> error + string list" where
  "epoch_demand_ids e after j =
     bindR (i64_try TryFromInt e) (\<lambda>e'.
     bindR (i64_try TryFromInt after) (\<lambda>bound.
     bindR (table (epoch_demand j)) (\<lambda>rows.
       Inr (map job_id (take 256 (sort_key (\<lambda>r. - deadline r)
              (concat (map (\<lambda>d. filter (\<lambda>r. job_id r = ed_job d
                    \<and> job_state r \<in> {''pending'', ''prepared'', ''signed'', ''submitted''}
                    \<and> deadline r > bound) (jobs j))
                 (filter (\<lambda>d. ed_epoch d = e') rows)))))))))"

text \<open>The requests are read eight ahead; they are taken in this order.\<close>

primrec first_demand_head :: "world \<Rightarrow> nat \<Rightarrow> nat \<Rightarrow> string list \<Rightarrow> chain_head option tick" where
  "first_demand_head w e now [] = pureP None"
| "first_demand_head w e now (i # is) =
     bindP (parse_id w i) (\<lambda>n.
     bindP (request w n) (\<lambda>r.
       let live = (\<lambda>t. terminal (status_of r) t = None \<and> sat_add t (c_margin (w_cfg w)) < s_deadline r) in
       if er_epoch r = e \<and> live now
       then bindP (verify_runtime w) (\<lambda>_.
            bindP (askR (w_head w)) (\<lambda>fresh.
              if live (hd_timestamp fresh) then pureP (Some fresh) else first_demand_head w e now is))
       else first_demand_head w e now is))"

definition epoch_demand_head :: "world \<Rightarrow> nat \<Rightarrow> nat \<Rightarrow> chain_head option tick" where
  "epoch_demand_head w e now =
     bindP (on_journal (readRP (epoch_demand_ids e (sat_add now (c_margin (w_cfg w))))))
       (first_demand_head w e now)"

section \<open>Signing\<close>

text \<open>No broadcast happens before the commit of \<open>signed_marked\<close> or \<open>signed_batch_marked\<close>.\<close>

definition target_of :: "world \<Rightarrow> string \<Rightarrow> target tick" where
  "target_of w kind' =
     (if kind' = ''cancel'' \<or> kind' = ''epoch_cancel'' then pureP To_Wallet
      else if kind' = ''epoch'' then bindP (epoch_lane_only w) (\<lambda>_. pureP To_Registry)
      else pureP To_Coordinator)"

definition attempt_of :: "string \<Rightarrow> tx_plan \<Rightarrow> nat \<Rightarrow> string \<times> string \<Rightarrow> error + attempt" where
  "attempt_of job p now signed' =
     bindR (i64_try TryFromInt (pl_nonce p)) (\<lambda>n.
     bindR (i64_try TryFromInt (pl_gas p)) (\<lambda>g.
     bindR (i64_try TryFromInt now) (\<lambda>c.
       Inr \<lparr>tx_id = 0, tx_job = job, nonce = n, tx_hash = fst signed', raw = snd signed', tx_kind = pl_kind p,
            fee = show_nat (pl_fee p), tx_state = ''signed'', gas = g, priority = show_nat (pl_priority p),
            payload = pl_payload p, created = c, broadcast = 0\<rparr>)))"

definition sign_and_journal_members ::
    "world \<Rightarrow> string \<Rightarrow> tx_plan \<Rightarrow> nat \<Rightarrow> string list \<Rightarrow> chain_head \<Rightarrow> unit tick" where
  "sign_and_journal_members w job p now ms decided =
     bindP ensure_not_upgraded (\<lambda>_.
     bindP (ensure_lane_sends w) (\<lambda>_.
     bindP (ensure_not_halted w) (\<lambda>_.
     bindP (liftP (ensure (plan_over_budget w p = None) (Bail ''Transaction exceeds fee/cost budget'') (Inr ()))) (\<lambda>_.
     bindP (target_of w (pl_kind p)) (\<lambda>to.
     bindP (liftP (w_sign w p to 0)) (\<lambda>signed'.
     bindP (liftP (attempt_of job p now signed')) (\<lambda>a.
     bindP (sign_mark w decided (tx_hash a)) (\<lambda>m.
     bindP (on_journal (txP (if tx_kind a = ''fulfill_batch'' then signed_batch_marked (w_keccak_hex w) a ms m
                             else signed_marked a m))) (\<lambda>_.
     bindP (lane_started w (nonce a)) (\<lambda>_.
       on_journal (execP (recovered ''fee_budget''))))))))))))"

definition sign_and_journal :: "world \<Rightarrow> string \<Rightarrow> tx_plan \<Rightarrow> nat \<Rightarrow> chain_head \<Rightarrow> unit tick" where
  "sign_and_journal w job p now decided =
     bindP (if pl_kind p = ''fulfill_batch'' then on_journal (readP (members_in job)) else pureP []) (\<lambda>ms.
       sign_and_journal_members w job p now ms decided)"

text \<open>Whether a replacement was signed.\<close>

definition replace_within_budget :: "world \<Rightarrow> string \<Rightarrow> tx_plan \<Rightarrow> chain_head \<Rightarrow> bool tick" where
  "replace_within_budget w job p head' =
     bindP (verify_runtime w) (\<lambda>_.
       if plan_over_budget w p \<noteq> None then bindP (defer_for_budget w) (\<lambda>_. pureP False)
       else
         bindP (if pl_kind p = ''epoch'' then
                  bindP (on_journal (readRP (epoch_task_of job))) (\<lambda>task.
                  bindP (epoch_demand_head w (wo_epoch task) (hd_timestamp head')) (\<lambda>fresh. case fresh of
                     None \<Rightarrow> pureP None
                   | Some f \<Rightarrow> bindP (liftP (epoch_terminal w task (hd_timestamp f))) (\<lambda>t.
                       pureP (if t \<noteq> None then None else Some (hd_timestamp f)))))
                else if pl_kind p = ''fulfill'' then
                  bindP (current_status w job) (\<lambda>r.
                  bindP (verify_runtime w) (\<lambda>_.
                  bindP (askR (w_head w)) (\<lambda>f.
                    pureP (if timely r (hd_timestamp f) (c_margin (w_cfg w)) then Some (hd_timestamp f) else None))))
                else if pl_kind p = ''fulfill_batch'' then
                  bindP (on_journal (readP (members_in job))) (\<lambda>ms.
                  bindP (member_statuses w ms) (\<lambda>rs.
                  bindP (verify_runtime w) (\<lambda>_.
                  bindP (askR (w_head w)) (\<lambda>f.
                    pureP (if list_ex (\<lambda>r. timely r (hd_timestamp f) (c_margin (w_cfg w))) rs
                           then Some (hd_timestamp f) else None)))))
                else pureP (Some (hd_timestamp head'))) (\<lambda>now. case now of
           None \<Rightarrow> pureP False
         | Some t \<Rightarrow> bindP (sign_and_journal w job p t head') (\<lambda>_. pureP True)))"

section \<open>Broadcasting\<close>

text \<open>\<open>rpc.broadcast\<close>: from here on the bytes are out, whatever the endpoint answers.\<close>

definition send_raw :: "world \<Rightarrow> string \<Rightarrow> string \<Rightarrow> broadcast_outcome tick" where
  "send_raw w bytes h =
     bindP (liftP (ok_or ParseInt (w_parse_hash w h))) (\<lambda>_.
     bindP (execP (\<lambda>s. s\<lparr>wk_sent := wk_sent s @ [(bytes, wk_journal s)]\<rparr>)) (\<lambda>_.
       askR (\<lambda>m. w_broadcast w m bytes h)))"

text \<open>Whether the latest attempt may still go out: an epoch with live demand whose packet is fresh, a
  fulfillment in time, a batch with a member in time, a cancellation once the pins hold.\<close>

definition worth_sending :: "world \<Rightarrow> attempt \<Rightarrow> nat \<Rightarrow> bool tick" where
  "worth_sending w a at =
     (if tx_kind a = ''epoch'' then
        bindP (epoch_lane_only w) (\<lambda>_.
        bindP (on_journal (readRP (epoch_task_of (tx_job a)))) (\<lambda>task.
        bindP (liftP (ensure (epoch_key w (wo_epoch task) = wo_key task)
                        (Bail ''Epoch registry identity mismatch'') (Inr ()))) (\<lambda>_.
        bindP (epoch_demand_head w (wo_epoch task) at) (\<lambda>fresh. case fresh of
           None \<Rightarrow> pureP False
         | Some f \<Rightarrow> bindP (liftP (epoch_terminal w task (hd_timestamp f))) (\<lambda>t. pureP (t = None))))))
      else if tx_kind a = ''fulfill'' then
        bindP (current_status w (tx_job a)) (\<lambda>r.
        bindP (verify_runtime w) (\<lambda>_.
        bindP (askR (w_head w)) (\<lambda>f. pureP (timely r (hd_timestamp f) (c_margin (w_cfg w))))))
      else if tx_kind a = ''fulfill_batch'' then
        bindP (on_journal (readP (members_in (tx_job a)))) (\<lambda>ms.
        bindP (liftP (ensure (ms \<noteq> []) (Bail ''Batch members missing from journal'') (Inr ()))) (\<lambda>_.
        bindP (member_statuses w ms) (\<lambda>rs.
        bindP (verify_runtime w) (\<lambda>_.
        bindP (askR (w_head w)) (\<lambda>f.
          pureP (list_ex (\<lambda>r. timely r (hd_timestamp f) (c_margin (w_cfg w))) rs))))))
      else if tx_kind a = ''cancel'' \<or> tx_kind a = ''epoch_cancel'' then
        bindP (verify_runtime w) (\<lambda>_. pureP True)
      else pureP True)"

text \<open>What the journal keeps of an attempt an endpoint took.\<close>

definition submitted :: "attempt \<Rightarrow> unit tick" where
  "submitted a =
     bindP (on_journal (execP clear_rejection)) (\<lambda>_.
     bindP (on_journal (execP (set_tx_state (tx_id a) ''submitted''))) (\<lambda>_.
       if starts_with ''epoch'' (tx_kind a)
       then on_journal (txP (put_epoch_state (tx_job a) ''submitted''))
       else bindP (on_journal (execP (recovered ''settlement''))) (\<lambda>_.
              on_journal (execP (if is_batch_job (tx_job a) then members_state (tx_job a) ''submitted''
                                 else set_state (tx_job a) ''submitted'')))))"

definition send_attempt :: "world \<Rightarrow> attempt \<Rightarrow> unit tick" where
  "send_attempt w a =
     bindP ensure_not_upgraded (\<lambda>_.
     bindP (ensure_not_halted w) (\<lambda>_.
     bindP (send_raw w (raw a) (tx_hash a)) (\<lambda>outcome. case outcome of
        Rejected reason \<Rightarrow>
          bindP (if kind_of w = Round \<and> reason = ''insufficient_funds''
                 then bindP (parse_price (fee a)) (\<lambda>f.
                      bindP (liftP (u64_try TryFromInt (gas a))) (\<lambda>g. funds_short w (sat128 (f * g))))
                 else pureP ()) (\<lambda>_.
            on_journal (execP (rejection reason)))
      | Ambiguous \<Rightarrow> pureP ()
      | _ \<Rightarrow> submitted a)))"

definition broadcast_latest :: "world \<Rightarrow> nat \<Rightarrow> unit tick" where
  "broadcast_latest w at =
     bindP (ensure_not_halted w) (\<lambda>_.
     bindP (on_journal (readP unresolved)) (\<lambda>attempts.
       if attempts = [] then pureP ()
       else let a = last attempts in
         bindP (liftP (i64_try TryFromInt at)) (\<lambda>now.
         bindP (on_journal (execP (broadcast_attempt (tx_id a) now))) (\<lambda>_.
         bindP (worth_sending w a at) (\<lambda>worth.
           if worth then send_attempt w a else pureP ())))))"

section \<open>Round requests that moved\<close>

definition fingerprint :: "world \<Rightarrow> round_request \<Rightarrow> string" where
  "fingerprint w r = w_b256 w (w_abi_hash w
     [rr_consumer r, rr_client_seed r, rr_mapping r, rr_block r, rr_beacon r, rr_round r])"

definition round_seed :: "world \<Rightarrow> nat \<Rightarrow> round_request \<Rightarrow> nat \<Rightarrow> nat" where
  "round_seed w i r randomness = w_abi_hash w
     [w_seed_domain w, c_chain_id (w_cfg w), c_coordinator (w_cfg w), w_key_hash w, i, rr_consumer r,
      rr_client_seed r, rr_mapping r, rr_block r, rr_beacon r, rr_round r, randomness]"

definition latest_of :: "int \<Rightarrow> journal \<Rightarrow> attempt option" where
  "latest_of n j = (let ts = sort_key tx_id (filter (\<lambda>t. nonce t = n) (txs j)) in
     if ts = [] then None else Some (last ts))"

text \<open>Whether the request the chain has now under the id is not the one its proof was made for.\<close>

definition moved_from :: "world \<Rightarrow> carried \<Rightarrow> nat \<Rightarrow> nat \<Rightarrow> round_request option \<Rightarrow> bool" where
  "moved_from w c i seed r = (case r of
      None \<Rightarrow> True
    | Some q \<Rightarrow>
        let signature = (case cd_single c of Some s \<Rightarrow> Some s
                         | None \<Rightarrow> map_of (cd_listed c) (rr_beacon q, rr_round q));
            randomness = (if rr_randomness q \<noteq> 0 then Some (rr_randomness q)
                          else map_option (w_randomness w) signature)
        in case randomness of None \<Rightarrow> True | Some x \<Rightarrow> round_seed w i q x \<noteq> seed)"

primrec stale_among :: "world \<Rightarrow> carried \<Rightarrow> block_tag \<Rightarrow> (nat \<times> nat) list \<Rightarrow> (nat \<times> round_request option) list tick" where
  "stale_among w c tag [] = pureP []"
| "stale_among w c tag (p # ps) =
     bindP (round_request_tagged w (fst p) tag) (\<lambda>r.
     bindP (stale_among w c tag ps) (\<lambda>rest.
       pureP (if moved_from w c (fst p) (snd p) r then (fst p, r) # rest else rest)))"

definition stale_round_requests :: "world \<Rightarrow> nat \<Rightarrow> chain_head \<Rightarrow> (nat \<times> round_request option) list tick" where
  "stale_round_requests w n head' =
     (if kind_of w \<noteq> Round then pureP []
      else bindP (liftP (i64_try TryFromInt n)) (\<lambda>n'.
           bindP (on_journal (readP (latest_of n'))) (\<lambda>found. case found of
              None \<Rightarrow> pureP []
            | Some t \<Rightarrow>
                if raw t = [] then pureP []
                else case w_decode_round w (payload t) of
                       None \<Rightarrow> pureP []
                     | Some c \<Rightarrow> stale_among w c (decision_tag w head') (cd_proofs c))))"

definition record_move :: "world \<Rightarrow> string \<Rightarrow> round_request \<Rightarrow> unit tick" where
  "record_move w i r =
     bindP (askR (w_now w)) (\<lambda>now.
       on_journal (txP (request_moved i \<lparr>as_beacon = rr_beacon r, as_round = rr_round r,
                          as_fingerprint = fingerprint w r, as_lag = 0, as_seen = 0\<rparr> now)))"

definition round_cancel_state :: "world \<Rightarrow> string \<Rightarrow> string tick" where
  "round_cancel_state w i =
     bindP (on_journal (readRP (round_assignment_of i))) (\<lambda>assigned.
     bindP (on_journal (readP (job_of i))) (\<lambda>job.
       let proved = map_option (\<lambda>t. case w_proof_fingerprint w t of Some f \<Rightarrow> f | None \<Rightarrow> '''')
                      (Option.bind job job_proof)
       in pureP (case (assigned, proved) of
            (Some a, Some p) \<Rightarrow> if as_fingerprint a = p then ''prepared'' else ''reprove''
          | _ \<Rightarrow> ''reprove'')))"

section \<open>Reconciliation\<close>

text \<open>The first of the attempts an endpoint shows a receipt of.\<close>

primrec first_receipt :: "world \<Rightarrow> ('a \<Rightarrow> string) \<Rightarrow> 'a list \<Rightarrow> ('a \<times> chain_receipt) option tick" where
  "first_receipt w h [] = pureP None"
| "first_receipt w h (a # as) =
     bindP (askR (\<lambda>m. w_receipt w m (h a))) (\<lambda>r. case r of
        Some c \<Rightarrow> pureP (Some (a, c))
      | None \<Rightarrow> first_receipt w h as)"

definition receipt_settled :: "world \<Rightarrow> string \<Rightarrow> chain_receipt \<Rightarrow> bool tick" where
  "receipt_settled w h c = askR (\<lambda>m. w_settled w m h c)"

text \<open>The attempt of a used nonce any endpoint shows a settled receipt of.\<close>

definition settled_from_any :: "world \<Rightarrow> ('a \<Rightarrow> string) \<Rightarrow> 'a list \<Rightarrow> ('a \<times> chain_receipt) option tick" where
  "settled_from_any w h as =
     bindP (askR (\<lambda>m. w_receipt_any w m (map h as))) (\<lambda>found. case found of
        None \<Rightarrow> pureP None
      | Some (i, c) \<Rightarrow>
          if i < length as
          then bindP (receipt_settled w (h (as ! i)) c) (\<lambda>ok. pureP (if ok then Some (as ! i, c) else None))
          else failP (Bail ''index out of bounds''))"

definition note_callback :: "string \<Rightarrow> settlement \<Rightarrow> unit tick" where
  "note_callback i r =
     (if fulfilled r \<and> \<not> delivered r then on_journal (execP (callback_failed i)) else pureP ())"

text \<open>The state a settled receipt gives the request it served.\<close>

definition settled_job_state ::
    "world \<Rightarrow> (settlement \<Rightarrow> nat \<Rightarrow> string \<Rightarrow> nat \<Rightarrow> string) \<Rightarrow> attempt \<Rightarrow> string \<Rightarrow> settlement \<Rightarrow> nat \<Rightarrow> nat \<Rightarrow> string tick" where
  "settled_job_state w classify a i r now status' =
     (if kind_of w = Round \<and> tx_kind a = ''cancel'' \<and> terminal r now = None
      then round_cancel_state w i else pureP (classify r now (tx_kind a) status'))"

definition settle_receipt :: "world \<Rightarrow> attempt \<Rightarrow> chain_receipt \<Rightarrow> chain_head \<Rightarrow> unit tick" where
  "settle_receipt w a c head' =
     bindP (record_receipt w (tx_hash a) c) (\<lambda>m.
     bindP (liftP (cr_status c)) (\<lambda>status'.
     bindP (liftP (cr_number c)) (\<lambda>n.
     bindP (parse_id w (tx_job a)) (\<lambda>i.
     bindP (status_at w i (max (hd_number head') n)) (\<lambda>r.
     bindP (note_callback (tx_job a) r) (\<lambda>_.
     bindP (settled_job_state w resolved_state a (tx_job a) r (hd_timestamp head') status') (\<lambda>st.
       on_journal (txP (resolve_nonce_job_marked (nonce a) (tx_job a) st m)))))))))"

definition replacement_prices :: "world \<Rightarrow> string \<Rightarrow> string \<Rightarrow> chain_head \<Rightarrow> (nat \<times> nat) tick" where
  "replacement_prices w priority' fee' head' =
     bindP (priority_fee w) (\<lambda>tip.
     bindP (parse_price priority') (\<lambda>p.
     bindP (parse_price fee') (\<lambda>f.
       liftP (replacement_fees p f (ch_base_fee head') tip))))"

text \<open>The nonce of the lane cancelled by a zero-value transfer to the wallet.\<close>

definition cancel_lane :: "world \<Rightarrow> attempt \<Rightarrow> string \<Rightarrow> chain_head \<Rightarrow> unit tick" where
  "cancel_lane w latest kind' head' =
     bindP (replacement_prices w (priority latest) (fee latest) head') (\<lambda>(f, p).
     bindP (cancel_gas w) (\<lambda>g.
     bindP (liftP (u64_try TryFromInt (nonce latest))) (\<lambda>n.
     bindP (replace_within_budget w (tx_job latest)
              \<lparr>pl_nonce = n, pl_gas = g, pl_fee = f, pl_priority = p, pl_payload = ''0x'', pl_kind = kind'\<rparr> head')
       (\<lambda>replaced. if replaced then broadcast_latest w (hd_timestamp head') else pureP ()))))"

text \<open>The latest attempt replaced by one that pays more. True when one was signed.\<close>

definition outbid_lane :: "world \<Rightarrow> attempt \<Rightarrow> chain_head \<Rightarrow> bool tick" where
  "outbid_lane w latest head' =
     bindP (replacement_prices w (priority latest) (fee latest) head') (\<lambda>(f, p).
     bindP (replacement_gas w (tx_kind latest) (gas latest)) (\<lambda>g.
     bindP (liftP (u64_try TryFromInt (nonce latest))) (\<lambda>n.
       replace_within_budget w (tx_job latest)
         \<lparr>pl_nonce = n, pl_gas = g, pl_fee = f, pl_priority = p, pl_payload = payload latest,
          pl_kind = tx_kind latest\<rparr> head')))"

definition cancel_stale_round :: "world \<Rightarrow> attempt \<Rightarrow> chain_head \<Rightarrow> bool tick" where
  "cancel_stale_round w latest head' =
     (if kind_of w \<noteq> Round \<or> tx_kind latest \<notin> {''fulfill'', ''fulfill_batch''} then pureP False
      else
        bindP (liftP (u64_try TryFromInt (nonce latest))) (\<lambda>n.
        bindP (stale_round_requests w n head') (\<lambda>stale.
          let moved = [(i, r). (i, Some r) \<leftarrow> stale] in
          if moved = [] then pureP False
          else bindP (eachP (\<lambda>(i, r).
                        bindP (on_journal (readRP (round_assignment_of (show_nat i)))) (\<lambda>_.
                          record_move w (show_nat i) r)) moved) (\<lambda>_.
               bindP (cancel_lane w latest ''cancel'' head') (\<lambda>_. pureP True)))))"

text \<open>The last part of a reconciliation, for a nonce the chain has not used: nothing while the keeper
  does not send, a cancellation when the work is over, a replacement after ten seconds while it is
  worth one and fewer than four were made, and otherwise the same bytes every two seconds.
  \<open>resend_too\<close>: bytes that were not replaced are broadcast again.\<close>

definition age_of :: "chain_head \<Rightarrow> int \<Rightarrow> nat" where
  "age_of head' t = sat_sub (hd_timestamp head') (as_u64 t)"

definition push_lane ::
    "world \<Rightarrow> attempt list \<Rightarrow> attempt \<Rightarrow> chain_head \<Rightarrow> string \<Rightarrow> bool \<Rightarrow> bool \<Rightarrow> bool \<Rightarrow> unit tick" where
  "push_lane w attempts latest head' cancel_kind over worth resend_too =
     bindP (readP (sending_halted w)) (\<lambda>halted.
       if \<not> c_send (w_cfg w) \<or> halted then pureP ()
       else if over \<and> tx_kind latest \<noteq> cancel_kind then cancel_lane w latest cancel_kind head'
       else
         bindP (if resend_too \<and> resend_due latest (hd_timestamp head')
                then cancel_stale_round w latest head' else pureP False) (\<lambda>cancelled.
           if cancelled then pureP ()
           else if age_of head' (created latest) \<ge> 10
                   \<and> count_where (\<lambda>a. tx_kind a = tx_kind latest) attempts < 4
                   \<and> (tx_kind latest = cancel_kind \<or> worth)
           then bindP (outbid_lane w latest head') (\<lambda>replaced.
                  if replaced \<or> (resend_too \<and> age_of head' (broadcast latest) \<ge> 2)
                  then broadcast_latest w (hd_timestamp head') else pureP ())
           else if age_of head' (broadcast latest) \<ge> 2 then broadcast_latest w (hd_timestamp head')
           else pureP ()))"

text \<open>A single request's nonce. The result is whether the lane is busy.\<close>

definition reconcile_single :: "world \<Rightarrow> attempt list \<Rightarrow> attempt \<Rightarrow> chain_head \<Rightarrow> bool tick" where
  "reconcile_single w attempts latest head' =
     bindP (first_receipt w tx_hash attempts) (\<lambda>found. case found of
        Some (a, c) \<Rightarrow>
          bindP (receipt_settled w (tx_hash a) c) (\<lambda>ok.
            if ok then bindP (settle_receipt w a c head') (\<lambda>_. pureP False) else pureP True)
      | None \<Rightarrow>
          bindP (current_status_at w (tx_job latest) head') (\<lambda>r.
          bindP (on_journal (readP (job_of (tx_job latest)))) (\<lambda>job.
          let over = settled_state r (case job of Some x \<Rightarrow> deadline x | None \<Rightarrow> i64_max) (hd_timestamp head') in
          bindP (decision_nonce w head') (\<lambda>chain_nonce.
            if chain_nonce > as_u64 (nonce latest) then
              bindP (settled_from_any w tx_hash attempts) (\<lambda>any. case any of
                 Some (a, c) \<Rightarrow> bindP (settle_receipt w a c head') (\<lambda>_. pureP False)
               | None \<Rightarrow> (case over of
                     Some st \<Rightarrow>
                       bindP (note_callback (tx_job latest) r) (\<lambda>_.
                       bindP (nonce_mark w head' (nonce latest)) (\<lambda>m.
                       bindP (on_journal (txP (resolve_nonce_job_marked (nonce latest) (tx_job latest) st m)))
                         (\<lambda>_. pureP False)))
                   | None \<Rightarrow>
                       if awaiting_receipt_visibility (hd_timestamp head') latest then pureP True
                       else failP (Bail ''Nonce consumed but no receipt or terminal request found'')))
            else bindP (push_lane w attempts latest head' ''cancel'' (over \<noteq> None)
                          (hd_timestamp head' + c_margin (w_cfg w) < s_deadline r) True)
                   (\<lambda>_. pureP True)))))"

primrec settle_members_at ::
    "world \<Rightarrow> attempt \<Rightarrow> nat \<Rightarrow> nat \<Rightarrow> (string \<times> settlement) list \<Rightarrow> (string \<times> string) list tick" where
  "settle_members_at w a now status' [] = pureP []"
| "settle_members_at w a now status' (p # ps) =
     bindP (note_callback (fst p) (snd p)) (\<lambda>_.
     bindP (settled_job_state w batch_member_state a (fst p) (snd p) now status') (\<lambda>st.
     bindP (settle_members_at w a now status' ps) (\<lambda>rest. pureP ((fst p, st) # rest))))"

definition settle_batch_receipt ::
    "world \<Rightarrow> attempt \<Rightarrow> chain_receipt \<Rightarrow> string list \<Rightarrow> chain_head \<Rightarrow> unit tick" where
  "settle_batch_receipt w a c ms head' =
     bindP (record_receipt w (tx_hash a) c) (\<lambda>m.
     bindP (liftP (cr_status c)) (\<lambda>status'.
     bindP (liftP (cr_number c)) (\<lambda>n.
     bindP (mapP (parse_id w) ms) (\<lambda>ids.
     bindP (statuses_in w ids (At_Block (max (hd_number head') n))) (\<lambda>rs.
     bindP (settle_members_at w a (hd_timestamp head') status' (zip ms rs)) (\<lambda>states.
     bindP (on_journal (txP (resolve_nonce_batch_marked (nonce a) (tx_job a) states m))) (\<lambda>_.
     bindP (liftP (cr_served c)) (\<lambda>_. pureP ()))))))))"

text \<open>Every member's last state, when chain state alone says it.\<close>

primrec close_members :: "nat \<Rightarrow> (string \<times> settlement \<times> int) list \<Rightarrow> (string \<times> string) list tick" where
  "close_members now [] = pureP []"
| "close_members now (p # ps) =
     bindP (note_callback (fst p) (fst (snd p))) (\<lambda>_.
     bindP (liftP (ok_or (Bail ''Batch member state changed under reconciliation'')
                     (settled_state (fst (snd p)) (snd (snd p)) now))) (\<lambda>st.
     bindP (close_members now ps) (\<lambda>rest. pureP ((fst p, st) # rest))))"

definition job_deadline :: "journal \<Rightarrow> string \<Rightarrow> int" where
  "job_deadline j i = (case job_of i j of Some x \<Rightarrow> deadline x | None \<Rightarrow> i64_max)"

definition reconcile_batch :: "world \<Rightarrow> attempt list \<Rightarrow> attempt \<Rightarrow> chain_head \<Rightarrow> bool tick" where
  "reconcile_batch w attempts latest head' =
     bindP (on_journal (readP (members_in (tx_job latest)))) (\<lambda>ms.
     bindP (liftP (ensure (ms \<noteq> []) (Bail ''Batch members missing from journal'') (Inr ()))) (\<lambda>_.
     bindP (first_receipt w tx_hash attempts) (\<lambda>found. case found of
        Some (a, c) \<Rightarrow>
          bindP (receipt_settled w (tx_hash a) c) (\<lambda>ok.
            if ok then bindP (settle_batch_receipt w a c ms head') (\<lambda>_. pureP False) else pureP True)
      | None \<Rightarrow>
          bindP (member_statuses_at w ms head') (\<lambda>rs.
          bindP (on_journal (readP (\<lambda>j. map (job_deadline j) ms))) (\<lambda>ds.
          let over = list_all (\<lambda>(r, d). settled_state r d (hd_timestamp head') \<noteq> None) (zip rs ds);
              any_timely = list_ex (\<lambda>r. timely r (hd_timestamp head') (c_margin (w_cfg w))) rs in
          bindP (decision_nonce w head') (\<lambda>chain_nonce.
            if chain_nonce > as_u64 (nonce latest) then
              bindP (settled_from_any w tx_hash attempts) (\<lambda>any. case any of
                 Some (a, c) \<Rightarrow> bindP (settle_batch_receipt w a c ms head') (\<lambda>_. pureP False)
               | None \<Rightarrow>
                   if over then
                     bindP (close_members (hd_timestamp head') (zip ms (zip rs ds))) (\<lambda>states.
                     bindP (nonce_mark w head' (nonce latest)) (\<lambda>m.
                     bindP (on_journal (txP (resolve_nonce_batch_marked (nonce latest) (tx_job latest) states m)))
                       (\<lambda>_. pureP False)))
                   else if awaiting_receipt_visibility (hd_timestamp head') latest then pureP True
                   else failP (Bail ''Batch nonce consumed but no receipt or terminal state for every member''))
            else bindP (push_lane w attempts latest head' ''cancel'' over any_timely True)
                   (\<lambda>_. pureP True)))))))"

text \<open>The epoch's state when its commit has nothing left to do: committed by someone, its packet too
  old, or nothing paid waits for it any more.\<close>

definition epoch_over :: "world \<Rightarrow> epoch_task \<Rightarrow> bool \<Rightarrow> chain_head \<Rightarrow> string option tick" where
  "epoch_over w task committed head' =
     (if committed then pureP (Some ''committed'')
      else bindP (liftP (epoch_terminal w task (hd_timestamp head'))) (\<lambda>t. case t of
             Some st \<Rightarrow> pureP (Some st)
           | None \<Rightarrow> bindP (epoch_demand_head w (wo_epoch task) (hd_timestamp head')) (\<lambda>demand.
               pureP (if demand = None then Some ''prepared'' else None))))"

definition epoch_committed :: "world \<Rightarrow> nat \<Rightarrow> bool tick" where
  "epoch_committed w e = bindP (ask (\<lambda>m. w_epoch_known w m e None)) (\<lambda>r. case r of
      Answered b \<Rightarrow> pureP b | Refused \<Rightarrow> failP RpcFailed | Undelivered x \<Rightarrow> failP x)"

definition reconcile_epoch :: "world \<Rightarrow> attempt list \<Rightarrow> attempt \<Rightarrow> chain_head \<Rightarrow> bool tick" where
  "reconcile_epoch w attempts latest head' =
     bindP (epoch_lane_only w) (\<lambda>_.
     bindP (on_journal (readRP (epoch_task_of (tx_job latest)))) (\<lambda>task.
     bindP (liftP (ensure (epoch_key w (wo_epoch task) = wo_key task)
                     (Bail ''Epoch registry identity mismatch'') (Inr ()))) (\<lambda>_.
     bindP (epoch_committed w (wo_epoch task)) (\<lambda>committed.
     bindP (epoch_over w task committed head') (\<lambda>over.
     bindP (first_receipt w tx_hash attempts) (\<lambda>found. case found of
        Some (a, c) \<Rightarrow>
          bindP (receipt_settled w (tx_hash a) c) (\<lambda>ok.
            if \<not> ok then pureP True
            else bindP (record_receipt w (tx_hash a) c) (\<lambda>m.
                 bindP (liftP (cr_status c)) (\<lambda>status'.
                 bindP (on_journal (txP (resolve_nonce_epoch_marked (nonce a) (tx_job a)
                          (epoch_resolved_state over (tx_kind a) status') m)))
                   (\<lambda>_. pureP False))))
      | None \<Rightarrow>
          bindP (decision_nonce w head') (\<lambda>chain_nonce.
            if chain_nonce > as_u64 (nonce latest) then
              if committed then
                bindP (nonce_mark w head' (nonce latest)) (\<lambda>m.
                bindP (on_journal (txP (resolve_nonce_epoch_marked (nonce latest) (tx_job latest) ''committed'' m)))
                  (\<lambda>_. pureP False))
              else if awaiting_receipt_visibility (hd_timestamp head') latest then pureP True
              else failP (Bail ''Epoch nonce consumed without receipt or terminal registry state'')
            else bindP (push_lane w attempts latest head' ''epoch_cancel'' (over \<noteq> None) (over = None) False)
                   (\<lambda>_. pureP True))))))))"

definition reconcile :: "world \<Rightarrow> chain_head \<Rightarrow> bool tick" where
  "reconcile w head' =
     bindP (on_journal (readP unresolved)) (\<lambda>attempts.
       if attempts = [] then pureP False
       else let latest = last attempts in
         bindP (liftP (ensure (list_all (\<lambda>a. nonce a = nonce latest) attempts)
                         (Bail ''Multiple unresolved nonce lanes; refusing to guess'') (Inr ()))) (\<lambda>_.
           if starts_with ''epoch'' (tx_kind latest) then
             bindP (liftP (ensure (list_all (\<lambda>a. starts_with ''epoch'' (tx_kind a) \<and> tx_job a = tx_job latest) attempts)
                             (Bail ''Mixed maintenance/game nonce lane'') (Inr ()))) (\<lambda>_.
               reconcile_epoch w attempts latest head')
           else
             bindP (liftP (ensure (list_all (\<lambda>a. \<not> starts_with ''epoch'' (tx_kind a)) attempts)
                             (Bail ''Mixed maintenance/game nonce lane'') (Inr ()))) (\<lambda>_.
               if is_batch_job (tx_job latest) then
                 bindP (liftP (ensure (list_all (\<lambda>a. tx_job a = tx_job latest) attempts)
                                 (Bail ''Mixed batch nonce lane'') (Inr ()))) (\<lambda>_.
                   reconcile_batch w attempts latest head')
               else reconcile_single w attempts latest head')))"

end
