(* ===== verification/Transfers.thy ===== *)
theory Transfers
  imports Reconcile
begin

text \<open>
  The operator sweep in a tick (\<open>worker.rs\<close>): a transfer from the keeper's wallet to the fee
  recipient, which has the nonce lane to itself from its first signature to its receipt. A sweep
  that is not included is cancelled, never priced again. \<open>sign_transfer\<close> also signs the recovery's
  fills.
\<close>

definition sign_transfer :: "world \<Rightarrow> tx_plan \<Rightarrow> target \<Rightarrow> nat \<Rightarrow> nat \<Rightarrow> signed_tx tick" where
  "sign_transfer w p to value now =
     bindP ensure_not_upgraded (\<lambda>_.
     bindP (ensure_lane_sends w) (\<lambda>_.
     bindP (ensure_not_halted w) (\<lambda>_.
     bindP (liftP (w_sign w p to value)) (\<lambda>signed'.
       pureP \<lparr>sg_kind = pl_kind p, sg_hash = fst signed', sg_raw = snd signed', sg_gas = pl_gas p,
              sg_fee = show_nat (pl_fee p), sg_priority = show_nat (pl_priority p), sg_created = now,
              sg_broadcast = 0\<rparr>))))"

definition broadcast_sweep :: "world \<Rightarrow> sweep_attempt \<Rightarrow> unit tick" where
  "broadcast_sweep w a =
     bindP (ensure_not_halted w) (\<lambda>_.
     bindP (verify_runtime w) (\<lambda>_.
       if sa_txs a = [] then failP (Bail ''Sweep attempt has no transaction'')
       else
         bindP (askR (w_now w)) (\<lambda>now.
         let tx = (last (sa_txs a))\<lparr>sg_broadcast := now\<rparr> in
         bindP (on_journal (txP (save (a\<lparr>sa_txs := butlast (sa_txs a) @ [tx]\<rparr>)))) (\<lambda>_.
         bindP (send_raw w (sg_raw tx) (sg_hash tx)) (\<lambda>_. pureP ())))))"

definition refuse_sweep :: "world \<Rightarrow> sweep_request \<Rightarrow> string \<Rightarrow> bool tick" where
  "refuse_sweep w r detail =
     bindP (askR (w_now w)) (\<lambda>now.
     bindP (on_journal (execP (refuse r detail now))) (\<lambda>_. pureP False))"

text \<open>The plan of the transfer is priced, checked against the caps and the reserve, and signed; each
  check that fails refuses the request. A request that waits for a settled lane stays queued.\<close>

definition sweep_reserve :: "world \<Rightarrow> nat" where
  "sweep_reserve w = max (case kind_of w of Epoch \<Rightarrow> MIN_RESERVE_WEI
                           | Round \<Rightarrow> sweep_min_reserve_wei (c_chain (w_cfg w))) (c_max_cost (w_cfg w))"

definition sign_sweep :: "world \<Rightarrow> sweep_request \<Rightarrow> tx_plan \<Rightarrow> nat \<Rightarrow> nat \<Rightarrow> chain_head \<Rightarrow> bool tick" where
  "sign_sweep w r p recipient value head' =
     bindP (verify_runtime w) (\<lambda>_.
     bindP (askR (w_now w)) (\<lambda>now.
     bindP (sign_transfer w p (To_Recipient recipient) value now) (\<lambda>signed'.
     bindP (sign_mark w head' (sg_hash signed')) (\<lambda>m.
     let a = \<lparr>sa_request = r, sa_nonce = pl_nonce p, sa_to = w_address w recipient, sa_value = show_nat value,
              sa_txs = [signed']\<rparr> in
     bindP (on_journal (txP (start_marked a m))) (\<lambda>_.
     bindP (broadcast_sweep w a) (\<lambda>_. pureP True))))))"

definition start_sweep :: "world \<Rightarrow> sweep_request \<Rightarrow> chain_head \<Rightarrow> bool tick" where
  "start_sweep w r head' =
     bindP (on_journal (readRP nonce_floor)) (\<lambda>floor.
     bindP (askR (\<lambda>m. w_nonce w m Latest_Tag)) (\<lambda>latest.
     bindP (askR (w_pending_nonce w)) (\<lambda>pending.
       if latest < floor \<or> latest \<noteq> pending then pureP False
       else
         bindP (askR (w_fee_recipient w)) (\<lambda>recipient.
           if recipient = 0 \<or> recipient = w_wallet w
           then refuse_sweep w r (''Coordinator fee recipient '' @ w_address w recipient @ '' cannot receive a sweep'')
           else
             bindP (askR (w_balance w)) (\<lambda>balance.
             bindP (ask (\<lambda>m. w_transfer_estimate w m recipient)) (\<lambda>estimate. case estimate of
                Refused \<Rightarrow> refuse_sweep w r ''The fee recipient rejects a plain transfer''
              | Undelivered e \<Rightarrow> failP e
              | Answered needed \<Rightarrow>
                  let g = max (sat_mul needed 12 div 10) 21000 in
                  if g > MAX_TRANSFER_GAS
                  then refuse_sweep w r (''A transfer to the fee recipient needs '' @ show_nat g @ '' gas'')
                  else
                    bindP (priority_fee w) (\<lambda>tip.
                    bindP (liftP (required_fee (ch_base_fee head') tip)) (\<lambda>f.
                    let p = \<lparr>pl_nonce = latest, pl_gas = g, pl_fee = f, pl_priority = tip,
                             pl_payload = ''0x'', pl_kind = ''sweep''\<rparr> in
                    if plan_over_budget w p \<noteq> None then refuse_sweep w r ''Transfer exceeds a fee cap''
                    else case plan (w_parse_id w) r balance (f * g) (sweep_reserve w) (unit_of_kind (kind_of w)) of
                           Inl detail \<Rightarrow> refuse_sweep w r detail
                         | Inr value \<Rightarrow> sign_sweep w r p recipient value head'))))))))"

definition sweep_state :: "signed_tx \<Rightarrow> nat \<Rightarrow> string" where
  "sweep_state tx status' = (if sg_kind tx = ''sweep'' then (if status' = 1 then ''sent'' else ''reverted'') else ''cancelled'')"

definition finish_sweep :: "world \<Rightarrow> sweep_attempt \<Rightarrow> signed_tx \<Rightarrow> chain_receipt \<Rightarrow> bool tick" where
  "finish_sweep w a tx c =
     bindP (liftP (cr_status c)) (\<lambda>status'.
     bindP (parse_id w (sa_value a)) (\<lambda>_.
     bindP (askR (w_now w)) (\<lambda>now.
     let st = sweep_state tx status' in
     bindP (receipt_mark w (sg_hash tx) c) (\<lambda>m.
     bindP (on_journal (txP (finish_marked (sa_nonce a)
              \<lparr>oc_state = st, oc_detail = '''', oc_to = Some (sa_to a),
               oc_value = (if st = ''sent'' then Some (sa_value a) else None), oc_tx = Some (sg_hash tx),
               oc_requested = rq_at (sa_request a), oc_finished = now\<rparr> m)))
       (\<lambda>_. pureP False)))))"

definition cancel_sweep :: "world \<Rightarrow> sweep_attempt \<Rightarrow> chain_head \<Rightarrow> nat \<Rightarrow> unit tick" where
  "cancel_sweep w a head' now =
     bindP (replacement_prices w (sg_priority (last (sa_txs a))) (sg_fee (last (sa_txs a))) head') (\<lambda>(f, p).
     bindP (cancel_gas w) (\<lambda>g.
     let plan' = \<lparr>pl_nonce = sa_nonce a, pl_gas = g, pl_fee = f, pl_priority = p, pl_payload = ''0x'',
                 pl_kind = ''cancel''\<rparr> in
     if plan_over_budget w plan' \<noteq> None then defer_for_budget w
     else
       bindP (verify_runtime w) (\<lambda>_.
       bindP (sign_transfer w plan' To_Wallet 0 now) (\<lambda>signed'.
       bindP (sign_mark w head' (sg_hash signed')) (\<lambda>m.
       let a' = a\<lparr>sa_txs := sa_txs a @ [signed']\<rparr> in
       bindP (on_journal (txP (save_marked a' m))) (\<lambda>_. broadcast_sweep w a'))))))"

definition reconcile_sweep :: "world \<Rightarrow> sweep_attempt \<Rightarrow> chain_head \<Rightarrow> bool tick" where
  "reconcile_sweep w a head' =
     bindP (first_receipt w sg_hash (sa_txs a)) (\<lambda>found. case found of
        Some (tx, c) \<Rightarrow>
          bindP (receipt_settled w (sg_hash tx) c) (\<lambda>ok. if ok then finish_sweep w a tx c else pureP True)
      | None \<Rightarrow>
          if sa_txs a = [] then failP (Bail ''Sweep attempt has no transaction'')
          else let tx = last (sa_txs a) in
            bindP (askR (w_now w)) (\<lambda>now.
            bindP (decision_nonce w head') (\<lambda>chain_nonce.
              if chain_nonce > sa_nonce a then
                if sat_sub now (max (sg_broadcast tx) (sg_created tx)) < RECEIPT_VISIBILITY_GRACE_SECONDS
                then pureP True
                else failP (Bail ''Sweep nonce consumed but no sweep receipt found'')
              else
                bindP (readP (sending_halted w)) (\<lambda>halted.
                  if \<not> c_send (w_cfg w) \<or> halted then pureP True
                  else if sat_sub now (sg_created tx) \<ge> REPLACE_AFTER_SECONDS \<and> length (sa_txs a) < MAX_ATTEMPTS
                  then bindP (cancel_sweep w a head' now) (\<lambda>_. pureP True)
                  else if sat_sub now (sg_broadcast tx) \<ge> 2
                  then bindP (broadcast_sweep w a) (\<lambda>_. pureP True)
                  else pureP True))))"

text \<open>Whether the lane is busy.\<close>

definition sweep :: "world \<Rightarrow> chain_head \<Rightarrow> bool tick" where
  "sweep w head' =
     bindP (readP wk_recovery_lane) (\<lambda>taken.
       if taken then pureP True
       else
         bindP (on_journal (readRP sweep_attempt_of)) (\<lambda>found. case found of
            Some a \<Rightarrow> reconcile_sweep w a head'
          | None \<Rightarrow>
              bindP (readP wk_finality_open) (\<lambda>open.
                if \<not> c_send (w_cfg w) \<or> open then pureP False
                else
                  bindP (on_journal (readRP sweep_request_of)) (\<lambda>queued. case queued of
                     None \<Rightarrow> pureP False
                   | Some r \<Rightarrow>
                       if \<not> lane_sends w
                       then refuse_sweep w r ''A round coordinator's keeper sends nothing yet: queue the sweep again once it serves requests''
                       else start_sweep w r head'))))"

end
