(* ===== verification/Recovery.thy ===== *)
theory Recovery
  imports Transfers
begin

text \<open>
  The recovery from a finality mismatch on record (\<open>worker/recovery.rs\<close>): one step per tick. A step
  moves the soft checkpoint to the chain the endpoints serve now, then puts the nonce lane right
  (reopens a nonce the journal settled and the chain has not, or fills it), walks the marks in pages,
  reads the jobs and the epochs again, and at last clears the record. Each step reads the journal and
  the chain afresh, so that a restart at any point resumes where the work stood.
\<close>

abbreviation SCAN_PAGE :: nat where "SCAN_PAGE \<equiv> AUDIT_BLOCKS"
abbreviation SCAN_PAGES_PER_TICK :: nat where "SCAN_PAGES_PER_TICK \<equiv> 4"
abbreviation JOB_PAGE :: nat where "JOB_PAGE \<equiv> 64"
abbreviation EPOCH_PAGE :: nat where "EPOCH_PAGE \<equiv> 32"
abbreviation FILL_REPLACE_SECONDS :: nat where "FILL_REPLACE_SECONDS \<equiv> 10"
abbreviation FILL_ATTEMPTS :: nat where "FILL_ATTEMPTS \<equiv> 4"
abbreviation ABOVE_HEAD_WAIT_SECONDS :: nat where "ABOVE_HEAD_WAIT_SECONDS \<equiv> 20"

definition SCAN_KEY :: string where "SCAN_KEY = ''finality:recovery:scan''"
definition SINCE_KEY :: string where "SINCE_KEY = ''finality:recovery:since''"
definition JOBS_KEY :: string where "JOBS_KEY = ''finality:recovery:jobs''"
definition REWIND_KEY :: string where "REWIND_KEY = ''finality:recovery:rewind''"
definition STATS_KEY :: string where "STATS_KEY = ''finality:recovery:stats''"
definition FILL_KEY :: string where "FILL_KEY = ''finality:recovery:fill''"
definition ABOVE_HEAD_KEY :: string where "ABOVE_HEAD_KEY = ''finality:recovery:above_head_since''"

datatype recovery = Working | Cleared bool

text \<open>The nonces with a stale mark, each with the mark, and whether every mark has been read.\<close>

record scan =
  sc_nonces :: "(nat \<times> mark) list"
  sc_complete :: bool

record fill =
  fi_nonce :: nat
  fi_stale :: bool
  fi_known :: "string list"
  fi_txs :: "signed_tx list"

section \<open>Its records\<close>

definition no_stats :: stats where
  "no_stats = \<lparr>reopened_nonces = [], resent_nonces = [], filled_nonces = [], stale_nonces = [],
     marks_dropped = 0, marks_replaced = 0, jobs_settled = 0, jobs_reopened = 0, jobs_reproved = 0,
     epochs_reopened = 0, epochs_unread = 0\<rparr>"

abbreviation jnat :: "nat \<Rightarrow> json" where "jnat n \<equiv> JNum (int n)"

definition encode_stats :: "stats \<Rightarrow> json" where
  "encode_stats s = JObj
     [(''reopened_nonces'', JArr (map jnat (reopened_nonces s))),
      (''resent_nonces'', JArr (map jnat (resent_nonces s))),
      (''filled_nonces'', JArr (map jnat (filled_nonces s))),
      (''stale_nonces'', JArr (map jnat (stale_nonces s))),
      (''marks_dropped'', jnat (marks_dropped s)), (''marks_replaced'', jnat (marks_replaced s)),
      (''jobs_settled'', jnat (jobs_settled s)), (''jobs_reopened'', jnat (jobs_reopened s)),
      (''jobs_reproved'', jnat (jobs_reproved s)), (''epochs_reopened'', jnat (epochs_reopened s)),
      (''epochs_unread'', jnat (epochs_unread s))]"

text \<open>A field that is absent has its default.\<close>

definition field_or :: "'a \<Rightarrow> (json \<Rightarrow> 'a option) \<Rightarrow> string \<Rightarrow> json \<Rightarrow> 'a option" where
  "field_or d dec k v = (case json_field k v of None \<Rightarrow> Some d | Some x \<Rightarrow> dec x)"

definition decode_stats :: "json \<Rightarrow> stats option" where
  "decode_stats v =
     (let nats = (\<lambda>k. field_or [] (json_list json_nat) k v); num = (\<lambda>k. field_or 0 json_nat k v) in
      case v of JObj _ \<Rightarrow>
        Option.bind (nats ''reopened_nonces'') (\<lambda>a. Option.bind (nats ''resent_nonces'') (\<lambda>b.
        Option.bind (nats ''filled_nonces'') (\<lambda>c. Option.bind (nats ''stale_nonces'') (\<lambda>d.
        Option.bind (num ''marks_dropped'') (\<lambda>e. Option.bind (num ''marks_replaced'') (\<lambda>f.
        Option.bind (num ''jobs_settled'') (\<lambda>g. Option.bind (num ''jobs_reopened'') (\<lambda>h.
        Option.bind (num ''jobs_reproved'') (\<lambda>i. Option.bind (num ''epochs_reopened'') (\<lambda>k.
        Option.bind (num ''epochs_unread'') (\<lambda>l.
          Some \<lparr>reopened_nonces = a, resent_nonces = b, filled_nonces = c, stale_nonces = d,
                marks_dropped = e, marks_replaced = f, jobs_settled = g, jobs_reopened = h,
                jobs_reproved = i, epochs_reopened = k, epochs_unread = l\<rparr>)))))))))))
      | _ \<Rightarrow> None)"

definition encode_fill :: "fill \<Rightarrow> json" where
  "encode_fill f = JObj [(''nonce'', jnat (fi_nonce f)), (''stale'', JBool (fi_stale f)),
     (''known'', JArr (map JStr (fi_known f))), (''txs'', JArr (map encode_signed (fi_txs f)))]"

definition decode_fill :: "json \<Rightarrow> fill option" where
  "decode_fill v =
     Option.bind (field_nat ''nonce'' v) (\<lambda>n.
     Option.bind (Option.bind (json_field ''stale'' v) json_bool) (\<lambda>s.
     Option.bind (Option.bind (json_field ''known'' v) (json_list json_str)) (\<lambda>k.
     Option.bind (Option.bind (json_field ''txs'' v) (json_list decode_signed)) (\<lambda>t.
       Some \<lparr>fi_nonce = n, fi_stale = s, fi_known = k, fi_txs = t\<rparr>))))"

definition read_json :: "(json \<Rightarrow> 'a option) \<Rightarrow> string \<Rightarrow> journal \<Rightarrow> error + 'a option" where
  "read_json dec k j = optR (\<lambda>v. ok_or MalformedJson (Option.bind (as_json v) dec)) (meta j k)"

definition fill_of :: "journal \<Rightarrow> error + fill option" where
  "fill_of j = read_json decode_fill FILL_KEY j"

definition set_lane :: "bool \<Rightarrow> unit tick" where
  "set_lane b = execP (\<lambda>s. s\<lparr>wk_recovery_lane := b\<rparr>)"

definition count_up :: "(stats \<Rightarrow> stats) \<Rightarrow> unit tick" where
  "count_up f = execP (\<lambda>s. s\<lparr>wk_stats := f (wk_stats s)\<rparr>)"

section \<open>The walk through the marks\<close>

definition waited_above_head :: "world \<Rightarrow> bool tick" where
  "waited_above_head w =
     bindP (askR (w_now w)) (\<lambda>now.
     bindP (on_journal (readP (meta_text ABOVE_HEAD_KEY))) (\<lambda>saved.
     bindP (case saved of
              Some t \<Rightarrow> pureP (case parse_uint u64_max t of Some n \<Rightarrow> n | None \<Rightarrow> now)
            | None \<Rightarrow> bindP (on_journal (execP (set_meta ABOVE_HEAD_KEY (Text (show_nat now))))) (\<lambda>_. pureP now))
       (\<lambda>from_time. pureP (sat_sub now from_time \<ge> ABOVE_HEAD_WAIT_SECONDS))))"

definition reset_above_head_wait :: "unit tick" where
  "reset_above_head_wait = on_journal (execP (meta_delete (\<lambda>k. k = ABOVE_HEAD_KEY)))"

definition nonce_of :: "string \<Rightarrow> journal \<Rightarrow> error + nat option" where
  "nonce_of h j = optR (\<lambda>t. u64_try TryFromInt (nonce t)) (find (\<lambda>t. tx_hash t = h) (txs j))"

text \<open>True unless the receipt is there and not settled yet.\<close>

definition remark_foreign_receipt :: "world \<Rightarrow> mark \<Rightarrow> bool tick" where
  "remark_foreign_receipt w stale =
     bindP (askR (\<lambda>m. w_receipt w m (mk_ref stale))) (\<lambda>found. case found of
        Some c \<Rightarrow>
          bindP (receipt_settled w (mk_ref stale) c) (\<lambda>ok.
            if \<not> ok then pureP False
            else bindP (receipt_mark w (mk_ref stale) c) (\<lambda>fresh.
                 bindP (on_journal (txP (replace_marks [stale] fresh))) (\<lambda>_. pureP True)))
      | None \<Rightarrow> bindP (on_journal (txP (replace_marks [stale] None))) (\<lambda>_. pureP True))"

definition is_stale :: "(nat \<times> string) list \<Rightarrow> mark \<Rightarrow> bool" where
  "is_stale canonical m = (case map_of canonical (mk_number m) of
      None \<Rightarrow> True | Some h \<Rightarrow> \<not> eq_ignore_ascii_case h (mk_hash m))"

text \<open>The stale marks of a page: those to delete, those of a nonce, and whether one waits.\<close>

primrec sort_stale :: "world \<Rightarrow> mark list \<Rightarrow> (mark list \<times> (nat \<times> mark) list \<times> bool) tick" where
  "sort_stale w [] = pureP ([], [], False)"
| "sort_stale w (m # ms) =
     bindP (case mk_kind m of
              Head \<Rightarrow> pureP ([m], [], False)
            | Sign \<Rightarrow> pureP ([m], [], False)
            | Nonce \<Rightarrow> pureP (case parse_uint u64_max (mk_ref m) of
                          Some n \<Rightarrow> ([], [(n, m)], False) | None \<Rightarrow> ([m], [], False))
            | Receipt \<Rightarrow>
                bindP (on_journal (readRP (nonce_of (mk_ref m)))) (\<lambda>n. case n of
                   Some n' \<Rightarrow> pureP ([], [(n', m)], False)
                 | None \<Rightarrow> bindP (remark_foreign_receipt w m) (\<lambda>done. pureP ([], [], \<not> done)))) (\<lambda>x.
     bindP (sort_stale w ms) (\<lambda>y.
       pureP (fst x @ fst y, fst (snd x) @ fst (snd y), snd (snd x) \<or> snd (snd y))))"

definition canonical_hashes :: "world \<Rightarrow> nat list \<Rightarrow> (nat \<times> string) list tick" where
  "canonical_hashes w ns =
     (if ns = [] then pureP []
      else bindP (askR (\<lambda>m. w_block_hashes w m ns)) (\<lambda>hs. pureP (zip ns hs)))"

primrec scan_pages :: "world \<Rightarrow> nat \<Rightarrow> bool \<Rightarrow> nat \<Rightarrow> nat \<Rightarrow> scan tick" where
  "scan_pages w tip shorter 0 from = pureP \<lparr>sc_nonces = [], sc_complete = False\<rparr>"
| "scan_pages w tip shorter (Suc pages) from =
     bindP (on_journal (readRP (mark_numbers_from from SCAN_PAGE))) (\<lambda>numbers.
       if numbers = [] then pureP \<lparr>sc_nonces = [], sc_complete = True\<rparr>
       else
         bindP (if \<not> shorter \<and> last numbers > tip then waited_above_head w else pureP True) (\<lambda>ready.
           if \<not> ready then pureP \<lparr>sc_nonces = [], sc_complete = False\<rparr>
           else
             bindP (if last numbers \<le> tip then reset_above_head_wait else pureP ()) (\<lambda>_.
             bindP (canonical_hashes w (filter (\<lambda>n. n \<le> tip) numbers)) (\<lambda>canonical.
             bindP (on_journal (readRP (marks_between (hd numbers) (last numbers)))) (\<lambda>marks.
             bindP (sort_stale w (filter (is_stale canonical) marks)) (\<lambda>(gone, nonces, waiting).
             bindP (if gone = [] then pureP ()
                    else bindP (on_journal (txP (replace_marks gone None))) (\<lambda>_.
                           count_up (\<lambda>x. x\<lparr>marks_dropped := marks_dropped x + length gone\<rparr>))) (\<lambda>_.
               if nonces = [] \<and> \<not> waiting
               then let from' = sat_add (last numbers) 1 in
                 bindP (on_journal (execP (set_meta SCAN_KEY (Text (show_nat from'))))) (\<lambda>_.
                   scan_pages w tip shorter pages from')
               else pureP \<lparr>sc_nonces = nonces, sc_complete = False\<rparr>)))))))"

definition scan_marks :: "world \<Rightarrow> chain_head \<Rightarrow> bool \<Rightarrow> scan tick" where
  "scan_marks w head' shorter =
     bindP (on_journal (readP (meta_text SCAN_KEY))) (\<lambda>saved.
       scan_pages w (hd_number head') shorter SCAN_PAGES_PER_TICK
         (case Option.bind saved (parse_uint u64_max) of Some n \<Rightarrow> n | None \<Rightarrow> 0))"

section \<open>Filling a nonce\<close>

definition last_need :: "fill \<Rightarrow> nat tick" where
  "last_need f =
     (if fi_txs f = [] then failP (Bail ''Fill has no transaction'')
      else bindP (parse_price (sg_fee (last (fi_txs f)))) (\<lambda>p.
             pureP (sat128 (p * sg_gas (last (fi_txs f))))))"

definition broadcast_fill :: "world \<Rightarrow> fill \<Rightarrow> unit tick" where
  "broadcast_fill w f =
     bindP (ensure_not_halted w) (\<lambda>_.
     bindP (verify_runtime w) (\<lambda>_.
       if fi_txs f = [] then failP (Bail ''Fill has no transaction'')
       else
         bindP (askR (w_now w)) (\<lambda>now.
         let tx = (last (fi_txs f))\<lparr>sg_broadcast := now\<rparr>;
             f' = f\<lparr>fi_txs := butlast (fi_txs f) @ [tx]\<rparr> in
         bindP (on_journal (execP (set_meta FILL_KEY (Json (encode_fill f'))))) (\<lambda>_.
         bindP (send_raw w (sg_raw tx) (sg_hash tx)) (\<lambda>outcome. case outcome of
            Rejected reason \<Rightarrow>
              if kind_of w = Round \<and> reason = ''insufficient_funds''
              then bindP (last_need f') (funds_short w) else pureP ()
          | _ \<Rightarrow> pureP ())))))"

definition fill_settled :: "fill \<Rightarrow> string list \<Rightarrow> mark option \<Rightarrow> unit tick" where
  "fill_settled f hashes fresh = on_journal (txP (settle_fill FILL_KEY (fi_nonce f) hashes fresh))"

text \<open>The price of the next fill: above the last one, or above what the nonce's earlier transaction
  offered, which a node may still hold.\<close>

definition fill_prices :: "world \<Rightarrow> fill \<Rightarrow> chain_head \<Rightarrow> (nat \<times> nat) tick" where
  "fill_prices w f head' =
     bindP (if fi_txs f \<noteq> [] then pureP (Some (sg_priority (last (fi_txs f)), sg_fee (last (fi_txs f))))
            else bindP (liftP (i64_try TryFromInt (fi_nonce f))) (\<lambda>n.
                 bindP (on_journal (readP (latest_of n))) (\<lambda>t.
                   pureP (map_option (\<lambda>a. (priority a, fee a)) t)))) (\<lambda>previous. case previous of
        Some (p, fe) \<Rightarrow> replacement_prices w p fe head'
      | None \<Rightarrow> bindP (priority_fee w) (\<lambda>tip.
                bindP (liftP (required_fee (ch_base_fee head') tip)) (\<lambda>fe. pureP (fe, tip))))"

definition sign_fill :: "world \<Rightarrow> fill \<Rightarrow> chain_head \<Rightarrow> nat \<Rightarrow> unit tick" where
  "sign_fill w f head' now =
     bindP (fill_prices w f head') (\<lambda>(fe, p).
     bindP (cancel_gas w) (\<lambda>g.
     let plan' = \<lparr>pl_nonce = fi_nonce f, pl_gas = g, pl_fee = fe, pl_priority = p, pl_payload = ''0x'',
                 pl_kind = ''cancel''\<rparr> in
     if plan_over_budget w plan' \<noteq> None then defer_for_budget w
     else
       bindP (verify_runtime w) (\<lambda>_.
       bindP (sign_transfer w plan' To_Wallet 0 now) (\<lambda>signed'.
       bindP (sign_mark w head' (sg_hash signed')) (\<lambda>m.
       let f' = f\<lparr>fi_txs := fi_txs f @ [signed']\<rparr> in
       bindP (on_journal (txP (set_meta_marked FILL_KEY (Json (encode_fill f')) m))) (\<lambda>_.
         broadcast_fill w f'))))))"

definition step_fill :: "world \<Rightarrow> fill \<Rightarrow> chain_head \<Rightarrow> unit tick" where
  "step_fill w f head' =
     (let hashes = map sg_hash (fi_txs f) @ fi_known f in
      bindP (first_receipt w id hashes) (\<lambda>found. case found of
         Some (h, c) \<Rightarrow>
           bindP (receipt_settled w h c) (\<lambda>ok.
             if \<not> ok then pureP ()
             else bindP (receipt_mark w h c) (fill_settled f hashes))
       | None \<Rightarrow>
           bindP (askR (w_now w)) (\<lambda>now.
           bindP (decision_nonce w head') (\<lambda>chain_nonce.
             if chain_nonce > fi_nonce f then
               bindP (settled_from_any w id hashes) (\<lambda>any. case any of
                  Some (h, c) \<Rightarrow> bindP (receipt_mark w h c) (fill_settled f hashes)
                | None \<Rightarrow>
                    let seen' = (if fi_txs f = [] then 0
                                 else max (sg_broadcast (last (fi_txs f))) (sg_created (last (fi_txs f)))) in
                    if sat_sub now seen' < RECEIPT_VISIBILITY_GRACE_SECONDS then pureP ()
                    else bindP (liftP (i64_try TryFromInt (fi_nonce f))) (\<lambda>n.
                         bindP (nonce_mark w head' n) (fill_settled f hashes)))
             else if \<not> c_send (w_cfg w) then pureP ()
             else if fi_txs f = [] \<or> (sat_sub now (sg_created (last (fi_txs f))) \<ge> FILL_REPLACE_SECONDS
                                      \<and> length (fi_txs f) < FILL_ATTEMPTS)
             then sign_fill w f head' now
             else if sat_sub now (sg_broadcast (last (fi_txs f))) \<ge> 2 then broadcast_fill w f
             else pureP ()))))"

definition start_fill :: "world \<Rightarrow> chain_head \<Rightarrow> nat \<Rightarrow> bool \<Rightarrow> unit tick" where
  "start_fill w head' n stale =
     bindP (liftP (i64_try TryFromInt n)) (\<lambda>n'.
     bindP (on_journal (readP (\<lambda>j. map tx_hash (sort_key tx_id (filter (\<lambda>t. nonce t = n') (txs j)))))) (\<lambda>known.
     let f = \<lparr>fi_nonce = n, fi_stale = stale, fi_known = known, fi_txs = []\<rparr> in
     bindP (on_journal (execP (begin_fill FILL_KEY (Json (encode_fill f))))) (\<lambda>_.
     bindP (set_lane True) (\<lambda>_.
     bindP (count_up (\<lambda>x. x\<lparr>filled_nonces := filled_nonces x @ [n],
                             stale_nonces := (if stale then stale_nonces x @ [n] else stale_nonces x)\<rparr>)) (\<lambda>_.
       step_fill w f head')))))"

section \<open>The jobs and the epochs read again\<close>

definition proof_seed_at :: "world \<Rightarrow> nat \<Rightarrow> chain_head \<Rightarrow> nat option tick" where
  "proof_seed_at w i head' =
     bindP (ask (\<lambda>m. w_proof_context w m i (hd_number head'))) (\<lambda>r. case r of
        Answered seed \<Rightarrow> pureP (Some seed) | Refused \<Rightarrow> pureP None | Undelivered e \<Rightarrow> failP e)"

text \<open>Whether a round coordinator's request moved: its fingerprint is not the one the journal assigned
  to it, or not the one its proof was made for.\<close>

definition request_changed :: "world \<Rightarrow> job \<Rightarrow> round_request \<Rightarrow> round_assignment option \<Rightarrow> bool" where
  "request_changed w job r assigned =
     ((case assigned of None \<Rightarrow> True | Some a \<Rightarrow> as_fingerprint a \<noteq> fingerprint w r)
      \<or> (case job_proof job of None \<Rightarrow> False
         | Some t \<Rightarrow> (case w_proof_fingerprint w t of Some f \<Rightarrow> f | None \<Rightarrow> '''') \<noteq> fingerprint w r))"

definition reprove_job :: "string \<Rightarrow> int \<Rightarrow> journal \<Rightarrow> journal" where
  "reprove_job i d j = clear_backoffs i (update_jobs (\<lambda>r. job_id r = i)
     (\<lambda>r. r\<lparr>job_proof := None, job_call := None, job_state := ''pending'', deadline := d\<rparr>) j)"

definition reopen_job :: "string \<Rightarrow> journal \<Rightarrow> journal" where
  "reopen_job i j = update_jobs (\<lambda>r. job_id r = i)
     (\<lambda>r. r\<lparr>job_state := (if job_call r = None then ''pending'' else ''prepared'')\<rparr>) j"

definition reclassify_job ::
    "world \<Rightarrow> job \<Rightarrow> settlement \<Rightarrow> round_request option \<Rightarrow> chain_head \<Rightarrow> unit tick" where
  "reclassify_job w job r round head' = (case terminal r (hd_timestamp head') of
      Some st \<Rightarrow>
        bindP (note_callback (job_id job) r) (\<lambda>_.
          if job_state job = st then pureP ()
          else bindP (on_journal (execP (set_state (job_id job) st))) (\<lambda>_.
                 count_up (\<lambda>x. x\<lparr>jobs_settled := jobs_settled x + 1\<rparr>)))
    | None \<Rightarrow>
        bindP (liftP (i64_try TryFromInt (s_deadline r))) (\<lambda>d.
        bindP (case round of
                 None \<Rightarrow> pureP (d \<noteq> deadline job)
               | Some q \<Rightarrow>
                   bindP (on_journal (readRP (round_assignment_of (job_id job)))) (\<lambda>assigned.
                     if request_changed w job q assigned
                     then bindP (record_move w (job_id job) q) (\<lambda>_. pureP True)
                     else pureP (d \<noteq> deadline job))) (\<lambda>changed.
        bindP (case job_proof job of
                 Some t \<Rightarrow>
                   if \<not> changed \<and> kind_of w = Epoch
                   then bindP (parse_id w (job_id job)) (\<lambda>i.
                        bindP (proof_seed_at w i head') (\<lambda>seed.
                          pureP (case w_proof_seed w t of Some s \<Rightarrow> Some s \<noteq> seed | None \<Rightarrow> True)))
                   else pureP changed
               | None \<Rightarrow> pureP changed) (\<lambda>changed'.
          if changed' then
            bindP (on_journal (execP (reprove_job (job_id job) d))) (\<lambda>_.
              count_up (\<lambda>x. x\<lparr>jobs_reproved := jobs_reproved x + 1\<rparr>))
          else if job_state job \<in> {''served'', ''callback_failed'', ''signed'', ''submitted'', ''vanished''} then
            bindP (on_journal (execP (reopen_job (job_id job)))) (\<lambda>_.
              count_up (\<lambda>x. x\<lparr>jobs_reopened := jobs_reopened x + 1\<rparr>))
          else pureP ()))))"

text \<open>The next page of jobs after the last one that was read.\<close>

definition reclassified_states :: "string list" where
  "reclassified_states = [''served'', ''callback_failed'', ''pending'', ''prepared'', ''signed'', ''submitted'']"

definition jobs_page :: "int \<Rightarrow> int \<Rightarrow> int \<times> string \<Rightarrow> journal \<Rightarrow> job list" where
  "jobs_page now from_time after j =
     take JOB_PAGE (sort_key (\<lambda>r. (deadline r, job_id r))
       (filter (\<lambda>r. (job_state r \<in> set reclassified_states \<or> (job_state r = ''vanished'' \<and> deadline r > now))
                   \<and> deadline r \<ge> from_time \<and> (deadline r, job_id r) > after
                   \<and> \<not> own_open (job_id r) j \<and> \<not> batch_open (job_id r) j) (jobs j)))"

definition jobs_cursor :: "journal \<Rightarrow> error + int \<times> string" where
  "jobs_cursor j = (case meta j JOBS_KEY of
      None \<Rightarrow> Inr (i64_min, '''')
    | Some v \<Rightarrow> (case as_json v of
        Some (JArr [JNum d, JStr i]) \<Rightarrow> Inr (d, i)
      | _ \<Rightarrow> Inl MalformedJson))"

text \<open>How many of the page were read within the step's time; at least one is.\<close>

primrec reclassify_each ::
    "world \<Rightarrow> chain_head \<Rightarrow> nat \<Rightarrow> (job \<times> settlement \<times> round_request option) list \<Rightarrow> nat tick" where
  "reclassify_each w head' read [] = pureP read"
| "reclassify_each w head' read (x # xs) =
     bindP (if read > 0 then ask (w_out_of_time w) else pureP False) (\<lambda>out.
       if out then pureP read
       else bindP (reclassify_job w (fst x) (fst (snd x)) (snd (snd x)) head') (\<lambda>_.
              reclassify_each w head' (read + 1) xs))"

text \<open>The bisection for the first request with a deadline from \<open>from_time\<close> on: \<open>None\<close> when the step's
  time ended, with the interval saved.\<close>

function rewind_from :: "world \<Rightarrow> nat \<Rightarrow> nat \<Rightarrow> nat \<Rightarrow> nat \<Rightarrow> nat \<Rightarrow> nat option tick" where
  "rewind_from w block from_time steps low high =
     (if low < high then
        bindP (if steps > 0 then ask (w_out_of_time w) else pureP False) (\<lambda>out.
          if out then
            bindP (on_journal (execP (set_meta REWIND_KEY (Text (show_nat low @ '','' @ show_nat high)))))
              (\<lambda>_. pureP None)
          else
            bindP (deadline_at w (low + (high - low) div 2) block) (\<lambda>d.
              if d < from_time then rewind_from w block from_time (Suc steps) (low + (high - low) div 2 + 1) high
              else rewind_from w block from_time (Suc steps) low (low + (high - low) div 2)))
      else pureP (Some low))"
  by auto
termination by (relation "measure (\<lambda>(w, block, from_time, steps, low, high). high - low)") auto

declare rewind_from.simps [simp del]

definition split_comma :: "string \<Rightarrow> (string \<times> string) option" where
  "split_comma t = (if CHR '','' \<in> set t
     then Some (takeWhile (\<lambda>c. c \<noteq> CHR '','') t, tl (dropWhile (\<lambda>c. c \<noteq> CHR '','') t)) else None)"

definition saved_interval :: "string option \<Rightarrow> (nat \<times> nat) option" where
  "saved_interval saved =
     Option.bind saved (\<lambda>t. Option.bind (split_comma t) (\<lambda>(a, b).
       Option.bind (parse_uint u64_max a) (\<lambda>low. Option.bind (parse_uint u64_max b) (\<lambda>high. Some (low, high)))))"

text \<open>\<open>UPDATE meta SET value = MIN(...) WHERE key='cursor'\<close>.\<close>

definition lower_cursor :: "int \<Rightarrow> journal \<Rightarrow> journal" where
  "lower_cursor low j = (case meta j ''cursor'' of
      None \<Rightarrow> j
    | Some v \<Rightarrow> meta_put ''cursor'' (Text (show_int (min (mval_int v) low))) j)"

definition rewind_discovery :: "world \<Rightarrow> chain_head \<Rightarrow> nat \<Rightarrow> bool tick" where
  "rewind_discovery w head' from_time =
     bindP (on_journal (readP (meta_text REWIND_KEY))) (\<lambda>saved.
       if saved = Some ''done'' then pureP True
       else
         bindP (case saved_interval saved of
                  Some i \<Rightarrow> pureP i
                | None \<Rightarrow> bindP (next_request_id_at w (hd_number head')) (\<lambda>n. pureP (1, n))) (\<lambda>(low, high).
         bindP (rewind_from w (hd_number head') from_time 0 low high) (\<lambda>found. case found of
            None \<Rightarrow> pureP False
          | Some first \<Rightarrow>
              bindP (liftP (i64_try TryFromInt first)) (\<lambda>n.
              bindP (on_journal (execP (lower_cursor n))) (\<lambda>_.
              bindP (on_journal (execP (set_meta REWIND_KEY (Text ''done'')))) (\<lambda>_. pureP True))))))"

definition reclassify_since :: "world \<Rightarrow> chain_head \<Rightarrow> nat tick" where
  "reclassify_since w head' =
     bindP (on_journal (readP (meta_text SINCE_KEY))) (\<lambda>saved.
       case Option.bind saved (parse_uint u64_max) of
         Some t \<Rightarrow> pureP t
       | None \<Rightarrow>
           bindP (ask (w_finalized w)) (\<lambda>fin.
           let final = (case fin of Inr h \<Rightarrow> hd_timestamp h | Inl _ \<Rightarrow> 0);
               oldest = sat_sub (hd_timestamp head') (2 * finality_audit_max_lag_seconds (c_chain (w_cfg w)));
               t = min (max final oldest) (hd_timestamp head') in
           bindP (on_journal (execP (set_meta SINCE_KEY (Text (show_nat t))))) (\<lambda>_. pureP t)))"

text \<open>The requests of a page: with the round coordinator's own, whose fingerprints are compared.\<close>

definition page_requests ::
    "world \<Rightarrow> nat list \<Rightarrow> chain_head \<Rightarrow> (settlement \<times> round_request option) list tick" where
  "page_requests w ids head' = (case kind_of w of
      Epoch \<Rightarrow> bindP (statuses_in w ids (decision_tag w head')) (\<lambda>rs.
                 pureP (zip rs (replicate (length ids) None)))
    | Round \<Rightarrow> bindP (round_requests_in w ids (decision_tag w head')) (\<lambda>rs.
                 pureP (map (\<lambda>r. (of_round_request r, r)) rs)))"

text \<open>True when there is no job left to read.\<close>

definition reclassify_jobs :: "world \<Rightarrow> chain_head \<Rightarrow> bool tick" where
  "reclassify_jobs w head' =
     bindP (reclassify_since w head') (\<lambda>t.
     bindP (rewind_discovery w head' t) (\<lambda>rewound.
       if \<not> rewound then pureP False
       else
         bindP (liftP (i64_try TryFromInt t)) (\<lambda>from_time.
         bindP (on_journal (readRP jobs_cursor)) (\<lambda>after.
         bindP (liftP (i64_try TryFromInt (hd_timestamp head'))) (\<lambda>now.
         bindP (on_journal (readP (jobs_page now from_time after))) (\<lambda>page.
           if page = [] then pureP True
           else
             bindP (mapP (\<lambda>r. parse_id w (job_id r)) page) (\<lambda>ids.
             bindP (page_requests w ids head') (\<lambda>rs.
             bindP (reclassify_each w head' 0 (zip page rs)) (\<lambda>read.
               if read = 0 then failP (Bail ''attempt to subtract with overflow'')
               else let r = page ! (read - 1) in
                 bindP (on_journal (execP (set_meta JOBS_KEY (Json (JArr [JNum (deadline r), JStr (job_id r)])))))
                   (\<lambda>_. pureP (read = length page \<and> length page < JOB_PAGE))))))))))) "

text \<open>The epochs that are committed here and not in the registry return to the queue.\<close>

definition committed_epochs :: "world \<Rightarrow> journal \<Rightarrow> error + epoch_row list" where
  "committed_epochs w j = bindR (table (epoch_work j)) (\<lambda>rows.
     Inr (take EPOCH_PAGE (sort_key (\<lambda>r. - ew_epoch r)
       (filter (\<lambda>r. ew_registry r = w_registry w \<and> ew_catalog r = w_catalog w \<and> ew_state r = ''committed'') rows))))"

definition uncommitted :: "string \<Rightarrow> journal \<Rightarrow> epoch_row \<Rightarrow> bool" where
  "uncommitted key j r = (ew_key r = key \<and> ew_state r = ''committed'' \<and> \<not> own_open key j)"

definition uncommit_epoch :: "epoch_row \<Rightarrow> journal \<Rightarrow> error + nat \<times> journal" where
  "uncommit_epoch e j = bindR (table (epoch_work j)) (\<lambda>rows.
     Inr (count_where (uncommitted (ew_key e) j) rows,
          j\<lparr>epoch_work := Some (upd_where (uncommitted (ew_key e) j)
             (\<lambda>r. r\<lparr>ew_state := (if ew_api e = None then ''pending'' else ''prepared'')\<rparr>) rows)\<rparr>))"

definition reclassify_epoch :: "world \<Rightarrow> chain_head \<Rightarrow> epoch_row \<Rightarrow> unit tick" where
  "reclassify_epoch w head' e =
     bindP (liftP (u64_try TryFromInt (ew_epoch e))) (\<lambda>n.
     bindP (ask (\<lambda>m. w_epoch_known w m n (Some (hd_number head')))) (\<lambda>r. case r of
        Answered True \<Rightarrow> pureP ()
      | Answered False \<Rightarrow>
          bindP (on_journal (txvP (uncommit_epoch e))) (\<lambda>moved.
            count_up (\<lambda>x. x\<lparr>epochs_reopened := epochs_reopened x + moved\<rparr>))
      | Refused \<Rightarrow> count_up (\<lambda>x. x\<lparr>epochs_unread := epochs_unread x + 1\<rparr>)
      | Undelivered x \<Rightarrow> failP x))"

definition reclassify_epochs :: "world \<Rightarrow> chain_head \<Rightarrow> unit tick" where
  "reclassify_epochs w head' =
     bindP (on_journal (readRP (committed_epochs w))) (eachP (reclassify_epoch w head'))"

section \<open>A step\<close>

primrec any_stale_seed :: "world \<Rightarrow> chain_head \<Rightarrow> (nat \<times> nat) list \<Rightarrow> bool tick" where
  "any_stale_seed w head' [] = pureP False"
| "any_stale_seed w head' (p # ps) =
     bindP (proof_seed_at w (fst p) head') (\<lambda>seed.
       if seed \<noteq> Some (snd p) then pureP True else any_stale_seed w head' ps)"

definition stale_in_lane :: "world \<Rightarrow> nat \<Rightarrow> chain_head \<Rightarrow> bool tick" where
  "stale_in_lane w n head' = (case kind_of w of
      Round \<Rightarrow> bindP (stale_round_requests w n head') (\<lambda>stale. pureP (stale \<noteq> []))
    | Epoch \<Rightarrow>
        bindP (liftP (i64_try TryFromInt n)) (\<lambda>n'.
        bindP (on_journal (readP (latest_of n'))) (\<lambda>found. case found of
           None \<Rightarrow> pureP False
         | Some t \<Rightarrow>
             if raw t = [] then pureP False
             else case w_decode_epoch w (payload t) of
                    None \<Rightarrow> pureP False
                  | Some ps \<Rightarrow> any_stale_seed w head' ps)))"

text \<open>The reopened nonces that were broadcast again.\<close>

definition resent_in :: "journal \<Rightarrow> nat list \<Rightarrow> nat list \<Rightarrow> error + nat list" where
  "resent_in j reopened resent =
     foldR (\<lambda>n found. bindR (i64_try TryFromInt n) (\<lambda>n'.
              let most = sql_max (map broadcast (filter (\<lambda>t. nonce t = n') (txs j))) in
              Inr (if (case most of Some b \<Rightarrow> b > 0 | None \<Rightarrow> False) \<and> n \<notin> set found then found @ [n] else found)))
       reopened resent"

definition recovery_summary ::
    "world \<Rightarrow> mismatch \<Rightarrow> acknowledgement option \<Rightarrow> nat \<Rightarrow> chain_head \<Rightarrow> mval option \<Rightarrow> stats \<Rightarrow> json" where
  "recovery_summary w incident ack now head' confirmed st = JObj
     [(''mismatch'', encode_mismatch incident), (''id'', JStr (mismatch_id (w_keccak_hex w) incident)),
      (''confirmed'', (case Option.bind confirmed as_json of Some v \<Rightarrow> v | None \<Rightarrow> JNull)),
      (''acknowledged_at'', (case ack of Some a \<Rightarrow> jnat (acknowledged_at a) | None \<Rightarrow> JNull)),
      (''recovered_at'', jnat now),
      (''recovered_on'', JObj [(''block'', jnat (hd_number head')), (''hash'', JStr (ch_hash head'))]),
      (''coordinator'', JStr (kind_word (kind_of w))), (''done'', encode_stats st)]"

definition finish_recovery ::
    "world \<Rightarrow> chain_head \<Rightarrow> mismatch \<Rightarrow> acknowledgement option \<Rightarrow> scan \<Rightarrow> nat \<Rightarrow> recovery tick" where
  "finish_recovery w head' incident ack sc now =
     (if \<not> sc_complete sc then pureP Working
      else
        bindP (reclassify_jobs w head') (\<lambda>done.
          if \<not> done then pureP Working
          else
            bindP (if kind_of w = Epoch then reclassify_epochs w head' else pureP ()) (\<lambda>_.
            bindP (readP wk_stats) (\<lambda>st.
            bindP (on_journal (readRP (\<lambda>j. resent_in j (reopened_nonces st) (resent_nonces st)))) (\<lambda>resent.
            bindP (count_up (\<lambda>x. x\<lparr>resent_nonces := resent\<rparr>)) (\<lambda>_.
            bindP (on_journal (readP (\<lambda>j. meta j CONFIRMED_KEY))) (\<lambda>confirmed.
            bindP (on_journal (txP (clear_finality_incident
                     (recovery_summary w incident ack now head' confirmed (st\<lparr>resent_nonces := resent\<rparr>)))))
              (\<lambda>_. pureP (Cleared (filled_nonces st \<noteq> [] \<or> resent \<noteq> []))))))))))"

definition next_nonce :: "nat \<Rightarrow> nat \<Rightarrow> scan \<Rightarrow> nat option" where
  "next_nonce chain_nonce floor sc =
     sql_min ((if chain_nonce < floor then [chain_nonce] else []) @ map fst (sc_nonces sc))"

text \<open>The nonce taken back: filled when its bytes are stale, reopened when the journal has bytes for
  it, marked as found consumed when the chain has used it, and filled otherwise.\<close>

definition take_back :: "world \<Rightarrow> chain_head \<Rightarrow> nat \<Rightarrow> scan \<Rightarrow> nat \<Rightarrow> nat \<Rightarrow> unit tick" where
  "take_back w head' chain_nonce sc now n =
     bindP (if n = chain_nonce then stale_in_lane w n head' else pureP False) (\<lambda>stale.
       if stale then start_fill w head' n True
       else
         bindP (on_journal (txvP (reopen_nonce n (hd_timestamp head') now))) (\<lambda>r. case r of
            Reopened_Lane \<Rightarrow>
              bindP (set_lane True) (\<lambda>_.
                count_up (\<lambda>x. x\<lparr>reopened_nonces := reopened_nonces x @ [n]\<rparr>))
          | NoBytes \<Rightarrow>
              if n < chain_nonce then
                let marks = map snd (filter (\<lambda>p. fst p = n) (sc_nonces sc)) in
                bindP (liftP (i64_try TryFromInt n)) (\<lambda>n'.
                bindP (nonce_mark w head' n') (\<lambda>fresh.
                bindP (on_journal (txP (replace_marks marks fresh))) (\<lambda>_.
                  count_up (\<lambda>x. x\<lparr>marks_replaced := marks_replaced x + length marks\<rparr>))))
              else start_fill w head' n False))"

definition reopened_live :: "nat \<Rightarrow> journal \<Rightarrow> bool" where
  "reopened_live floor j = list_ex (\<lambda>a. 0 \<le> nonce a \<and> nat (nonce a) < floor) (unresolved j)"

definition recovery_step :: "world \<Rightarrow> chain_head \<Rightarrow> mismatch \<Rightarrow> acknowledgement option \<Rightarrow> recovery tick" where
  "recovery_step w head' incident ack =
     bindP (askR (w_now w)) (\<lambda>now.
     bindP (on_journal (txP (rebase_soft_decision (hd_number head') (ch_hash head') now))) (\<lambda>_.
     bindP (on_journal (readRP fill_of)) (\<lambda>filling. case filling of
        Some f \<Rightarrow> bindP (set_lane True) (\<lambda>_. bindP (step_fill w f head') (\<lambda>_. pureP Working))
      | None \<Rightarrow>
          bindP (on_journal (readRP nonce_floor)) (\<lambda>floor.
          bindP (on_journal (readP (reopened_live floor))) (\<lambda>reopened.
            if reopened then bindP (set_lane True) (\<lambda>_. pureP Working)
            else
              bindP (set_lane False) (\<lambda>_.
              bindP (decision_nonce w head') (\<lambda>chain_nonce.
              bindP (scan_marks w head' (actual incident = ABSENT)) (\<lambda>sc.
                case next_nonce chain_nonce floor sc of
                  None \<Rightarrow>
                    bindP (on_journal (execP (\<lambda>j. snd (unpark_lanes j)))) (\<lambda>_.
                      finish_recovery w head' incident ack sc now)
                | Some n \<Rightarrow> bindP (take_back w head' chain_nonce sc now n) (\<lambda>_. pureP Working)))))))))"

definition recover_finality :: "world \<Rightarrow> chain_head \<Rightarrow> mismatch \<Rightarrow> acknowledgement option \<Rightarrow> recovery tick" where
  "recover_finality w head' incident ack =
     bindP (on_journal (readRP (read_json decode_stats STATS_KEY))) (\<lambda>saved.
     bindP (execP (\<lambda>s. s\<lparr>wk_stats := (case saved of Some x \<Rightarrow> x | None \<Rightarrow> no_stats)\<rparr>)) (\<lambda>_.
     bindP (tryP (recovery_step w head' incident ack)) (\<lambda>step.
     bindP (case step of
              Inr (Cleared _) \<Rightarrow> pureP ()
            | _ \<Rightarrow> bindP (readP wk_stats) (\<lambda>st. on_journal (execP (set_meta STATS_KEY (Json (encode_stats st))))))
       (\<lambda>_. liftP step))))"

end
