(* ===== verification/Machine.thy ===== *)
theory Machine
  imports Recovery
begin

text \<open>
  The keeper as a machine: each step is one commit of the journal, one transaction handed to an
  endpoint, or a change of what the worker holds in memory, with the conditions under which the code
  takes it. A tick is a run of it (\<open>Ticks\<close>), interrupted anywhere by an error, a timeout or a
  restart. Here are the steps and how each moves the lane and the marks; the invariants are in
  \<open>Soundness\<close>.
\<close>

section \<open>What the steps are conditioned on\<close>

definition nonces_where :: "(attempt \<Rightarrow> bool) \<Rightarrow> attempt list \<Rightarrow> int set" where
  "nonces_where Q ts = nonce ` set (filter Q ts)"

definition lane_nonces :: "journal \<Rightarrow> int set" where
  "lane_nonces j = nonces_where active (txs j)"

definition parked_nonces :: "journal \<Rightarrow> int set" where
  "parked_nonces j = nonces_where is_parked (txs j)"

definition live :: "attempt \<Rightarrow> bool" where
  "live t = (active t \<or> is_parked t)"

text \<open>The bytes the journal holds: an attempt's, a sweep's or a fill's.\<close>

definition journaled :: "string \<Rightarrow> journal \<Rightarrow> bool" where
  "journaled b j = ((\<exists>t \<in> set (txs j). raw t = b)
     \<or> (\<exists>a. sweep_attempt_of j = Inr (Some a) \<and> b \<in> sg_raw ` set (sa_txs a))
     \<or> (\<exists>f. fill_of j = Inr (Some f) \<and> b \<in> sg_raw ` set (fi_txs f)))"

text \<open>The receipts and nonces the marks stand for.\<close>

definition mark_rows :: "journal \<Rightarrow> mark_row list" where
  "mark_rows j = (case soft_marks j of None \<Rightarrow> [] | Some rows \<Rightarrow> rows)"

definition marked :: "journal \<Rightarrow> (string \<times> string) set" where
  "marked j = (\<lambda>r. (mr_kind r, mr_ref r)) ` set (mark_rows j) \<inter> {''receipt'', ''nonce''} \<times> UNIV"

definition GUARDED :: "string set" where
  "GUARDED = {NONCE_FLOOR_KEY, SWEEP_ATTEMPT_KEY, FILL_KEY, MISMATCH_KEY}"

text \<open>A commit that touches neither the lane, the sweep, the fill nor the record of a mismatch, and
  marks no receipt or nonce: discovery, preparation, health, the queue, the audit.\<close>

definition calm :: "journal \<Rightarrow> journal \<Rightarrow> bool" where
  "calm j j' = (txs j' = txs j \<and> (\<forall>k \<in> GUARDED. meta j' k = meta j k) \<and> marked j' \<subseteq> marked j)"

text \<open>What the chain said of a nonce: a settled receipt of one of its transactions (\<open>hn\<close> is the nonce a
  transaction hash commits to), or a wallet nonce past it.\<close>

definition evidence_for :: "(string \<Rightarrow> nat) \<Rightarrow> world \<Rightarrow> int \<Rightarrow> bool" where
  "evidence_for hn w n = (\<exists>m. (\<exists>h c. int (hn h) = n \<and> w_settled w m h c = Inr True)
     \<or> (\<exists>tag k. w_nonce w m tag = Inr k \<and> n < int k))"

text \<open>The mark that goes with a settlement of the nonce, and with a signature.\<close>

definition settles_with :: "(string \<Rightarrow> nat) \<Rightarrow> int \<Rightarrow> mark option \<Rightarrow> bool" where
  "settles_with hn n m = (case m of None \<Rightarrow> True
     | Some x \<Rightarrow> (mk_kind x = Receipt \<and> int (hn (mk_ref x)) = n) \<or> (mk_kind x = Nonce \<and> mk_ref x = show_int n))"

definition signs_with :: "mark option \<Rightarrow> bool" where
  "signs_with m = (case m of None \<Rightarrow> True | Some x \<Rightarrow> mk_kind x = Sign)"

text \<open>The recovery may take a nonce: a mismatch is on record, no nonce is being filled and none that was
  reopened is live.\<close>

definition recovery_idle :: "journal \<Rightarrow> bool" where
  "recovery_idle j = (meta j MISMATCH_KEY \<noteq> None \<and> meta j FILL_KEY = None
     \<and> (\<exists>f. nonce_floor j = Inr f \<and> \<not> reopened_live f j))"

section \<open>The steps\<close>

text \<open>The steps of the lane, the sweep and the recovery.\<close>

inductive lane_step :: "(string \<Rightarrow> nat) \<Rightarrow> world \<Rightarrow> worker \<Rightarrow> worker \<Rightarrow> bool" for hn w where
  asks: "lane_step hn w s (s\<lparr>wk_moment := m, wk_upgraded := u\<rparr>)"
| remembers: "lane_step hn w s (s\<lparr>wk_recovery_lane := b, wk_stats := x\<rparr>)"
| books: "calm (wk_journal s) j \<Longrightarrow> lane_step hn w s (s\<lparr>wk_journal := j\<rparr>)"
| broadcasts: "lane_step hn w s (s\<lparr>wk_journal := broadcast_attempt i t (wk_journal s)\<rparr>)"
| submits: "a \<in> set (txs (wk_journal s)) \<Longrightarrow> active a \<Longrightarrow>
    lane_step hn w s (s\<lparr>wk_journal := set_tx_state (tx_id a) ''submitted'' (wk_journal s)\<rparr>)"
| signs: "\<not> sending_halted w s \<Longrightarrow> plan_over_budget w p = None \<Longrightarrow> w_sign w p to 0 = Inr hb \<Longrightarrow>
    attempt_of job p t hb = Inr a \<Longrightarrow> signs_with m \<Longrightarrow>
    nonce a \<in> lane_nonces (wk_journal s)
      \<or> (meta (wk_journal s) MISMATCH_KEY = None \<and> floor_value (wk_journal s) \<le> nonce a) \<Longrightarrow>
    signed_marked a m (wk_journal s) = Inr j \<or> signed_batch_marked k a ms m (wk_journal s) = Inr j \<Longrightarrow>
    lane_step hn w s (s\<lparr>wk_journal := j\<rparr>)"
| settles: "n \<in> lane_nonces (wk_journal s) \<Longrightarrow> evidence_for hn w n \<Longrightarrow> settles_with hn n m \<Longrightarrow>
    resolve_nonce_job_marked n job st m (wk_journal s) = Inr j
      \<or> resolve_nonce_epoch_marked n job st m (wk_journal s) = Inr j
      \<or> resolve_nonce_batch_marked n job states m (wk_journal s) = Inr j \<Longrightarrow>
    lane_step hn w s (s\<lparr>wk_journal := j\<rparr>)"
| sends: "\<not> sending_halted w s \<Longrightarrow> journaled b (wk_journal s) \<Longrightarrow>
    lane_step hn w s (s\<lparr>wk_sent := wk_sent s @ [(b, wk_journal s)]\<rparr>)"
| sweep_starts: "\<not> sending_halted w s \<Longrightarrow> meta (wk_journal s) MISMATCH_KEY = None \<Longrightarrow> signs_with m \<Longrightarrow>
    plan_over_budget w p = None \<Longrightarrow> sa_txs a = [tx] \<Longrightarrow> w_sign w p to v = Inr (sg_hash tx, sg_raw tx) \<Longrightarrow>
    pl_nonce p = sa_nonce a \<Longrightarrow> int (sa_nonce a) < i64_max \<Longrightarrow>
    start_marked a m (wk_journal s) = Inr j \<Longrightarrow> lane_step hn w s (s\<lparr>wk_journal := j\<rparr>)"
| sweep_cancels: "\<not> sending_halted w s \<Longrightarrow> sweep_attempt_of (wk_journal s) = Inr (Some a) \<Longrightarrow> signs_with m \<Longrightarrow>
    plan_over_budget w p = None \<Longrightarrow> w_sign w p To_Wallet 0 = Inr (sg_hash tx, sg_raw tx) \<Longrightarrow>
    pl_nonce p = sa_nonce a \<Longrightarrow> length (sa_txs a) < MAX_ATTEMPTS \<Longrightarrow>
    save_marked (a\<lparr>sa_txs := sa_txs a @ [tx]\<rparr>) m (wk_journal s) = Inr j \<Longrightarrow>
    lane_step hn w s (s\<lparr>wk_journal := j\<rparr>)"
| sweep_broadcasts: "sweep_attempt_of (wk_journal s) = Inr (Some a) \<Longrightarrow> sa_txs a \<noteq> [] \<Longrightarrow>
    save (a\<lparr>sa_txs := butlast (sa_txs a) @ [(last (sa_txs a))\<lparr>sg_broadcast := t\<rparr>]\<rparr>) (wk_journal s) = Inr j \<Longrightarrow>
    lane_step hn w s (s\<lparr>wk_journal := j\<rparr>)"
| sweep_ends: "sweep_attempt_of (wk_journal s) = Inr (Some a) \<Longrightarrow> evidence_for hn w (int (sa_nonce a)) \<Longrightarrow>
    settles_with hn (int (sa_nonce a)) m \<Longrightarrow> finish_marked (sa_nonce a) c m (wk_journal s) = Inr j \<Longrightarrow>
    lane_step hn w s (s\<lparr>wk_journal := j\<rparr>)"
| consumes: "int n < floor_value (wk_journal s) \<Longrightarrow> settles_with hn (int n) m \<Longrightarrow>
    replace_marks ms m (wk_journal s) = Inr j \<Longrightarrow> lane_step hn w s (s\<lparr>wk_journal := j\<rparr>)"
| reopens: "recovery_idle (wk_journal s) \<Longrightarrow> int n < floor_value (wk_journal s) \<Longrightarrow>
    reopen_nonce n t now (wk_journal s) = Inr (Reopened_Lane, j) \<Longrightarrow>
    lane_step hn w s (s\<lparr>wk_journal := j\<rparr>)"
| fills: "recovery_idle (wk_journal s) \<Longrightarrow> int n < floor_value (wk_journal s) \<Longrightarrow>
    f = \<lparr>fi_nonce = n, fi_stale = b,
         fi_known = map tx_hash (sort_key tx_id (filter (\<lambda>t. nonce t = int n) (txs (wk_journal s)))), fi_txs = []\<rparr> \<Longrightarrow>
    lane_step hn w s (s\<lparr>wk_journal := begin_fill FILL_KEY (Json (encode_fill f)) (wk_journal s)\<rparr>)"
| fill_signs: "\<not> sending_halted w s \<Longrightarrow> fill_of (wk_journal s) = Inr (Some f) \<Longrightarrow> signs_with m \<Longrightarrow>
    plan_over_budget w p = None \<Longrightarrow> w_sign w p To_Wallet 0 = Inr (sg_hash tx, sg_raw tx) \<Longrightarrow>
    pl_nonce p = fi_nonce f \<Longrightarrow> length (fi_txs f) < FILL_ATTEMPTS \<Longrightarrow>
    set_meta_marked FILL_KEY (Json (encode_fill (f\<lparr>fi_txs := fi_txs f @ [tx]\<rparr>))) m (wk_journal s) = Inr j \<Longrightarrow>
    lane_step hn w s (s\<lparr>wk_journal := j\<rparr>)"
| fill_broadcasts: "fill_of (wk_journal s) = Inr (Some f) \<Longrightarrow> fi_txs f \<noteq> [] \<Longrightarrow>
    f' = f\<lparr>fi_txs := butlast (fi_txs f) @ [(last (fi_txs f))\<lparr>sg_broadcast := t\<rparr>]\<rparr> \<Longrightarrow>
    lane_step hn w s (s\<lparr>wk_journal := set_meta FILL_KEY (Json (encode_fill f')) (wk_journal s)\<rparr>)"
| fill_ends: "fill_of (wk_journal s) = Inr (Some f) \<Longrightarrow> evidence_for hn w (int (fi_nonce f)) \<Longrightarrow>
    settles_with hn (int (fi_nonce f)) m \<Longrightarrow>
    settle_fill FILL_KEY (fi_nonce f) hs m (wk_journal s) = Inr j \<Longrightarrow> lane_step hn w s (s\<lparr>wk_journal := j\<rparr>)"
| unparks: "recovery_idle (wk_journal s) \<Longrightarrow>
    lane_step hn w s (s\<lparr>wk_journal := snd (unpark_lanes (wk_journal s))\<rparr>)"
| clears: "recovery_idle (wk_journal s) \<Longrightarrow> clear_finality_incident summary (wk_journal s) = Inr j \<Longrightarrow>
    lane_step hn w s (s\<lparr>wk_journal := j\<rparr>)"

text \<open>Around them the gate decides what may be sent, and the endpoints confirm a mismatch.\<close>

inductive keeper_step :: "(string \<Rightarrow> nat) \<Rightarrow> world \<Rightarrow> worker \<Rightarrow> worker \<Rightarrow> bool" for hn w where
  lane: "lane_step hn w s s' \<Longrightarrow> keeper_step hn w s s'"
| gates: "keeper_step hn w s (s\<lparr>wk_suspicion := c, wk_finality_open := b, wk_authorized := d\<rparr>)"
| records: "keeper_step hn w s (s\<lparr>wk_journal := snd (confirm_finality_mismatch m CONFIRMED_KEY ev (wk_journal s))\<rparr>)"

section \<open>The lane as sets of nonces\<close>

lemma nonces_where_map:
  assumes "\<And>t. nonce (f t) = nonce t"
  shows "nonces_where Q (map f ts) = nonces_where (\<lambda>t. Q (f t)) ts"
proof -
  have "filter Q (map f ts) = map f (filter (\<lambda>t. Q (f t)) ts)" by (simp add: filter_map o_def)
  then show ?thesis using assms by (simp add: nonces_where_def image_image)
qed

lemma nonces_where_upd:
  assumes "\<And>t. nonce (f t) = nonce t"
  shows "nonces_where Q (upd_where P f ts) = nonces_where (\<lambda>t. if P t then Q (f t) else Q t) ts"
proof -
  have e: "(\<lambda>t. Q (if P t then f t else t)) = (\<lambda>t. if P t then Q (f t) else Q t)" by auto
  show ?thesis
    unfolding upd_where_def by (subst nonces_where_map) (simp_all add: assms e)
qed

lemma nonces_where_cong:
  "(\<And>t. t \<in> set ts \<Longrightarrow> Q t = R t) \<Longrightarrow> nonces_where Q ts = nonces_where R ts"
  unfolding nonces_where_def by (metis filter_cong)

lemma nonces_where_disj: "nonces_where (\<lambda>t. Q t \<or> R t) ts = nonces_where Q ts \<union> nonces_where R ts"
  by (auto simp: nonces_where_def)

lemma nonces_where_other: "nonces_where (\<lambda>t. Q t \<and> nonce t \<noteq> n) ts = nonces_where Q ts - {n}"
  by (auto simp: nonces_where_def)

lemma nonces_where_mono: "(\<And>t. Q t \<Longrightarrow> R t) \<Longrightarrow> nonces_where Q ts \<subseteq> nonces_where R ts"
  by (auto simp: nonces_where_def)

lemma nonces_where_append: "nonces_where Q (ts @ us) = nonces_where Q ts \<union> nonces_where Q us"
  by (auto simp: nonces_where_def)

lemma nonces_where_False [simp]: "nonces_where (\<lambda>_. False) ts = {}"
  by (simp add: nonces_where_def)

lemma lane_nonces_owners: "lane_nonces j = fst ` owners j"
  by (simp add: lane_nonces_def nonces_where_def owners_def owners_of_def image_image)

lemma lane_nonces_cong: "txs j' = txs j \<Longrightarrow> lane_nonces j' = lane_nonces j"
  "txs j' = txs j \<Longrightarrow> parked_nonces j' = parked_nonces j"
  by (simp_all add: lane_nonces_def parked_nonces_def)

lemma parked_active [simp]: "active t \<Longrightarrow> \<not> is_parked t"
  by (auto simp: is_parked_def active_def)

lemma state_flags [simp]:
  "active (t\<lparr>tx_state := st\<rparr>) \<longleftrightarrow> st = ''signed'' \<or> st = ''submitted''"
  "is_parked (t\<lparr>tx_state := st\<rparr>) \<longleftrightarrow> st = ''parked_signed'' \<or> st = ''parked_submitted''"
  "is_parked (t\<lparr>broadcast := b\<rparr>) = is_parked t"
  by (simp_all add: is_parked_def active_def)

text \<open>How the commits move the two sets.\<close>

lemma enter_nonces:
  assumes "\<exists>j1. claim_lane a j = Inr j1 \<and> lane_view j' = lane_view j1"
  shows "lane_nonces j' = {nonce a}" "parked_nonces j' = parked_nonces j" "lane_nonces j \<subseteq> {nonce a}"
    "floor_value j' = floor_value j" "meta j SWEEP_ATTEMPT_KEY = None" "meta j' SWEEP_ATTEMPT_KEY = None"
    "txs j' = txs j @ [a\<lparr>tx_id := next_rowid (txs j), tx_state := ''signed'', broadcast := 0\<rparr>]"
proof -
  obtain j1 where c: "claim_lane a j = Inr j1" and v: "lane_view j' = lane_view j1" using assms by blast
  note v' = lane_viewD [OF v]
  show t: "txs j' = txs j @ [a\<lparr>tx_id := next_rowid (txs j), tx_state := ''signed'', broadcast := 0\<rparr>]"
    and "meta j SWEEP_ATTEMPT_KEY = None" "meta j' SWEEP_ATTEMPT_KEY = None" "floor_value j' = floor_value j"
    using c v' by (auto simp: claim_lane_Inr_iff floor_value_def)
  show "lane_nonces j' = {nonce a}" "lane_nonces j \<subseteq> {nonce a}"
    using owners_enter [OF assms] by (auto simp: lane_nonces_owners)
  show "parked_nonces j' = parked_nonces j"
    by (simp add: parked_nonces_def t nonces_where_append) (simp add: nonces_where_def is_parked_def)
qed

lemma settle_nonces:
  assumes "n + 1 \<le> i64_max \<and> lane_view j' = lane_view (raise_floor (n + 1) (resolve_txs n j))"
  shows "lane_nonces j' = lane_nonces j - {n}" "parked_nonces j' = parked_nonces j - {n}"
    "meta j' SWEEP_ATTEMPT_KEY = meta j SWEEP_ATTEMPT_KEY"
    "txs j' = upd_where (\<lambda>t. nonce t = n) (\<lambda>t. t\<lparr>tx_state := ''resolved''\<rparr>) (txs j)"
    "floor_value j' = floor_value (raise_floor (n + 1) j)"
proof -
  have v: "lane_view j' = lane_view (raise_floor (n + 1) (resolve_txs n j))" using assms by simp
  show t: "txs j' = upd_where (\<lambda>t. nonce t = n) (\<lambda>t. t\<lparr>tx_state := ''resolved''\<rparr>) (txs j)"
    and "meta j' SWEEP_ATTEMPT_KEY = meta j SWEEP_ATTEMPT_KEY"
    using lane_viewD [OF v] by (simp_all add: resolve_txs_def)
  show "floor_value j' = floor_value (raise_floor (n + 1) j)"
    using lane_viewD(5) [OF v] by (simp add: floor_value_def meta_raise_floor)
  have e: "(if nonce t = n then Q (t\<lparr>tx_state := ''resolved''\<rparr>) else Q t) = (Q t \<and> nonce t \<noteq> n)"
    if "\<not> Q (t\<lparr>tx_state := ''resolved''\<rparr>)" for Q and t :: attempt using that by auto
  show "lane_nonces j' = lane_nonces j - {n}" "parked_nonces j' = parked_nonces j - {n}"
    by (simp_all add: lane_nonces_def parked_nonces_def t nonces_where_upd e nonces_where_other)
qed

lemma state_nonces:
  assumes "distinct (map tx_id (txs j))" and "a \<in> set (txs j)" and "active a"
  shows "lane_nonces (set_tx_state (tx_id a) ''submitted'' j) = lane_nonces j"
    "parked_nonces (set_tx_state (tx_id a) ''submitted'' j) = parked_nonces j"
proof -
  have id: "t = a" if "t \<in> set (txs j)" "tx_id t = tx_id a" for t
    using that assms(1,2) by (metis distinct_map inj_on_def)
  have pa: "active t \<and> \<not> is_parked t" if "t \<in> set (txs j)" "tx_id t = tx_id a" for t
    using id [OF that] assms(3) by simp
  show "lane_nonces (set_tx_state (tx_id a) ''submitted'' j) = lane_nonces j"
    "parked_nonces (set_tx_state (tx_id a) ''submitted'' j) = parked_nonces j"
    unfolding lane_nonces_def parked_nonces_def set_tx_state_def journal.simps
    using pa assms(3) by (auto simp: nonces_where_upd intro!: nonces_where_cong)
qed

lemma park_nonces:
  assumes "txs j' = park P (txs j)"
  shows "lane_nonces j' = nonces_where (\<lambda>t. active t \<and> \<not> P t) (txs j)"
    "parked_nonces j' = parked_nonces j \<union> nonces_where (\<lambda>t. active t \<and> P t) (txs j)"
proof -
  have "is_parked (t\<lparr>tx_state := parked_state (tx_state t)\<rparr>)"
    "\<not> active (t\<lparr>tx_state := parked_state (tx_state t)\<rparr>)" if "active t" for t
    using park_parked [OF that] parked_active by blast+
  note p = this
  show "lane_nonces j' = nonces_where (\<lambda>t. active t \<and> \<not> P t) (txs j)"
    unfolding lane_nonces_def assms park_def
    by (subst nonces_where_upd) (use p in \<open>auto intro!: nonces_where_cong\<close>)
  show "parked_nonces j' = parked_nonces j \<union> nonces_where (\<lambda>t. active t \<and> P t) (txs j)"
    unfolding parked_nonces_def assms park_def nonces_where_disj [symmetric]
    by (subst nonces_where_upd) (use p in \<open>auto intro!: nonces_where_cong\<close>)
qed

lemma reopen_nonces:
  assumes "txs j' = map (reopened_attempt n now) (txs j)"
  shows "lane_nonces j' \<subseteq> {n}" "parked_nonces j' \<subseteq> (parked_nonces j \<union> lane_nonces j) - {n}"
proof -
  show "lane_nonces j' \<subseteq> {n}"
    unfolding lane_nonces_def assms
    by (subst nonces_where_map) (auto simp: reopened_attempt_active nonces_where_def)
  have "(is_parked t \<or> active t) \<and> nonce t \<noteq> n" if "is_parked (reopened_attempt n now t)" for t
    using that by (auto simp: reopened_attempt_def is_parked_def split: if_splits)
  then have "nonces_where (\<lambda>t. is_parked (reopened_attempt n now t)) (txs j)
      \<subseteq> nonces_where (\<lambda>t. (is_parked t \<or> active t) \<and> nonce t \<noteq> n) (txs j)"
    by (rule nonces_where_mono)
  then show "parked_nonces j' \<subseteq> (parked_nonces j \<union> lane_nonces j) - {n}"
    by (simp only: parked_nonces_def lane_nonces_def assms nonces_where_map reopened_attempt_simps
        nonces_where_other nonces_where_disj)
qed

lemma unpark_nonces:
  assumes "txs j' = unpark (txs j)"
  shows "lane_nonces j' = lane_nonces j \<union> parked_nonces j" "parked_nonces j' = {}"
proof -
  have p: "active (t\<lparr>tx_state := drop 7 (tx_state t)\<rparr>)" "\<not> is_parked (t\<lparr>tx_state := drop 7 (tx_state t)\<rparr>)"
    if "is_parked t" for t using that by (auto simp: is_parked_def)
  show "lane_nonces j' = lane_nonces j \<union> parked_nonces j"
    unfolding lane_nonces_def parked_nonces_def assms unpark_def nonces_where_disj [symmetric]
    by (subst nonces_where_upd) (use p in \<open>auto intro!: nonces_where_cong\<close>)
  have "nonces_where (\<lambda>t. if is_parked t then is_parked (t\<lparr>tx_state := drop 7 (tx_state t)\<rparr>) else is_parked t) (txs j)
      = nonces_where (\<lambda>_. False) (txs j)"
    by (rule nonces_where_cong) (use p in auto)
  then show "parked_nonces j' = {}"
    unfolding parked_nonces_def assms unpark_def by (subst nonces_where_upd) simp_all
qed

section \<open>What the commits mark\<close>

definition named :: "mark option \<Rightarrow> (string \<times> string) set" where
  "named m = (case m of None \<Rightarrow> {} | Some x \<Rightarrow>
     if mk_kind x = Receipt \<or> mk_kind x = Nonce then {(kind_name (mk_kind x), mk_ref x)} else {})"

lemma signs_with_named: "signs_with m \<Longrightarrow> named m = {}"
  by (auto simp: signs_with_def named_def split: option.splits)

lemma marked_cong: "soft_marks j' = soft_marks j \<Longrightarrow> marked j' = marked j"
  by (simp add: marked_def mark_rows_def)

lemma marked_write: "write_mark_opt m j = Inr j' \<Longrightarrow> marked j' \<subseteq> marked j \<union> named m"
proof (cases m)
  case (Some x)
  assume "write_mark_opt m j = Inr j'"
  then have "write_mark x j = Inr j'" using Some by (simp add: write_mark_opt_def)
  then obtain rows where rows: "soft_marks j = Some rows" "soft_marks j' = Some rows \<or> soft_marks j' = Some (rows @ [Marks.row_of x])"
    by (auto simp: write_mark_Inr_iff split: option.splits)
  have "marked j' \<subseteq> marked j \<union> named (Some x)" if "set (mark_rows j') \<subseteq> insert (Marks.row_of x) (set (mark_rows j))"
  proof -
    let ?f = "\<lambda>r. (mr_kind r, mr_ref r)" and ?K = "{''receipt'', ''nonce''} \<times> (UNIV :: string set)"
    have "?f ` set (mark_rows j') \<inter> ?K \<subseteq> (?f ` set (mark_rows j) \<inter> ?K) \<union> ({?f (Marks.row_of x)} \<inter> ?K)"
      using image_mono [OF that, of ?f] unfolding image_insert by blast
    moreover have "{?f (Marks.row_of x)} \<inter> ?K = named (Some x)"
      by (cases "mk_kind x") (auto simp: Marks.row_of_def named_def)
    ultimately show ?thesis unfolding marked_def by (simp only:)
  qed
  moreover have "set (mark_rows j') \<subseteq> insert (Marks.row_of x) (set (mark_rows j))"
    using rows by (auto simp: mark_rows_def)
  ultimately show ?thesis unfolding Some by blast
qed (simp add: write_mark_opt_def)

lemma marked_delete: "delete_marks P j = Inr j' \<Longrightarrow> marked j' \<subseteq> marked j"
  using delete_marks_rows [of P j j'] by (auto simp: marked_def mark_rows_def del_where_def)

lemma marked_foldR:
  "foldR f xs j = Inr j' \<Longrightarrow> (\<And>x s s'. f x s = Inr s' \<Longrightarrow> marked s' \<subseteq> marked s) \<Longrightarrow> marked j' \<subseteq> marked j"
proof (induction xs arbitrary: j)
  case (Cons x xs)
  from Cons.prems(1) obtain s where s: "f x j = Inr s" "foldR f xs s = Inr j'" by (auto simp: bindR_Inr_iff)
  have "marked j' \<subseteq> marked s" by (rule Cons.IH [OF s(2)]) (rule Cons.prems(2))
  then show ?case using Cons.prems(2) [OF s(1)] by blast
qed simp

lemma marked_delete_nonce:
  assumes "delete_nonce_marks n hs j = Inr j'"
  shows "marked j' \<subseteq> marked j"
proof -
  obtain j1 where f: "foldR (\<lambda>h. delete_marks (\<lambda>r. mr_kind r = ''receipt'' \<and> mr_ref r = h)) hs j = Inr j1"
    and d: "delete_marks (\<lambda>r. mr_kind r = ''nonce'' \<and> mr_ref r = show_int n) j1 = Inr j'"
    using assms unfolding delete_nonce_marks_def bindR_Inr_iff by blast
  have "marked j1 \<subseteq> marked j" by (rule marked_foldR [OF f]) (rule marked_delete)
  then show ?thesis using marked_delete [OF d] by blast
qed

lemma marked_replace:
  assumes "replace_marks ms m j = Inr j'"
  shows "marked j' \<subseteq> marked j \<union> named m"
proof -
  obtain j1 where f: "foldR (\<lambda>m j. bindR (i64_try TryFromInt (mk_number m)) (\<lambda>n.
      delete_marks (\<lambda>r. mark_key r = (n, kind_name (mk_kind m), mk_ref m)) j)) ms j = Inr j1"
    and w: "write_mark_opt m j1 = Inr j'"
    using assms unfolding replace_marks_def bindR_Inr_iff by blast
  have "marked j1 \<subseteq> marked j"
    by (rule marked_foldR [OF f]) (auto simp: bindR_Inr_iff dest: marked_delete)
  then show ?thesis using marked_write [OF w] by blast
qed

lemma marked_signed:
  assumes "signed_marked a m j = Inr j' \<or> signed_batch_marked k a ms m j = Inr j'"
  shows "marked j' \<subseteq> marked j \<union> named m"
proof -
  obtain j1 j2 where j1: "claim_lane a j = Inr j1" and j2: "write_mark_opt m j1 = Inr j2"
    and e: "soft_marks j' = soft_marks j2"
  proof (cases "signed_marked a m j = Inr j'")
    case True
    then obtain j1 j2 where j: "claim_lane a j = Inr j1" "write_mark_opt m j1 = Inr j2"
      and rest: "(if starts_with ''epoch'' (tx_kind a) then
            set_epoch_state (tx_job a) ''signed'' EpochWorkMissing j2
          else if is_batch_job (tx_job a) then
            (let ms = members_in (tx_job a) j2 in
             ensure (ms \<noteq> []) BatchMembersMissing (mark_members_signed ms j2))
          else
            ensure (count_where (\<lambda>r. job_id r = tx_job a) (jobs j2) = 1) GameWorkMissing
              (Inr (update_jobs (\<lambda>r. job_id r = tx_job a) (\<lambda>r. r\<lparr>job_state := ''signed''\<rparr>) j2))) = Inr j'"
      unfolding signed_marked_def ensure_Inr_iff bindR_Inr_iff by blast
    from rest have "soft_marks j' = soft_marks j2"
      by (auto simp: ensure_Inr_iff Let_def split: if_splits
          dest: set_epoch_state_frame(5) mark_members_signed_bookkeeping [THEN bookkeepingD(3)])
    then show thesis using that j by blast
  next
    case False
    then have b: "signed_batch_marked k a ms m j = Inr j'" using assms by simp
    then show thesis
    proof (rule signed_batch_parts)
      fix j1 j2 j3
      assume j: "claim_lane a j = Inr j1" "write_mark_opt m j1 = Inr j2"
        and j3: "(if members_in (tx_job a) j2 = [] then foldR (insert_member (tx_job a)) (enumerate 0 ms) j2
          else ensure (members_in (tx_job a) j2 = ms) BatchMembersChanged (Inr j2)) = Inr j3"
        and j': "mark_members_signed ms j3 = Inr j'"
      have "soft_marks j3 = soft_marks j2"
        using j3 insert_members_frame by (auto simp: ensure_Inr_iff split: if_splits)
      then show thesis
        using that [OF j] bookkeepingD(3) [OF mark_members_signed_bookkeeping [OF j']] by simp
    qed
  qed
  have "marked j1 = marked j" using j1 by (intro marked_cong) (simp add: claim_lane_Inr_iff)
  then show ?thesis using marked_write [OF j2] marked_cong [OF e] by simp
qed

lemma marked_resolved:
  assumes "resolve_nonce_job_marked n job st m j = Inr j' \<or> resolve_nonce_epoch_marked n job st m j = Inr j'
    \<or> resolve_nonce_batch_marked n job states m j = Inr j'"
  shows "marked j' \<subseteq> marked j \<union> named m"
proof -
  have "\<exists>j1. write_mark_opt m j = Inr j1 \<and> soft_marks j' = soft_marks j1"
    using assms
  proof (elim disjE)
    assume "resolve_nonce_job_marked n job st m j = Inr j'"
    then obtain j1 where "write_mark_opt m j = Inr j1"
      "j' = snd (set_resolved_state job st (raise_floor (n + 1) (resolve_txs n j1)))"
      by (auto simp: resolve_nonce_job_marked_def result_simps case_prod_beta split: if_splits)
    then show ?thesis
      using bookkeepingD(3) [OF set_resolved_state_bookkeeping [of "raise_floor (n + 1) (resolve_txs n j1)" job st]]
      by auto
  next
    assume "resolve_nonce_epoch_marked n job st m j = Inr j'"
    then obtain j1 where "write_mark_opt m j = Inr j1"
      "set_epoch_state job st EpochReceiptMissing (raise_floor (n + 1) (resolve_txs n j1)) = Inr j'"
      by (auto simp: resolve_nonce_epoch_marked_def result_simps split: if_splits)
    then show ?thesis using set_epoch_state_frame(5) by fastforce
  next
    assume "resolve_nonce_batch_marked n job states m j = Inr j'"
    then show ?thesis
    proof (rule resolve_batch_parts)
      fix j1 assume w: "write_mark_opt m j = Inr j1"
        and f: "foldR settle_member states (raise_floor (n + 1) (resolve_txs n j1)) = Inr j'"
      show ?thesis using w bookkeepingD(3) [OF settle_members_bookkeeping [OF f]] by auto
    qed
  qed
  then show ?thesis using marked_write marked_cong by blast
qed

lemma resolved_lane:
  assumes "resolve_nonce_job_marked n job st m j = Inr j' \<or> resolve_nonce_epoch_marked n job st m j = Inr j'
    \<or> resolve_nonce_batch_marked n job states m j = Inr j'"
  shows "n + 1 \<le> i64_max \<and> lane_view j' = lane_view (raise_floor (n + 1) (resolve_txs n j))"
  using assms resolve_nonce_job_lane resolve_nonce_epoch_lane resolve_nonce_batch_lane by blast

lemma signed_lane:
  assumes "signed_marked a m j = Inr j' \<or> signed_batch_marked k a ms m j = Inr j'"
  shows "\<exists>j1. claim_lane a j = Inr j1 \<and> lane_view j' = lane_view j1"
  using assms signed_marked_lane signed_batch_lane by blast

lemma replace_marks_rest:
  assumes "replace_marks ms m j = Inr j'"
  shows "txs j' = txs j \<and> meta j' = meta j"
proof -
  obtain j1 where f: "foldR (\<lambda>m j. bindR (i64_try TryFromInt (mk_number m)) (\<lambda>n.
      delete_marks (\<lambda>r. mark_key r = (n, kind_name (mk_kind m), mk_ref m)) j)) ms j = Inr j1"
    and w: "write_mark_opt m j1 = Inr j'"
    using assms unfolding replace_marks_def bindR_Inr_iff by blast
  have "txs j1 = txs j \<and> meta j1 = meta j"
    by (rule foldR_invariant [OF f]) (auto simp: bindR_Inr_iff dest: delete_marks_frame(1,3))
  then show ?thesis using write_mark_opt_frame [OF w] by simp
qed

lemma reopen_rows_guards:
  assumes "reopen_rows n now wall rows j = Inr j'"
  shows "meta j' MISMATCH_KEY = meta j MISMATCH_KEY \<and> meta j' FILL_KEY = meta j FILL_KEY \<and> marked j' \<subseteq> marked j"
proof -
  let ?j1 = "j\<lparr>txs := park (\<lambda>t. nonce t \<noteq> n) (txs j)\<rparr>"
  from assms obtain j2 j4 where j2: "delete_nonce_marks n (map tx_hash rows) ?j1 = Inr j2"
    and j4: "foldR served_again
           (sort (remdups (map (\<lambda>t. (tx_job t, starts_with ''epoch'' (tx_kind t))) rows)))
           (j2\<lparr>txs := upd_where (\<lambda>t. nonce t = n)
              (\<lambda>t. t\<lparr>tx_state := ''submitted'', created := now, broadcast := 0\<rparr>) (txs j2)\<rparr>) = Inr j4"
    and j': "j' = meta_put (nonce_started_key n) (Text (show_nat wall)) j4"
    unfolding reopen_rows_def Let_def bindR_Inr_iff sum.inject by blast
  let ?j3 = "j2\<lparr>txs := upd_where (\<lambda>t. nonce t = n)
              (\<lambda>t. t\<lparr>tx_state := ''submitted'', created := now, broadcast := 0\<rparr>) (txs j2)\<rparr>"
  let ?I = "\<lambda>s. lane_view s = lane_view ?j3 \<and> soft_marks s = soft_marks ?j3"
  have I: "?I j4" by (rule foldR_invariant [where P = ?I, OF j4]) (simp_all add: served_again_lane)
  have k: "nonce_started_key n \<noteq> MISMATCH_KEY" "nonce_started_key n \<noteq> FILL_KEY"
    "MISMATCH_KEY \<noteq> ''audit:dropped''" "FILL_KEY \<noteq> ''audit:dropped''"
    by (simp_all add: nonce_started_key_def MISMATCH_KEY_def FILL_KEY_def)
  have "lane_view j4 = lane_view ?j3" using I by simp
  then have "meta j4 MISMATCH_KEY = meta ?j3 MISMATCH_KEY" "meta j4 FILL_KEY = meta ?j3 FILL_KEY"
    using lane_viewD(7,8) unfolding MISMATCH_KEY_def FILL_KEY_def by blast+
  moreover have "meta j2 = meta j" using delete_nonce_marks_frame [OF j2] by simp
  moreover have "marked j' = marked j2" by (rule marked_cong) (use I in \<open>simp add: j'\<close>)
  moreover have "marked ?j1 = marked j" by (rule marked_cong) simp
  ultimately show ?thesis using marked_delete_nonce [OF j2] k by (simp add: j')
qed

end
