(* ===== verification/Soundness.thy ===== *)
theory Soundness
  imports Machine
begin

text \<open>
  What holds in every state of the machine (\<open>Machine\<close>), by induction on its steps. The invariant says how the
  nonces of the lane, the nonces set aside by a recovery, the nonce floor, the sweep, the fill and the
  marks fit each other; from it follows that the lane never holds two nonces. \<open>hn\<close> is the nonce a
  transaction hash commits to, which a signature of the key determines.
\<close>

section \<open>The invariant\<close>

definition rows_fit :: "(string \<Rightarrow> nat) \<Rightarrow> attempt list \<Rightarrow> bool" where
  "rows_fit hn ts = (distinct (map tx_id ts) \<and> (\<forall>t \<in> set ts. nonce t = int (hn (tx_hash t)) \<and> nonce t \<le> i64_max))"

text \<open>\<open>A\<close> are the nonces of the lane, \<open>P\<close> the parked ones, \<open>f\<close> is the floor.\<close>

definition lanes_fit :: "int set \<Rightarrow> int set \<Rightarrow> int \<Rightarrow> bool" where
  "lanes_fit A P f = ((\<forall>a \<in> A. \<forall>b \<in> A. a = b) \<and> (\<forall>p \<in> P. \<forall>q \<in> P. p = q) \<and> (\<forall>p \<in> P. f \<le> p)
     \<and> (\<forall>p \<in> P. \<forall>a \<in> A. f \<le> a \<longrightarrow> a = p))"

definition fill_fits :: "(string \<Rightarrow> nat) \<Rightarrow> mval option \<Rightarrow> int set \<Rightarrow> int \<Rightarrow> bool" where
  "fill_fits hn F A f = (case F of None \<Rightarrow> True | Some v \<Rightarrow>
     A = {} \<and> (\<exists>x. v = Json (encode_fill x) \<and> int (fi_nonce x) < f \<and> length (fi_txs x) \<le> FILL_ATTEMPTS
       \<and> (\<forall>h \<in> set (fi_known x) \<union> sg_hash ` set (fi_txs x). hn h = fi_nonce x)))"

definition sweep_fits :: "(string \<Rightarrow> nat) \<Rightarrow> mval option \<Rightarrow> int set \<Rightarrow> int \<Rightarrow> bool" where
  "sweep_fits hn S L f = (case S of None \<Rightarrow> True | Some v \<Rightarrow>
     (\<forall>n \<in> L. n < f) \<and> (\<exists>x. v = Json (encode_attempt x) \<and> int (sa_nonce x) < i64_max
       \<and> length (sa_txs x) \<le> MAX_ATTEMPTS \<and> (\<forall>h \<in> sg_hash ` set (sa_txs x). hn h = sa_nonce x)))"

text \<open>With no mismatch on record nothing is parked or filled, and the lane is above the floor.\<close>

definition quiet_fits :: "mval option \<Rightarrow> mval option \<Rightarrow> int set \<Rightarrow> int set \<Rightarrow> int \<Rightarrow> bool" where
  "quiet_fits M F A P f = (M \<noteq> None \<or> P = {} \<and> F = None \<and> (\<forall>a \<in> A. f \<le> a))"

definition marks_fit :: "(string \<Rightarrow> nat) \<Rightarrow> (string \<times> string) set \<Rightarrow> int \<Rightarrow> bool" where
  "marks_fit hn ms f = ((\<forall>h. (''receipt'', h) \<in> ms \<longrightarrow> int (hn h) < f)
     \<and> (\<forall>r n. (''nonce'', r) \<in> ms \<longrightarrow> parse_uint u64_max r = Some n \<longrightarrow> int n < f))"

definition fits :: "(string \<Rightarrow> nat) \<Rightarrow> journal \<Rightarrow> bool" where
  "fits hn j = (rows_fit hn (txs j) \<and> floor_ok j
     \<and> lanes_fit (lane_nonces j) (parked_nonces j) (floor_value j)
     \<and> fill_fits hn (meta j FILL_KEY) (lane_nonces j) (floor_value j)
     \<and> sweep_fits hn (meta j SWEEP_ATTEMPT_KEY) (lane_nonces j \<union> parked_nonces j) (floor_value j)
     \<and> quiet_fits (meta j MISMATCH_KEY) (meta j FILL_KEY) (lane_nonces j) (parked_nonces j) (floor_value j)
     \<and> marks_fit hn (marked j) (floor_value j))"

lemma lanes_fitD:
  assumes "lanes_fit A P f"
  shows "a \<in> A \<Longrightarrow> b \<in> A \<Longrightarrow> a = b" "p \<in> P \<Longrightarrow> q \<in> P \<Longrightarrow> p = q" "p \<in> P \<Longrightarrow> f \<le> p"
    "p \<in> P \<Longrightarrow> a \<in> A \<Longrightarrow> f \<le> a \<Longrightarrow> a = p"
  using assms by (simp_all add: lanes_fit_def)

lemma fitsD:
  assumes "fits hn j"
  shows "rows_fit hn (txs j)" "floor_ok j"
    "lanes_fit (lane_nonces j) (parked_nonces j) (floor_value j)"
    "fill_fits hn (meta j FILL_KEY) (lane_nonces j) (floor_value j)"
    "sweep_fits hn (meta j SWEEP_ATTEMPT_KEY) (lane_nonces j \<union> parked_nonces j) (floor_value j)"
    "quiet_fits (meta j MISMATCH_KEY) (meta j FILL_KEY) (lane_nonces j) (parked_nonces j) (floor_value j)"
    "marks_fit hn (marked j) (floor_value j)"
  using assms by (simp_all add: fits_def)

section \<open>How the parts follow a commit\<close>

lemma guarded_keys [simp]:
  "FILL_KEY \<noteq> NONCE_FLOOR_KEY" "FILL_KEY \<noteq> SWEEP_ATTEMPT_KEY" "FILL_KEY \<noteq> MISMATCH_KEY"
  "NONCE_FLOOR_KEY \<noteq> FILL_KEY" "SWEEP_ATTEMPT_KEY \<noteq> FILL_KEY" "MISMATCH_KEY \<noteq> FILL_KEY"
  "FILL_KEY \<noteq> ''audit:dropped''"
  by (simp_all add: FILL_KEY_def NONCE_FLOOR_KEY_def SWEEP_ATTEMPT_KEY_def MISMATCH_KEY_def)

lemma lane_view_guards:
  assumes "lane_view j' = lane_view j"
  shows "meta j' MISMATCH_KEY = meta j MISMATCH_KEY" "meta j' FILL_KEY = meta j FILL_KEY"
  using lane_viewD(7,8) [OF assms] by (simp_all add: MISMATCH_KEY_def FILL_KEY_def)

lemma rows_fit_map:
  assumes "\<And>t. tx_id (f t) = tx_id t \<and> nonce (f t) = nonce t \<and> tx_hash (f t) = tx_hash t"
  shows "rows_fit hn (map f ts) = rows_fit hn ts"
proof -
  have "tx_id \<circ> f = tx_id" using assms by auto
  then show ?thesis using assms unfolding rows_fit_def by simp
qed

lemma rows_fit_upd:
  assumes "\<And>t. tx_id (f t) = tx_id t \<and> nonce (f t) = nonce t \<and> tx_hash (f t) = tx_hash t"
  shows "rows_fit hn (upd_where P f ts) = rows_fit hn ts"
  unfolding upd_where_def by (rule rows_fit_map) (simp add: assms)

lemma next_rowid_fresh: "next_rowid ts \<notin> tx_id ` set ts"
proof (cases "sql_max (map tx_id ts)")
  case (Some m)
  then have "\<forall>t \<in> set ts. tx_id t \<le> m" using sql_max_Some [OF Some] by simp
  then show ?thesis by (auto simp: next_rowid_def Some)
qed simp

lemma rows_fit_enter:
  assumes "rows_fit hn ts" and "nonce a = int (hn (tx_hash a)) \<and> nonce a \<le> i64_max"
  shows "rows_fit hn (ts @ [a\<lparr>tx_id := next_rowid ts, tx_state := st, broadcast := b\<rparr>])"
  using assms next_rowid_fresh [of ts] by (auto simp: rows_fit_def)

lemma floor_ok_rows:
  assumes "floor_ok j" and "meta j' NONCE_FLOOR_KEY = meta j NONCE_FLOOR_KEY"
    and "nonces_where (\<lambda>t. tx_state t = ''resolved'') (txs j') \<subseteq> nonces_where (\<lambda>t. tx_state t = ''resolved'') (txs j)"
  shows "floor_ok j'"
proof -
  have "\<forall>n \<in> nonces_where (\<lambda>t. tx_state t = ''resolved'') (txs j). n < floor_value j"
    using assms(1) by (auto simp: floor_ok_def nonces_where_def)
  then have "\<forall>n \<in> nonces_where (\<lambda>t. tx_state t = ''resolved'') (txs j'). n < floor_value j"
    using assms(3) by blast
  then show ?thesis
    using assms(1) floor_value_cong [OF assms(2)] unfolding floor_ok_def assms(2) by (simp add: nonces_where_def)
qed

lemma floor_ok_map:
  assumes "floor_ok j" and "meta j' NONCE_FLOOR_KEY = meta j NONCE_FLOOR_KEY" and "txs j' = map g (txs j)"
    and "\<And>t. nonce (g t) = nonce t \<and> (tx_state (g t) = ''resolved'' \<longrightarrow> tx_state t = ''resolved'')"
  shows "floor_ok j'"
  by (rule floor_ok_rows [OF assms(1,2)])
     (use assms(4) in \<open>simp add: assms(3) nonces_where_map nonces_where_mono\<close>)

lemma floor_ok_upd:
  assumes "floor_ok j" and "meta j' NONCE_FLOOR_KEY = meta j NONCE_FLOOR_KEY" and "txs j' = upd_where P g (txs j)"
    and "\<And>t. P t \<Longrightarrow> nonce (g t) = nonce t \<and> (tx_state (g t) = ''resolved'' \<longrightarrow> tx_state t = ''resolved'')"
  shows "floor_ok j'"
  by (rule floor_ok_map [OF assms(1,2), where g = "\<lambda>t. if P t then g t else t"])
     (use assms(3,4) in \<open>auto simp: upd_where_def\<close>)

lemma marks_fit_mono:
  "marks_fit hn ms f \<Longrightarrow> ms' \<subseteq> ms \<union> N \<Longrightarrow> f \<le> f' \<Longrightarrow> marks_fit hn N f' \<Longrightarrow> marks_fit hn ms' f'"
  unfolding marks_fit_def by (meson Un_iff order_less_le_trans subsetD)

lemma marks_fit_empty [simp]: "marks_fit hn {} f"
  by (simp add: marks_fit_def)

lemma marks_fit_settles:
  assumes "settles_with hn (int k) m" and "int k < f" and "int k \<le> i64_max"
  shows "marks_fit hn (named m) f"
proof -
  have "parse_uint u64_max (show_int (int k)) = Some k"
    using assms(3) by (intro parse_uint_show_nat [THEN trans [rotated]]) (simp_all add: show_int_def width_defs)
  then show ?thesis using assms(1,2)
    by (cases m) (auto simp: marks_fit_def named_def settles_with_def split: if_splits)
qed

lemma fill_fits_mono: "fill_fits hn F A f \<Longrightarrow> A' \<subseteq> A \<Longrightarrow> f \<le> f' \<Longrightarrow> fill_fits hn F A' f'"
  by (fastforce simp: fill_fits_def split: option.splits)

lemma sweep_fits_mono:
  "sweep_fits hn S L f \<Longrightarrow> (\<And>n. n \<in> L' \<Longrightarrow> n \<in> L \<or> n < f') \<Longrightarrow> f \<le> f' \<Longrightarrow> sweep_fits hn S L' f'"
  by (fastforce simp: sweep_fits_def split: option.splits)

lemma floor_raised:
  "0 \<le> n \<Longrightarrow> n + 1 \<le> i64_max \<Longrightarrow> floor_value (raise_floor (n + 1) j) = max (floor_value j) (n + 1)"
  by (simp add: floor_value_raise split: option.splits) (simp add: floor_value_def)

lemma floor_ok_raise:
  assumes "floor_ok j" and "0 \<le> n" and "n + 1 \<le> i64_max"
  shows "floor_ok (raise_floor (n + 1) j)"
proof (rule floor_ok_rows [OF floor_ok_settle [OF assms]])
  show "meta (raise_floor (n + 1) j) NONCE_FLOOR_KEY = meta (raise_floor (n + 1) (resolve_txs n j)) NONCE_FLOOR_KEY"
    by (simp add: meta_raise_floor)
  show "nonces_where (\<lambda>t. tx_state t = ''resolved'') (txs (raise_floor (n + 1) j))
      \<subseteq> nonces_where (\<lambda>t. tx_state t = ''resolved'') (txs (raise_floor (n + 1) (resolve_txs n j)))"
    by (simp add: resolve_txs_def nonces_where_upd nonces_where_mono)
qed

lemma fits_same:
  assumes "fits hn j" and "rows_fit hn (txs j')" and "floor_ok j'"
    and "lane_nonces j' = lane_nonces j" and "parked_nonces j' = parked_nonces j"
    and "\<forall>k \<in> GUARDED. meta j' k = meta j k" and "marked j' \<subseteq> marked j"
  shows "fits hn j'"
proof -
  have m: "meta j' NONCE_FLOOR_KEY = meta j NONCE_FLOOR_KEY" "meta j' SWEEP_ATTEMPT_KEY = meta j SWEEP_ATTEMPT_KEY"
    "meta j' FILL_KEY = meta j FILL_KEY" "meta j' MISMATCH_KEY = meta j MISMATCH_KEY"
    using assms(6) by (simp_all add: GUARDED_def)
  have f: "floor_value j' = floor_value j" by (rule floor_value_cong [OF m(1)])
  have "marks_fit hn (marked j') (floor_value j)"
    by (rule marks_fit_mono [OF fitsD(7) [OF assms(1)], of _ "{}"]) (use assms(7) in simp_all)
  then show ?thesis using assms(1-5) unfolding fits_def f m by simp
qed

lemma fits_calm:
  assumes "calm j j'" and "fits hn j"
  shows "fits hn j'"
proof (rule fits_same [OF assms(2)])
  have t: "txs j' = txs j" and g: "\<forall>k \<in> GUARDED. meta j' k = meta j k" using assms(1) by (simp_all add: calm_def)
  show "lane_nonces j' = lane_nonces j" "parked_nonces j' = parked_nonces j" using t by (rule lane_nonces_cong)+
  show "\<forall>k \<in> GUARDED. meta j' k = meta j k" by (rule g)
  show "marked j' \<subseteq> marked j" using assms(1) by (simp add: calm_def)
  show "rows_fit hn (txs j')" using fitsD(1) [OF assms(2)] t by simp
  show "floor_ok j'" using floor_ok_cong [OF t] g fitsD(2) [OF assms(2)] by (simp add: GUARDED_def)
qed

lemma fits_broadcast: "fits hn j \<Longrightarrow> fits hn (broadcast_attempt i t j)"
proof (rule fits_same)
  assume "fits hn j"
  note d = fitsD [OF this]
  show "rows_fit hn (txs (broadcast_attempt i t j))"
    using d(1) by (simp add: broadcast_attempt_def rows_fit_upd)
  show "floor_ok (broadcast_attempt i t j)"
    by (rule floor_ok_upd [OF d(2), where P = "\<lambda>x. tx_id x = i" and g = "\<lambda>x. x\<lparr>broadcast := t\<rparr>"])
       (simp_all add: broadcast_attempt_def)
  show "lane_nonces (broadcast_attempt i t j) = lane_nonces j"
    "parked_nonces (broadcast_attempt i t j) = parked_nonces j"
    by (simp_all add: lane_nonces_def parked_nonces_def broadcast_attempt_def nonces_where_upd)
  show "marked (broadcast_attempt i t j) \<subseteq> marked j" by (simp add: broadcast_attempt_def marked_def mark_rows_def)
qed (simp_all add: broadcast_attempt_def)

lemma fits_submit:
  assumes "fits hn j" and "a \<in> set (txs j)" and "active a"
  shows "fits hn (set_tx_state (tx_id a) ''submitted'' j)"
proof (rule fits_same [OF assms(1)])
  note d = fitsD [OF assms(1)]
  show "rows_fit hn (txs (set_tx_state (tx_id a) ''submitted'' j))"
    using d(1) by (simp add: set_tx_state_def rows_fit_upd)
  show "floor_ok (set_tx_state (tx_id a) ''submitted'' j)"
    by (rule floor_ok_upd [OF d(2), where P = "\<lambda>t. tx_id t = tx_id a" and g = "\<lambda>t. t\<lparr>tx_state := ''submitted''\<rparr>"])
       (simp_all add: set_tx_state_def)
  have "distinct (map tx_id (txs j))" using d(1) by (simp add: rows_fit_def)
  then show "lane_nonces (set_tx_state (tx_id a) ''submitted'' j) = lane_nonces j"
    "parked_nonces (set_tx_state (tx_id a) ''submitted'' j) = parked_nonces j"
    using state_nonces assms(2,3) by blast+
  show "marked (set_tx_state (tx_id a) ''submitted'' j) \<subseteq> marked j"
    by (simp add: set_tx_state_def marked_def mark_rows_def)
qed (simp add: set_tx_state_def)

lemma fits_enter:
  assumes "fits hn j" and "nonce a = int (hn (tx_hash a)) \<and> nonce a \<le> i64_max"
    and "nonce a \<in> lane_nonces j \<or> (meta j MISMATCH_KEY = None \<and> floor_value j \<le> nonce a)"
    and "\<exists>j1. claim_lane a j = Inr j1 \<and> lane_view j' = lane_view j1" and "marked j' \<subseteq> marked j"
  shows "fits hn j'"
proof -
  note d = fitsD [OF assms(1)] and e = enter_nonces [OF assms(4)]
  obtain j1 where c: "claim_lane a j = Inr j1" and v: "lane_view j' = lane_view j1" using assms(4) by blast
  have m: "meta j' MISMATCH_KEY = meta j MISMATCH_KEY" "meta j' FILL_KEY = meta j FILL_KEY"
    "meta j' NONCE_FLOOR_KEY = meta j NONCE_FLOOR_KEY"
    using lane_view_guards [OF v] lane_viewD(2) [OF v] c by (simp_all add: claim_lane_Inr_iff)
  have A: "lane_nonces j = {nonce a} \<or> (lane_nonces j = {} \<and> meta j MISMATCH_KEY = None \<and> floor_value j \<le> nonce a)"
    using assms(3) e(3) by blast
  have F: "meta j FILL_KEY = None"
    using A d(4,6) by (auto simp: fill_fits_def quiet_fits_def split: option.splits)
  have "floor_ok j'"
    by (rule floor_ok_rows [OF d(2) m(3)]) (simp add: e(7) nonces_where_append, simp add: nonces_where_def)
  moreover have "lanes_fit {nonce a} (parked_nonces j) (floor_value j)
      \<and> quiet_fits (meta j MISMATCH_KEY) None {nonce a} (parked_nonces j) (floor_value j)"
    using A
  proof
    assume "lane_nonces j = {nonce a}"
    then show ?thesis using d(3,6) F by simp
  next
    assume q: "lane_nonces j = {} \<and> meta j MISMATCH_KEY = None \<and> floor_value j \<le> nonce a"
    then have "parked_nonces j = {}" using d(6) by (simp add: quiet_fits_def)
    then show ?thesis using q by (simp add: lanes_fit_def quiet_fits_def)
  qed
  moreover have "marks_fit hn (marked j') (floor_value j)"
    by (rule marks_fit_mono [OF d(7), of _ "{}"]) (use assms(5) in simp_all)
  ultimately show ?thesis
    using rows_fit_enter [OF d(1) assms(2)] F
    unfolding fits_def e(1,2,4,6,7) m F by (simp add: fill_fits_def sweep_fits_def)
qed

lemma fits_settle:
  assumes "fits hn j" and n: "n \<in> lane_nonces j" and "settles_with hn n m"
    and v: "n + 1 \<le> i64_max \<and> lane_view j' = lane_view (raise_floor (n + 1) (resolve_txs n j))"
    and "marked j' \<subseteq> marked j \<union> named m"
  shows "fits hn j'"
proof -
  note d = fitsD [OF assms(1)] and e = settle_nonces [OF v]
  obtain k where k: "n = int k"
    using n d(1) by (auto simp: lane_nonces_def nonces_where_def rows_fit_def)
  have A: "lane_nonces j = {n}" using n d(3) unfolding lanes_fit_def by blast
  have v': "lane_view j' = lane_view (raise_floor (n + 1) (resolve_txs n j))" using v by simp
  have m: "meta j' MISMATCH_KEY = meta j MISMATCH_KEY" "meta j' FILL_KEY = meta j FILL_KEY"
    using lane_view_guards [OF v'] by simp_all
  have f: "floor_value j' = max (floor_value j) (n + 1)" using e(5) v floor_raised [of n j] k by simp
  have F: "meta j FILL_KEY = None" using d(4) A by (auto simp: fill_fits_def split: option.splits)
  have "rows_fit hn (txs j')" using d(1) by (simp add: e(4) rows_fit_upd)
  moreover have "floor_ok j'"
    using lane_viewD(6) [OF v'] floor_ok_settle [OF d(2), of n] v k by simp
  moreover have "lanes_fit {} (parked_nonces j - {n}) (floor_value j')"
  proof (cases "n < floor_value j")
    case True
    then have "floor_value j' = floor_value j" using f by simp
    then show ?thesis using d(3) by (simp add: lanes_fit_def)
  next
    case False
    then have "\<forall>p \<in> parked_nonces j. n = p" using d(3) n by (simp add: lanes_fit_def)
    then have "p = n" if "p \<in> parked_nonces j" for p using that by simp
    then have "parked_nonces j - {n} = {}" by blast
    then show ?thesis unfolding lanes_fit_def by (simp only: ball_simps(5) HOL.simp_thms)
  qed
  moreover have "sweep_fits hn (meta j SWEEP_ATTEMPT_KEY) (parked_nonces j - {n}) (floor_value j')"
    by (rule sweep_fits_mono [OF d(5)]) (simp_all add: f)
  moreover have "quiet_fits (meta j MISMATCH_KEY) None {} (parked_nonces j - {n}) (floor_value j')"
    using d(6) by (auto simp: quiet_fits_def)
  moreover have "marks_fit hn (marked j') (floor_value j')"
    by (rule marks_fit_mono [OF d(7) assms(5)])
       (use f k v assms(3) in \<open>auto intro!: marks_fit_settles [of hn k]\<close>)
  ultimately show ?thesis
    unfolding fits_def e(1,2,3) m F A by (simp add: fill_fits_def)
qed

lemma fits_sweep_start:
  assumes "fits hn j" and "meta j MISMATCH_KEY = None" and "start_marked a m j = Inr j'" and "marked j' \<subseteq> marked j"
    and "meta j' MISMATCH_KEY = meta j MISMATCH_KEY" "meta j' FILL_KEY = meta j FILL_KEY"
    and "int (sa_nonce a) < i64_max" and "length (sa_txs a) \<le> MAX_ATTEMPTS"
    and "\<forall>h \<in> sg_hash ` set (sa_txs a). hn h = sa_nonce a"
  shows "fits hn j'"
proof -
  note d = fitsD [OF assms(1)] and i = start_marked_Inr [OF assms(3)]
  have A: "lane_nonces j = {}" using i by (simp add: lane_nonces_def nonces_where_def)
  have P: "parked_nonces j = {}" and F: "meta j FILL_KEY = None" using d(6) assms(2) by (simp_all add: quiet_fits_def)
  have l: "lane_nonces j' = {}" "parked_nonces j' = {}" using A P i lane_nonces_cong [of j' j] by simp_all
  have f: "floor_value j' = floor_value j" using i by (intro floor_value_cong) simp
  have "floor_ok j'" using d(2) floor_ok_cong [of j' j] i by simp
  moreover have "marks_fit hn (marked j') (floor_value j)"
    by (rule marks_fit_mono [OF d(7), of _ "{}"]) (use assms(4) in simp_all)
  moreover have "sweep_fits hn (meta j' SWEEP_ATTEMPT_KEY) {} (floor_value j)"
    using i assms(7-9) unfolding sweep_fits_def by auto
  ultimately show ?thesis
    using d(1) i unfolding fits_def l f assms(5,6) F by (simp add: lanes_fit_def fill_fits_def quiet_fits_def)
qed

text \<open>A journal with another value for the sweep or the fill.\<close>

lemma optR_Some: "optR f x = Inr (Some a) \<longleftrightarrow> (\<exists>v. x = Some v \<and> f v = Inr a)"
  by (cases x) (auto simp: optR_def result_simps)

lemma sweep_present:
  assumes "fits hn j" and "sweep_attempt_of j = Inr (Some a)"
  shows "int (sa_nonce a) < i64_max" "\<forall>n \<in> lane_nonces j \<union> parked_nonces j. n < floor_value j"
    "length (sa_txs a) \<le> MAX_ATTEMPTS" "\<forall>h \<in> sg_hash ` set (sa_txs a). hn h = sa_nonce a"
proof -
  obtain v where v: "meta j SWEEP_ATTEMPT_KEY = Some v" "Option.bind (as_json v) decode_attempt = Some a"
    using assms(2) by (auto simp: sweep_attempt_of_def read_meta_def optR_Some result_simps)
  then obtain x where x: "v = Json (encode_attempt x)" "int (sa_nonce x) < i64_max"
    "length (sa_txs x) \<le> MAX_ATTEMPTS" "\<forall>h \<in> sg_hash ` set (sa_txs x). hn h = sa_nonce x"
    and low: "\<forall>n \<in> lane_nonces j \<union> parked_nonces j. n < floor_value j"
    using fitsD(5) [OF assms(1)] by (auto simp: sweep_fits_def)
  have "x = a" using v(2) x(1) by simp
  then show "int (sa_nonce a) < i64_max" "\<forall>n \<in> lane_nonces j \<union> parked_nonces j. n < floor_value j"
    "length (sa_txs a) \<le> MAX_ATTEMPTS" "\<forall>h \<in> sg_hash ` set (sa_txs a). hn h = sa_nonce a"
    using x low by simp_all
qed

lemma decode_encode_fill [simp]: "decode_fill (encode_fill f) = Some f"
  using those_map_decode [of decode_signed encode_signed "fi_txs f"] those_map_decode [of json_str JStr "fi_known f"]
  by (simp add: decode_fill_def encode_fill_def field_str_def field_nat_def json_list_def json_bool_def json_str_def)

lemma fill_present:
  assumes "fits hn j" and "fill_of j = Inr (Some x)"
  shows "lane_nonces j = {}" "int (fi_nonce x) < floor_value j" "length (fi_txs x) \<le> FILL_ATTEMPTS"
    "\<forall>h \<in> set (fi_known x) \<union> sg_hash ` set (fi_txs x). hn h = fi_nonce x" "meta j MISMATCH_KEY \<noteq> None"
    "meta j FILL_KEY \<noteq> None"
proof -
  obtain v where v: "meta j FILL_KEY = Some v" "Option.bind (as_json v) decode_fill = Some x"
    using assms(2) by (auto simp: fill_of_def read_json_def optR_Some result_simps)
  then obtain y where y: "v = Json (encode_fill y)" "int (fi_nonce y) < floor_value j" "length (fi_txs y) \<le> FILL_ATTEMPTS"
    "\<forall>h \<in> set (fi_known y) \<union> sg_hash ` set (fi_txs y). hn h = fi_nonce y" and A: "lane_nonces j = {}"
    using fitsD(4) [OF assms(1)] by (auto simp: fill_fits_def)
  have "y = x" using v(2) y(1) by simp
  then show "lane_nonces j = {}" "int (fi_nonce x) < floor_value j" "length (fi_txs x) \<le> FILL_ATTEMPTS"
    "\<forall>h \<in> set (fi_known x) \<union> sg_hash ` set (fi_txs x). hn h = fi_nonce x" "meta j FILL_KEY \<noteq> None"
    using y A v by simp_all
  show "meta j MISMATCH_KEY \<noteq> None" using fitsD(6) [OF assms(1)] v(1) by (auto simp: quiet_fits_def)
qed

lemma fits_sweep_put:
  assumes "fits hn j" and "sweep_attempt_of j = Inr (Some a)" and "sa_nonce a' = sa_nonce a"
    and "length (sa_txs a') \<le> MAX_ATTEMPTS" and "\<forall>h \<in> sg_hash ` set (sa_txs a'). hn h = sa_nonce a"
    and "txs j' = txs j" and "\<forall>k \<in> GUARDED - {SWEEP_ATTEMPT_KEY}. meta j' k = meta j k"
    and "meta j' SWEEP_ATTEMPT_KEY = Some (Json (encode_attempt a'))" and "marked j' \<subseteq> marked j"
  shows "fits hn j'"
proof -
  note d = fitsD [OF assms(1)]
  have m: "meta j' NONCE_FLOOR_KEY = meta j NONCE_FLOOR_KEY" "meta j' FILL_KEY = meta j FILL_KEY"
    "meta j' MISMATCH_KEY = meta j MISMATCH_KEY"
    using assms(7) by (simp_all add: GUARDED_def)
  note c = lane_nonces_cong [OF assms(6)] floor_value_cong [OF m(1)]
  note x = sweep_present [OF assms(1,2)]
  have "sweep_fits hn (meta j' SWEEP_ATTEMPT_KEY) (lane_nonces j \<union> parked_nonces j) (floor_value j)"
    using x(1,2) assms(3-5,8) unfolding sweep_fits_def by auto
  moreover have "marks_fit hn (marked j') (floor_value j)"
    by (rule marks_fit_mono [OF d(7), of _ "{}"]) (use assms(9) in simp_all)
  moreover have "floor_ok j'" using d(2) floor_ok_cong [OF assms(6) m(1)] by simp
  ultimately show ?thesis using d unfolding fits_def c m assms(6) by simp
qed

lemma fits_sweep_end:
  assumes "fits hn j" and "sweep_attempt_of j = Inr (Some a)" and "settles_with hn (int (sa_nonce a)) m"
    and "finish_marked (sa_nonce a) c m j = Inr j'"
  shows "fits hn j'"
proof -
  note d = fitsD [OF assms(1)]
  note low = sweep_present(2) [OF assms(1,2)]
  have s: "int (sa_nonce a) + 1 \<le> i64_max" using sweep_present(1) [OF assms(1,2)] by simp
  obtain j1 where w: "write_mark_opt m j = Inr j1"
    and j': "j' = raise_floor (int (sa_nonce a) + 1) (record_outcome c (meta_delete (\<lambda>k. k = SWEEP_ATTEMPT_KEY) j1))"
    using finish_marked_Inr [OF assms(4)] by blast
  note fr = write_mark_opt_frame [OF w]
  have keys: "LAST_KEY \<noteq> SWEEP_ATTEMPT_KEY" "LAST_KEY \<noteq> NONCE_FLOOR_KEY" "LAST_KEY \<noteq> FILL_KEY" "LAST_KEY \<noteq> MISMATCH_KEY"
    by (simp_all add: LAST_KEY_def SWEEP_ATTEMPT_KEY_def NONCE_FLOOR_KEY_def FILL_KEY_def MISMATCH_KEY_def)
  have t: "txs j' = txs j" and S: "meta j' SWEEP_ATTEMPT_KEY = None"
    and m: "meta j' FILL_KEY = meta j FILL_KEY" "meta j' MISMATCH_KEY = meta j MISMATCH_KEY"
    using fr keys by (simp_all add: j' record_outcome_def)
  have f: "floor_value j' = max (floor_value j) (int (sa_nonce a) + 1)"
    using floor_raised [of "int (sa_nonce a)" "record_outcome c (meta_delete (\<lambda>k. k = SWEEP_ATTEMPT_KEY) j1)"] s fr keys
    by (simp add: j' record_outcome_def floor_value_def)
  note l = lane_nonces_cong [OF t]
  have "p \<notin> parked_nonces j" for p using lanes_fitD(3) [OF d(3), of p] low by (meson UnI2 not_less)
  then have P: "parked_nonces j = {}" by blast
  have "floor_ok j'"
  proof -
    have "floor_ok (raise_floor (int (sa_nonce a) + 1) (record_outcome c (meta_delete (\<lambda>k. k = SWEEP_ATTEMPT_KEY) j1)))
        = floor_ok (raise_floor (int (sa_nonce a) + 1) j)"
      by (rule floor_ok_cong) (use fr keys in \<open>simp_all add: record_outcome_def meta_raise_floor\<close>)
    then show ?thesis using floor_ok_raise [OF d(2) _ s] by (simp add: j')
  qed
  moreover have "lanes_fit (lane_nonces j) {} (floor_value j')" using d(3) by (simp add: lanes_fit_def)
  moreover have "fill_fits hn (meta j FILL_KEY) (lane_nonces j) (floor_value j')"
    by (rule fill_fits_mono [OF d(4)]) (simp_all add: f)
  moreover have "quiet_fits (meta j MISMATCH_KEY) (meta j FILL_KEY) (lane_nonces j) {} (floor_value j')"
  proof (cases "meta j MISMATCH_KEY = None")
    case True
    then have "\<forall>a \<in> lane_nonces j. floor_value j \<le> a" and F: "meta j FILL_KEY = None"
      using d(6) by (simp_all add: quiet_fits_def)
    then have "a \<notin> lane_nonces j" for a using low by (meson UnI1 not_less)
    then have "lane_nonces j = {}" by blast
    then show ?thesis using F by (simp add: quiet_fits_def)
  qed (simp add: quiet_fits_def)
  moreover have "marks_fit hn (marked j') (floor_value j')"
  proof (rule marks_fit_mono [OF d(7)])
    have "marked j' = marked j1" by (rule marked_cong) (simp add: j' record_outcome_def)
    then show "marked j' \<subseteq> marked j \<union> named m" using marked_write [OF w] by simp
  qed (use f s assms(3) in \<open>auto intro!: marks_fit_settles [of hn "sa_nonce a"]\<close>)
  ultimately show ?thesis using d(1) unfolding fits_def l P S m t by (simp add: sweep_fits_def)
qed

lemma fits_records:
  assumes "fits hn j" and "txs j' = txs j" and "soft_marks j' = soft_marks j"
    and "\<forall>k \<in> GUARDED - {MISMATCH_KEY}. meta j' k = meta j k" and "meta j' MISMATCH_KEY \<noteq> None"
  shows "fits hn j'"
proof -
  have m: "meta j' NONCE_FLOOR_KEY = meta j NONCE_FLOOR_KEY" "meta j' FILL_KEY = meta j FILL_KEY"
    "meta j' SWEEP_ATTEMPT_KEY = meta j SWEEP_ATTEMPT_KEY"
    using assms(4) by (simp_all add: GUARDED_def)
  show ?thesis
    using fitsD [OF assms(1)] floor_ok_cong [OF assms(2) m(1)] assms(5)
    unfolding fits_def lane_nonces_cong [OF assms(2)] floor_value_cong [OF m(1)] marked_cong [OF assms(3)] m assms(2)
    by (simp add: quiet_fits_def)
qed

lemma floor_in_range:
  assumes "floor_ok j"
  shows "floor_value j \<le> i64_max" "0 \<le> floor_value j"
  using assms nonce_floor_value [OF assms]
  by (auto simp: floor_ok_def floor_value_def sql_int_show_int width_defs split: option.splits)

lemma fits_consumes:
  assumes "fits hn j" and "int n < floor_value j" and "settles_with hn (int n) m" and "replace_marks ms m j = Inr j'"
  shows "fits hn j'"
proof -
  have r: "txs j' = txs j" "meta j' = meta j"
    using assms(4) by (auto dest!: replace_marks_rest)
  have "marks_fit hn (marked j') (floor_value j)"
    by (rule marks_fit_mono [OF fitsD(7) [OF assms(1)] marked_replace [OF assms(4)]])
       (use floor_in_range(1) [OF fitsD(2) [OF assms(1)]] assms(2) in \<open>simp_all add: marks_fit_settles [OF assms(3)]\<close>)
  then show ?thesis
    using fitsD [OF assms(1)] floor_ok_cong [OF r(1)] floor_value_cong [of j' j]
    unfolding fits_def lane_nonces_cong [OF r(1)] r by simp
qed

lemma idle_lane:
  assumes "fits hn j" and "recovery_idle j"
  shows "\<forall>a \<in> lane_nonces j. floor_value j \<le> a" "meta j FILL_KEY = None" "meta j MISMATCH_KEY \<noteq> None"
proof -
  show "meta j FILL_KEY = None" "meta j MISMATCH_KEY \<noteq> None" using assms(2) by (simp_all add: recovery_idle_def)
  have "\<not> reopened_live (nat (floor_value j)) j"
    using assms(2) nonce_floor_value [OF fitsD(2) [OF assms(1)]] by (auto simp: recovery_idle_def)
  then have *: "\<forall>t \<in> set (txs j). active t \<longrightarrow> \<not> (0 \<le> nonce t \<and> nat (nonce t) < nat (floor_value j))"
    by (auto simp: reopened_live_def list_ex_iff unresolved_def)
  show "\<forall>a \<in> lane_nonces j. floor_value j \<le> a"
  proof
    fix a assume "a \<in> lane_nonces j"
    then obtain t where t: "t \<in> set (txs j)" "active t" "a = nonce t" by (auto simp: lane_nonces_def nonces_where_def)
    moreover have "0 \<le> nonce t" using t fitsD(1) [OF assms(1)] by (simp add: rows_fit_def)
    ultimately show "floor_value j \<le> a" using * by fastforce
  qed
qed

lemma lanes_fit_joined:
  assumes "lanes_fit A P f" and "\<forall>a \<in> A. f \<le> a"
  shows "x \<in> A \<union> P \<Longrightarrow> y \<in> A \<union> P \<Longrightarrow> x = y" "x \<in> A \<union> P \<Longrightarrow> f \<le> x"
  using lanes_fitD [OF assms(1)] assms(2) by blast+

lemma lanes_fit_merged:
  assumes "lanes_fit A P f" and "\<forall>a \<in> A. f \<le> a"
  shows "lanes_fit {} (P \<union> A) f" "lanes_fit (A \<union> P) {} f"
proof -
  note j = lanes_fit_joined [OF assms, unfolded Un_commute [of A P]]
  show "lanes_fit {} (P \<union> A) f"
    unfolding lanes_fit_def by (intro conjI ballI impI; (elim emptyE)?; rule j; assumption)
  show "lanes_fit (A \<union> P) {} f"
    unfolding lanes_fit_def Un_commute [of A P] by (intro conjI ballI impI; (elim emptyE)?; rule j; assumption)
qed

lemma fits_reopen:
  assumes "fits hn j" and "recovery_idle j" and n: "int n < floor_value j" and "reopen_nonce n t now j = Inr (Reopened_Lane, j')"
  shows "fits hn j'"
proof -
  note d = fitsD [OF assms(1)] and i = idle_lane [OF assms(1,2)]
  let ?rows = "sort_key tx_id (filter (\<lambda>x. nonce x = int n) (txs j))"
  have rr: "reopen_rows (int n) (int t) now ?rows j = Inr j'"
    using assms(4) by (rule reopen_lane_cases) simp_all
  note r = reopen_rows_Inr [OF rr]
  have tx: "txs j' = map (reopened_attempt (int n) (int t)) (txs j)" using r by (simp add: reopened_txs)
  note e = reopen_nonces [OF tx]
  have m: "meta j' NONCE_FLOOR_KEY = meta j NONCE_FLOOR_KEY" "meta j' SWEEP_ATTEMPT_KEY = meta j SWEEP_ATTEMPT_KEY"
    using r by simp_all
  have g: "meta j' MISMATCH_KEY = meta j MISMATCH_KEY" "meta j' FILL_KEY = meta j FILL_KEY" "marked j' \<subseteq> marked j"
    using reopen_rows_guards [OF rr] by simp_all
  have f: "floor_value j' = floor_value j" by (rule floor_value_cong [OF m(1)])
  note join = lanes_fit_joined [OF d(3) i(1)]
  have "rows_fit hn (txs j')" using d(1) by (simp add: tx rows_fit_map reopened_attempt_def)
  moreover have "floor_ok j'"
    by (rule floor_ok_map [OF d(2) m(1) tx]) (simp add: reopened_attempt_def parked_state_def active_def)
  moreover have "lanes_fit (lane_nonces j') (parked_nonces j') (floor_value j)"
    unfolding lanes_fit_def using e join n by (smt (verit) Diff_iff Un_commute singletonD subsetD)
  moreover have "sweep_fits hn (meta j SWEEP_ATTEMPT_KEY) (lane_nonces j' \<union> parked_nonces j') (floor_value j)"
    by (rule sweep_fits_mono [OF d(5)]) (use e n in auto)
  moreover have "marks_fit hn (marked j') (floor_value j)"
    by (rule marks_fit_mono [OF d(7), of _ "{}"]) (use g(3) in simp_all)
  ultimately show ?thesis
    using i unfolding fits_def f m g by (simp add: quiet_fits_def fill_fits_def)
qed

lemma fits_fill:
  assumes "fits hn j" and "recovery_idle j" and n: "int n < floor_value j"
    and x: "x = \<lparr>fi_nonce = n, fi_stale = b,
      fi_known = map tx_hash (sort_key tx_id (filter (\<lambda>t. nonce t = int n) (txs j))), fi_txs = []\<rparr>"
  shows "fits hn (begin_fill FILL_KEY (Json (encode_fill x)) j)"
proof -
  let ?j = "begin_fill FILL_KEY (Json (encode_fill x)) j"
  note d = fitsD [OF assms(1)] and i = idle_lane [OF assms(1,2)]
  have t: "txs ?j = park (\<lambda>_. True) (txs j)" by (simp add: begin_fill_def)
  have m: "meta ?j NONCE_FLOOR_KEY = meta j NONCE_FLOOR_KEY" "meta ?j SWEEP_ATTEMPT_KEY = meta j SWEEP_ATTEMPT_KEY"
    "meta ?j MISMATCH_KEY = meta j MISMATCH_KEY" "meta ?j FILL_KEY = Some (Json (encode_fill x))"
    by (simp_all add: begin_fill_def)
  have l: "lane_nonces ?j = {}" "parked_nonces ?j = parked_nonces j \<union> lane_nonces j"
    using park_nonces [OF t] by (simp_all add: lane_nonces_def)
  have f: "floor_value ?j = floor_value j" by (rule floor_value_cong [OF m(1)])
  note join = lanes_fit_joined [OF d(3) i(1)]
  have "rows_fit hn (txs ?j)" using d(1) by (simp add: t park_def rows_fit_upd)
  moreover have "floor_ok ?j"
    by (rule floor_ok_upd [OF d(2) m(1), where P = active and g = "\<lambda>t. t\<lparr>tx_state := parked_state (tx_state t)\<rparr>"])
       (simp_all add: t park_def parked_state_def)
  moreover have "lanes_fit {} (parked_nonces j \<union> lane_nonces j) (floor_value j)"
    by (rule lanes_fit_merged(1) [OF d(3) i(1)])
  moreover have "fill_fits hn (Some (Json (encode_fill x))) {} (floor_value j)"
  proof -
    have "hn h = n" if "h \<in> set (fi_known x)" for h
      using that d(1) by (auto simp: x rows_fit_def)
    then show ?thesis using n x by (auto simp: fill_fits_def)
  qed
  moreover have "sweep_fits hn (meta j SWEEP_ATTEMPT_KEY) (parked_nonces j \<union> lane_nonces j) (floor_value j)"
    by (rule sweep_fits_mono [OF d(5)]) auto
  moreover have "marked ?j = marked j" by (rule marked_cong) (simp add: begin_fill_def)
  ultimately show ?thesis
    using i(3) d(7) unfolding fits_def l m f by (simp add: quiet_fits_def)
qed

lemma fits_fill_put:
  assumes "fits hn j" and "fill_of j = Inr (Some x)" and "fi_nonce x' = fi_nonce x"
    and "length (fi_txs x') \<le> FILL_ATTEMPTS"
    and "\<forall>h \<in> set (fi_known x') \<union> sg_hash ` set (fi_txs x'). hn h = fi_nonce x"
    and "txs j' = txs j" and "\<forall>k \<in> GUARDED - {FILL_KEY}. meta j' k = meta j k"
    and "meta j' FILL_KEY = Some (Json (encode_fill x'))" and "marked j' \<subseteq> marked j"
  shows "fits hn j'"
proof -
  note d = fitsD [OF assms(1)] and p = fill_present [OF assms(1,2)]
  have m: "meta j' NONCE_FLOOR_KEY = meta j NONCE_FLOOR_KEY" "meta j' MISMATCH_KEY = meta j MISMATCH_KEY"
    "meta j' SWEEP_ATTEMPT_KEY = meta j SWEEP_ATTEMPT_KEY"
    using assms(7) by (simp_all add: GUARDED_def)
  have "fill_fits hn (meta j' FILL_KEY) {} (floor_value j)"
    using p(2) assms(3-5,8) unfolding fill_fits_def by auto
  moreover have "marks_fit hn (marked j') (floor_value j)"
    by (rule marks_fit_mono [OF d(7), of _ "{}"]) (use assms(9) in simp_all)
  moreover have "floor_ok j'" using d(2) floor_ok_cong [OF assms(6) m(1)] by simp
  ultimately show ?thesis
    using d p(1,5) unfolding fits_def lane_nonces_cong [OF assms(6)] floor_value_cong [OF m(1)] m assms(6)
    by (simp add: quiet_fits_def)
qed

lemma fits_fill_end:
  assumes "fits hn j" and "fill_of j = Inr (Some x)" and "settles_with hn (int (fi_nonce x)) m"
    and "settle_fill FILL_KEY (fi_nonce x) hs m j = Inr j'"
  shows "fits hn j'"
proof -
  note d = fitsD [OF assms(1)] and p = fill_present [OF assms(1,2)]
  obtain j1 j2 where j1: "delete_nonce_marks (int (fi_nonce x)) hs j = Inr j1" and j2: "write_mark_opt m j1 = Inr j2"
    and j': "j' = meta_delete (\<lambda>k. k = FILL_KEY) j2"
    using assms(4) unfolding settle_fill_def bindR_Inr_iff sum.inject by blast
  note fr = delete_nonce_marks_frame [OF j1] write_mark_opt_frame [OF j2]
  have t: "txs j' = txs j" and m: "meta j' NONCE_FLOOR_KEY = meta j NONCE_FLOOR_KEY" "meta j' FILL_KEY = None"
    "meta j' MISMATCH_KEY = meta j MISMATCH_KEY" "meta j' SWEEP_ATTEMPT_KEY = meta j SWEEP_ATTEMPT_KEY"
    using fr by (simp_all add: j')
  have "floor_value j \<le> i64_max" by (rule floor_in_range [OF d(2)])
  then have n: "marks_fit hn (named m) (floor_value j)"
    using marks_fit_settles [OF assms(3) p(2)] p(2) by simp
  have "marked j' = marked j2" by (rule marked_cong) (simp add: j')
  then have "marked j' \<subseteq> marked j \<union> named m" using marked_delete_nonce [OF j1] marked_write [OF j2] by blast
  then have "marks_fit hn (marked j') (floor_value j)" by (rule marks_fit_mono [OF d(7) _ order_refl n])
  moreover have "floor_ok j'" using d(2) floor_ok_cong [OF t m(1)] by simp
  ultimately show ?thesis
    using d p(5) unfolding fits_def lane_nonces_cong [OF t] floor_value_cong [OF m(1)] m t
    by (simp add: quiet_fits_def fill_fits_def)
qed

lemma fits_unpark:
  assumes "fits hn j" and "recovery_idle j" and t: "txs j' = unpark (txs j)"
    and m: "meta j' NONCE_FLOOR_KEY = meta j NONCE_FLOOR_KEY" "meta j' SWEEP_ATTEMPT_KEY = meta j SWEEP_ATTEMPT_KEY"
    and "meta j' FILL_KEY = None" and "soft_marks j' = soft_marks j"
  shows "fits hn j'"
proof -
  note d = fitsD [OF assms(1)] and i = idle_lane [OF assms(1,2)] and l = unpark_nonces [OF t]
  note join = lanes_fit_joined [OF d(3) i(1)]
  have f: "floor_value j' = floor_value j" by (rule floor_value_cong [OF m(1)])
  have "rows_fit hn (txs j')" using d(1) by (simp add: t unpark_def rows_fit_upd)
  moreover have "floor_ok j'"
    by (rule floor_ok_upd [OF d(2) m(1), where P = is_parked and g = "\<lambda>t. t\<lparr>tx_state := drop 7 (tx_state t)\<rparr>"])
       (auto simp: t unpark_def is_parked_def)
  moreover have "lanes_fit (lane_nonces j \<union> parked_nonces j) {} (floor_value j)"
    by (rule lanes_fit_merged(2) [OF d(3) i(1)])
  moreover have "quiet_fits (meta j' MISMATCH_KEY) None (lane_nonces j \<union> parked_nonces j) {} (floor_value j)"
    unfolding quiet_fits_def using join(2) by blast
  ultimately show ?thesis
    using d(5,7) unfolding fits_def l f m assms(6) marked_cong [OF assms(7)] by (simp add: fill_fits_def)
qed

lemma fits_clear:
  assumes "fits hn j" and "recovery_idle j" and "clear_finality_incident summary j = Inr j'"
  shows "fits hn j'"
proof -
  obtain found j1 where j1: "(case found of None \<Rightarrow> Inr j | Some m \<Rightarrow> drop_named_record m j) = Inr j1"
    and j': "j' = meta_put LAST_RECOVERY_KEY (Json summary) (meta_delete incident_key (j1\<lparr>txs := unpark (txs j1)\<rparr>))"
    using assms(3) unfolding clear_finality_incident_def bindR_Inr_iff sum.inject by blast
  have fr: "txs j1 = txs j \<and> soft_marks j1 = soft_marks j \<and> (\<forall>k. k \<noteq> cp_key FINALIZED_CHECKPOINT \<longrightarrow> meta j1 k = meta j k)"
    using j1 by (cases found) (auto dest: drop_named_record_frame)
  have k: "incident_key FILL_KEY" "LAST_RECOVERY_KEY \<noteq> NONCE_FLOOR_KEY" "LAST_RECOVERY_KEY \<noteq> SWEEP_ATTEMPT_KEY"
    "LAST_RECOVERY_KEY \<noteq> FILL_KEY" "NONCE_FLOOR_KEY \<noteq> cp_key FINALIZED_CHECKPOINT"
    "SWEEP_ATTEMPT_KEY \<noteq> cp_key FINALIZED_CHECKPOINT"
    by code_simp+
  show ?thesis
    by (rule fits_unpark [OF assms(1,2)]) (use fr k incident_key_others in \<open>simp_all add: j'\<close>)
qed

section \<open>The steps keep the invariant\<close>

text \<open>What a signature of the key determines: the hash of a signed transaction commits to its nonce.\<close>

definition hash_commits :: "(string \<Rightarrow> nat) \<Rightarrow> world \<Rightarrow> bool" where
  "hash_commits hn w = (\<forall>p to v h b. w_sign w p to v = Inr (h, b) \<longrightarrow> hn h = pl_nonce p)"

lemma hash_commitsD: "hash_commits hn w \<Longrightarrow> w_sign w p to v = Inr hb \<Longrightarrow> hn (fst hb) = pl_nonce p"
  unfolding hash_commits_def by (metis prod.collapse)

lemma attempt_of_Inr:
  assumes "attempt_of job p t hb = Inr a"
  shows "nonce a = int (pl_nonce p)" "tx_hash a = fst hb" "raw a = snd hb" "gas a = int (pl_gas p)"
    "fee a = show_nat (pl_fee p)" "priority a = show_nat (pl_priority p)" "tx_kind a = pl_kind p" "tx_job a = job"
    "nonce a \<le> i64_max"
  using assms by (auto simp: attempt_of_def result_simps split: if_splits)

lemma start_marked_guards:
  assumes "start_marked a m j = Inr j'"
  shows "meta j' MISMATCH_KEY = meta j MISMATCH_KEY" "meta j' FILL_KEY = meta j FILL_KEY" "marked j' \<subseteq> marked j \<union> named m"
proof -
  let ?j = "meta_put SWEEP_ATTEMPT_KEY (Json (encode_attempt a)) (meta_delete (\<lambda>k. k = REQUEST_KEY) j)"
  have w: "write_mark_opt m ?j = Inr j'"
    using assms by (auto simp: start_marked_def result_simps meta_insert_def Let_def split: if_splits)
  have k: "REQUEST_KEY \<noteq> MISMATCH_KEY" "REQUEST_KEY \<noteq> FILL_KEY"
    by (simp_all add: REQUEST_KEY_def MISMATCH_KEY_def FILL_KEY_def)
  show "meta j' MISMATCH_KEY = meta j MISMATCH_KEY" "meta j' FILL_KEY = meta j FILL_KEY"
    using write_mark_opt_frame(4) [OF w] k by (auto simp: eq_commute)
  have "marked ?j = marked j" by (rule marked_cong) simp
  then show "marked j' \<subseteq> marked j \<union> named m" using marked_write [OF w] by simp
qed

lemma save_marked_Inr:
  assumes "save_marked a m j = Inr j'"
  shows "txs j' = txs j" "\<forall>k \<in> GUARDED - {SWEEP_ATTEMPT_KEY}. meta j' k = meta j k"
    "meta j' SWEEP_ATTEMPT_KEY = Some (Json (encode_attempt a))" "marked j' \<subseteq> marked j \<union> named m"
proof -
  let ?j = "meta_put SWEEP_ATTEMPT_KEY (Json (encode_attempt a)) j"
  have w: "write_mark_opt m ?j = Inr j'"
    using assms by (auto simp: save_marked_def save_def result_simps)
  note fr = write_mark_opt_frame [OF w]
  show "txs j' = txs j" "\<forall>k \<in> GUARDED - {SWEEP_ATTEMPT_KEY}. meta j' k = meta j k"
    "meta j' SWEEP_ATTEMPT_KEY = Some (Json (encode_attempt a))"
    using fr by (auto simp: GUARDED_def)
  have "marked ?j = marked j" by (rule marked_cong) simp
  then show "marked j' \<subseteq> marked j \<union> named m" using marked_write [OF w] by simp
qed

lemma save_is_marked: "save a j = save_marked a None j"
  by (simp add: save_marked_def save_def write_mark_opt_def ensure_def)

lemma set_meta_marked_Inr:
  assumes "set_meta_marked FILL_KEY v m j = Inr j'"
  shows "txs j' = txs j" "\<forall>k \<in> GUARDED - {FILL_KEY}. meta j' k = meta j k"
    "meta j' FILL_KEY = Some v" "marked j' \<subseteq> marked j \<union> named m"
proof -
  have w: "write_mark_opt m (meta_put FILL_KEY v j) = Inr j'" using assms by (simp add: set_meta_marked_def)
  note fr = write_mark_opt_frame [OF w]
  show "txs j' = txs j" "\<forall>k \<in> GUARDED - {FILL_KEY}. meta j' k = meta j k" "meta j' FILL_KEY = Some v"
    using fr by (auto simp: GUARDED_def)
  have "marked (meta_put FILL_KEY v j) = marked j" by (rule marked_cong) simp
  then show "marked j' \<subseteq> marked j \<union> named m" using marked_write [OF w] by simp
qed

lemma rebroadcast_hashes:
  "ts \<noteq> [] \<Longrightarrow> sg_hash ` set (butlast ts @ [(last ts)\<lparr>sg_broadcast := b\<rparr>]) = sg_hash ` set ts"
  "ts \<noteq> [] \<Longrightarrow> sg_raw ` set (butlast ts @ [(last ts)\<lparr>sg_broadcast := b\<rparr>]) = sg_raw ` set ts"
  "ts \<noteq> [] \<Longrightarrow> length (butlast ts @ [(last ts)\<lparr>sg_broadcast := b\<rparr>]) = length ts"
  by (cases ts rule: rev_cases; simp)+

lemma lane_step_fits:
  assumes "lane_step hn w s s'" and "hash_commits hn w" and "fits hn (wk_journal s)"
  shows "fits hn (wk_journal s')"
  using assms(1,3)
proof (cases rule: lane_step.cases)
  case (books j)
  then show ?thesis using fits_calm assms(3) by simp
next
  case (broadcasts i t)
  then show ?thesis using fits_broadcast assms(3) by simp
next
  case (submits a)
  then show ?thesis using fits_submit assms(3) by simp
next
  case (signs p to hb job t a m j k ms)
  have "hn (fst hb) = pl_nonce p" by (rule hash_commitsD [OF assms(2) signs(4)])
  then have "nonce a = int (hn (tx_hash a)) \<and> nonce a \<le> i64_max" using attempt_of_Inr [OF signs(5)] by simp
  moreover have "marked j \<subseteq> marked (wk_journal s)"
    using marked_signed [OF signs(8)] signs_with_named [OF signs(6)] by simp
  ultimately show ?thesis
    using fits_enter [OF assms(3) _ signs(7) signed_lane [OF signs(8)]] signs(1) by simp
next
  case (settles n m job st j states)
  show ?thesis
    using fits_settle [OF assms(3) settles(2,4) resolved_lane [OF settles(5)] marked_resolved [OF settles(5)]] settles(1)
    by simp
next
  case (sweep_starts m p a tx to v j)
  note g = start_marked_guards [OF sweep_starts(10)]
  have "hn (sg_hash tx) = sa_nonce a" using hash_commitsD [OF assms(2) sweep_starts(7)] sweep_starts(8) by simp
  moreover have "marked j \<subseteq> marked (wk_journal s)" using g(3) signs_with_named [OF sweep_starts(4)] by simp
  ultimately show ?thesis
    using fits_sweep_start [OF assms(3) sweep_starts(3,10) _ g(1,2) sweep_starts(9)] sweep_starts(1,6)
    by (simp add: MAX_ATTEMPTS_def)
next
  case (sweep_cancels a m p tx j)
  note g = save_marked_Inr [OF sweep_cancels(9)] and pr = sweep_present [OF assms(3) sweep_cancels(3)]
  have "hn (sg_hash tx) = sa_nonce a" using hash_commitsD [OF assms(2) sweep_cancels(6)] sweep_cancels(7) by simp
  then have h: "\<forall>h \<in> sg_hash ` set (sa_txs (a\<lparr>sa_txs := sa_txs a @ [tx]\<rparr>)). hn h = sa_nonce a" using pr(4) by auto
  have "marked j \<subseteq> marked (wk_journal s)" using g(4) signs_with_named [OF sweep_cancels(4)] by simp
  then have "fits hn j"
    using fits_sweep_put [OF assms(3) sweep_cancels(3) _ _ h g(1,2,3)] sweep_cancels(8) by simp
  then show ?thesis using sweep_cancels(1) by simp
next
  case (sweep_broadcasts a t j)
  note g = save_marked_Inr [OF sweep_broadcasts(4) [unfolded save_is_marked]] and pr = sweep_present [OF assms(3) sweep_broadcasts(2)]
  have "marked j \<subseteq> marked (wk_journal s)" using g(4) by (simp add: named_def)
  moreover let ?a = "a\<lparr>sa_txs := butlast (sa_txs a) @ [(last (sa_txs a))\<lparr>sg_broadcast := t\<rparr>]\<rparr>"
  have e: "sa_txs ?a = butlast (sa_txs a) @ [(last (sa_txs a))\<lparr>sg_broadcast := t\<rparr>]" "sa_nonce ?a = sa_nonce a" by simp_all
  have "length (sa_txs ?a) \<le> MAX_ATTEMPTS" "\<forall>h \<in> sg_hash ` set (sa_txs ?a). hn h = sa_nonce a"
    unfolding e(1) rebroadcast_hashes [OF sweep_broadcasts(3)] using pr(3,4) by auto
  ultimately have "fits hn j" using fits_sweep_put [OF assms(3) sweep_broadcasts(2) e(2) _ _ g(1,2,3)] by blast
  then show ?thesis using sweep_broadcasts(1) by simp
next
  case (sweep_ends a m c j)
  then show ?thesis using fits_sweep_end [OF assms(3)] by simp
next
  case (consumes n m ms j)
  then show ?thesis using fits_consumes [OF assms(3)] by simp
next
  case (reopens n t now j)
  then show ?thesis using fits_reopen [OF assms(3)] by simp
next
  case (fills n f b)
  then show ?thesis using fits_fill [OF assms(3)] by simp
next
  case (fill_signs f m p tx j)
  note g = set_meta_marked_Inr [OF fill_signs(9)] and pr = fill_present [OF assms(3) fill_signs(3)]
  have "hn (sg_hash tx) = fi_nonce f" using hash_commitsD [OF assms(2) fill_signs(6)] fill_signs(7) by simp
  then have h: "\<forall>h \<in> set (fi_known (f\<lparr>fi_txs := fi_txs f @ [tx]\<rparr>))
      \<union> sg_hash ` set (fi_txs (f\<lparr>fi_txs := fi_txs f @ [tx]\<rparr>)). hn h = fi_nonce f" using pr(4) by auto
  have "marked j \<subseteq> marked (wk_journal s)" using g(4) signs_with_named [OF fill_signs(4)] by simp
  then have "fits hn j"
    using fits_fill_put [OF assms(3) fill_signs(3) _ _ h g(1,2,3)] fill_signs(8) by simp
  then show ?thesis using fill_signs(1) by simp
next
  case (fill_broadcasts f f' t)
  note pr = fill_present [OF assms(3) fill_broadcasts(2)]
  have "set_meta_marked FILL_KEY (Json (encode_fill f')) None (wk_journal s)
      = Inr (set_meta FILL_KEY (Json (encode_fill f')) (wk_journal s))"
    by (simp add: set_meta_marked_def set_meta_def write_mark_opt_def)
  note g = set_meta_marked_Inr [OF this]
  have "marked (set_meta FILL_KEY (Json (encode_fill f')) (wk_journal s)) \<subseteq> marked (wk_journal s)"
    using g(4) by (simp add: named_def)
  moreover have e: "fi_txs f' = butlast (fi_txs f) @ [(last (fi_txs f))\<lparr>sg_broadcast := t\<rparr>]"
    "fi_nonce f' = fi_nonce f" "fi_known f' = fi_known f" by (simp_all add: fill_broadcasts(4))
  have "length (fi_txs f') \<le> FILL_ATTEMPTS" "\<forall>h \<in> set (fi_known f') \<union> sg_hash ` set (fi_txs f'). hn h = fi_nonce f"
    unfolding e rebroadcast_hashes [OF fill_broadcasts(3)] using pr(3,4) by auto
  ultimately have "fits hn (set_meta FILL_KEY (Json (encode_fill f')) (wk_journal s))"
    using fits_fill_put [OF assms(3) fill_broadcasts(2) e(2) _ _ g(1,2,3)] by blast
  then show ?thesis using fill_broadcasts(1) by simp
next
  case (fill_ends f m hs j)
  then show ?thesis using fits_fill_end [OF assms(3)] by simp
next
  case unparks
  then show ?thesis
    using fits_unpark [OF assms(3) unparks(2)] idle_lane(2) [OF assms(3) unparks(2)] by (simp add: unpark_lanes_def)
next
  case (clears summary j)
  then show ?thesis using fits_clear [OF assms(3)] by simp
qed (use assms(3) in simp_all)

section \<open>What happens to the rows\<close>

definition terms_of :: "attempt \<Rightarrow> int \<times> string \<times> string \<times> int \<times> string \<times> string \<times> string" where
  "terms_of t = (nonce t, tx_hash t, raw t, gas t, fee t, priority t, payload t)"

definition capped :: "world \<Rightarrow> attempt \<Rightarrow> bool" where
  "capped w t = (\<exists>p. plan_over_budget w p = None \<and> nonce t = int (pl_nonce p) \<and> gas t = int (pl_gas p)
     \<and> fee t = show_nat (pl_fee p) \<and> priority t = show_nat (pl_priority p))"

text \<open>Rows are kept with what was signed; one becomes resolved only on evidence, and one that is added was
  signed within the caps by a keeper that may send.\<close>

definition rows_kept :: "(string \<Rightarrow> nat) \<Rightarrow> world \<Rightarrow> attempt list \<Rightarrow> attempt list \<Rightarrow> bool" where
  "rows_kept hn w ts ts' = (\<exists>g. ts' = map g ts \<and> (\<forall>t. terms_of (g t) = terms_of t
     \<and> (tx_state (g t) = ''resolved'' \<longrightarrow> tx_state t = ''resolved'' \<or> evidence_for hn w (nonce t))))"

definition row_added :: "world \<Rightarrow> worker \<Rightarrow> worker \<Rightarrow> bool" where
  "row_added w s s' = (\<exists>a. txs (wk_journal s') = txs (wk_journal s) @ [a] \<and> tx_state a = ''signed''
     \<and> capped w a \<and> \<not> sending_halted w s)"

lemma rows_kept_refl [simp]: "rows_kept hn w ts ts"
  unfolding rows_kept_def by (rule exI [of _ id]) simp

lemma rows_kept_upd:
  assumes "\<And>t. P t \<Longrightarrow> terms_of (f t) = terms_of t
     \<and> (tx_state (f t) = ''resolved'' \<longrightarrow> tx_state t = ''resolved'' \<or> evidence_for hn w (nonce t))"
  shows "rows_kept hn w ts (upd_where P f ts)"
  unfolding rows_kept_def upd_where_def by (rule exI [of _ "\<lambda>t. if P t then f t else t"]) (simp add: assms)

lemma rows_kept_unpark: "rows_kept hn w ts (unpark ts)"
  unfolding unpark_def by (rule rows_kept_upd) (auto simp: terms_of_def is_parked_def)

lemma lane_step_rows:
  assumes "lane_step hn w s s'"
  shows "rows_kept hn w (txs (wk_journal s)) (txs (wk_journal s')) \<or> row_added w s s'"
  using assms
proof (cases rule: lane_step.cases)
  case (books j)
  then show ?thesis by (simp add: calm_def)
next
  case (broadcasts i t)
  then show ?thesis by (simp add: broadcast_attempt_def) (simp add: rows_kept_upd terms_of_def)
next
  case (submits a)
  then show ?thesis by (simp add: set_tx_state_def) (simp add: rows_kept_upd terms_of_def)
next
  case (signs p to hb job t a m j k ms)
  have "capped w (a\<lparr>tx_id := i, tx_state := st, broadcast := b\<rparr>)" for i st b
    unfolding capped_def using attempt_of_Inr [OF signs(5)] signs(3) by auto
  then have "row_added w s s'"
    using enter_nonces(7) [OF signed_lane [OF signs(8)]] signs(1,2) by (simp add: row_added_def)
  then show ?thesis ..
next
  case (settles n m job st j states)
  have "rows_kept hn w ts (upd_where (\<lambda>t. nonce t = n) (\<lambda>t. t\<lparr>tx_state := ''resolved''\<rparr>) ts)" for ts
    by (rule rows_kept_upd) (use settles(3) in \<open>simp add: terms_of_def\<close>)
  then show ?thesis using settle_nonces(4) [OF resolved_lane [OF settles(5)]] settles(1) by simp
next
  case (sweep_starts m p a tx to v j)
  then show ?thesis using start_marked_Inr by simp
next
  case (sweep_cancels a m p tx j)
  then show ?thesis using save_marked_Inr(1) by simp
next
  case (sweep_broadcasts a t j)
  then show ?thesis using save_marked_Inr(1) by (simp add: save_is_marked)
next
  case (sweep_ends a m c j)
  obtain j1 where "write_mark_opt m (wk_journal s) = Inr j1"
    "j = raise_floor (int (sa_nonce a) + 1) (record_outcome c (meta_delete (\<lambda>k. k = SWEEP_ATTEMPT_KEY) j1))"
    by (rule finish_marked_Inr [OF sweep_ends(5)])
  then show ?thesis using sweep_ends(1) write_mark_opt_frame(2) [of m "wk_journal s" j1] by (simp add: record_outcome_def)
next
  case (consumes n m ms j)
  then show ?thesis using replace_marks_rest by simp
next
  case (reopens n t now j)
  have "reopen_rows (int n) (int t) now (sort_key tx_id (filter (\<lambda>x. nonce x = int n) (txs (wk_journal s)))) (wk_journal s) = Inr j"
    using reopens(4) by (rule reopen_lane_cases) simp_all
  then have "txs j = map (reopened_attempt (int n) (int t)) (txs (wk_journal s))"
    using reopen_rows_Inr reopened_txs by metis
  moreover have "rows_kept hn w ts (map (reopened_attempt (int n) (int t)) ts)" for ts
    unfolding rows_kept_def
    by (rule exI [of _ "reopened_attempt (int n) (int t)"])
       (simp add: reopened_attempt_def terms_of_def parked_state_def)
  ultimately show ?thesis using reopens(1) by simp
next
  case (fills n f b)
  then show ?thesis
    by (simp add: begin_fill_def park_def) (simp add: rows_kept_upd terms_of_def parked_state_def)
next
  case (fill_signs f m p tx j)
  then show ?thesis using set_meta_marked_Inr(1) by simp
next
  case (fill_broadcasts f f' t)
  then show ?thesis by (simp add: set_meta_def)
next
  case (fill_ends f m hs j)
  obtain j1 j2 where "delete_nonce_marks (int (fi_nonce f)) hs (wk_journal s) = Inr j1" "write_mark_opt m j1 = Inr j2"
    "j = meta_delete (\<lambda>k. k = FILL_KEY) j2"
    using fill_ends(5) unfolding settle_fill_def bindR_Inr_iff sum.inject by blast
  then show ?thesis
    using fill_ends(1) delete_nonce_marks_frame write_mark_opt_frame(2) by simp
next
  case unparks
  then show ?thesis using rows_kept_unpark by (simp add: unpark_lanes_def)
next
  case (clears summary j)
  obtain found j1 where j1: "(case found of None \<Rightarrow> Inr (wk_journal s) | Some m \<Rightarrow> drop_named_record m (wk_journal s)) = Inr j1"
    and j: "j = meta_put LAST_RECOVERY_KEY (Json summary) (meta_delete incident_key (j1\<lparr>txs := unpark (txs j1)\<rparr>))"
    using clears(3) unfolding clear_finality_incident_def bindR_Inr_iff sum.inject by blast
  have "txs j1 = txs (wk_journal s)" using j1 by (cases found) (auto dest: drop_named_record_frame)
  then have "txs j = unpark (txs (wk_journal s))" by (simp add: j)
  then show ?thesis using clears(1) rows_kept_unpark by simp
qed simp_all

end
