(* ===== verification/Ticks.thy ===== *)
theory Ticks
  imports Soundness
begin

text \<open>
  The code of a tick as runs of the machine (\<open>Machine\<close>): reconciliation, the sweep and a step of the recovery go
  through steps of \<open>lane_step\<close> alone, whatever the world answers and wherever they stop. What holds of
  every run (\<open>Soundness\<close>) so holds of the code.
\<close>

section \<open>Code that touches nothing guarded\<close>

inductive easy_step :: "worker \<Rightarrow> worker \<Rightarrow> bool" where
  "easy_step s (s\<lparr>wk_moment := m, wk_upgraded := u\<rparr>)"
| "easy_step s (s\<lparr>wk_recovery_lane := b, wk_stats := x\<rparr>)"
| "calm (wk_journal s) j \<Longrightarrow> easy_step s (s\<lparr>wk_journal := j\<rparr>)"

definition easy :: "'a tick \<Rightarrow> bool" where
  "easy p = (\<forall>s. rtranclp easy_step s (snd (p s)))"

named_theorems easing

lemma easy_step_lane: "easy_step s t \<Longrightarrow> lane_step hn w s t"
  by (erule easy_step.cases) (auto intro: lane_step.intros)

lemma easy_run: "easy p \<Longrightarrow> rtranclp (lane_step hn w) s (snd (p s))"
  unfolding easy_def by (metis easy_step_lane mono_rtranclp)

lemma easy_bindP [easing]:
  assumes "easy m" and "\<And>a. easy (f a)"
  shows "easy (bindP m f)"
  unfolding easy_def
proof
  fix s
  obtain r t where t: "m s = (r, t)" by (cases "m s")
  have st: "rtranclp easy_step s t" using assms(1) t unfolding easy_def by (metis snd_conv)
  show "rtranclp easy_step s (snd (bindP m f s))"
  proof (cases r)
    case (Inr a)
    have "rtranclp easy_step t (snd (f a t))" using assms(2) by (simp add: easy_def)
    then show ?thesis using st Inr t by (auto simp: bindP_def)
  qed (use st t in \<open>simp add: bindP_def\<close>)
qed

lemma easy_still [easing]: "easy (pureP a)" "easy (failP e)" "easy (readP r)" "easy (readRP q)" "easy (liftP x)"
  by (simp_all add: easy_def prog_defs)

lemma easy_on_journal [easing]:
  "easy (on_journal (readP r))" "easy (on_journal (readRP q))" "easy (on_journal (pureP a))"
  "(\<And>j. calm j (f j)) \<Longrightarrow> easy (on_journal (execP f))"
  "(\<And>j j'. t j = Inr j' \<Longrightarrow> calm j j') \<Longrightarrow> easy (on_journal (txP t))"
  "(\<And>j a j'. v j = Inr (a, j') \<Longrightarrow> calm j j') \<Longrightarrow> easy (on_journal (txvP v))"
  by (auto simp: easy_def on_journal_def prog_defs split: sum.splits intro!: r_into_rtranclp easy_step.intros(3))

lemma easy_ask [easing]: "easy (ask f)" "easy (askR g)"
proof -
  show a: "easy (ask f)" for f :: "nat \<Rightarrow> 'x"
    unfolding easy_def ask_def
  proof
    fix s :: worker
    have "easy_step s (s\<lparr>wk_moment := Suc (wk_moment s), wk_upgraded := wk_upgraded s\<rparr>)" by (rule easy_step.intros)
    then show "easy_step\<^sup>*\<^sup>* s (snd (Inr (f (wk_moment s)), s\<lparr>wk_moment := Suc (wk_moment s)\<rparr>))" by (simp add: r_into_rtranclp)
  qed
  show "easy (askR g)" unfolding askR_def by (intro easing a)
qed

lemma easy_tryP [easing]: "easy p \<Longrightarrow> easy (tryP p)"
  by (simp add: easy_def tryP_def)

lemma easy_eachP [easing]: "(\<And>x. x \<in> set xs \<Longrightarrow> easy (f x)) \<Longrightarrow> easy (eachP f xs)"
  by (induction xs) (auto intro: easing)

lemma easy_mapP [easing]: "(\<And>x. x \<in> set xs \<Longrightarrow> easy (f x)) \<Longrightarrow> easy (mapP f xs)"
  by (induction xs) (auto intro!: easing)

lemma easy_if [easing]: "(c \<Longrightarrow> easy p) \<Longrightarrow> (\<not> c \<Longrightarrow> easy q) \<Longrightarrow> easy (if c then p else q)"
  by simp

lemma easy_option [easing]:
  "(x = None \<Longrightarrow> easy p) \<Longrightarrow> (\<And>a. x = Some a \<Longrightarrow> easy (f a)) \<Longrightarrow> easy (case x of None \<Rightarrow> p | Some a \<Rightarrow> f a)"
  by (cases x) auto

lemma easy_pair [easing]: "(\<And>a b. x = (a, b) \<Longrightarrow> easy (f a b)) \<Longrightarrow> easy (case x of (a, b) \<Rightarrow> f a b)"
  by (cases x) auto

lemma easy_sum [easing]:
  "(\<And>a. x = Inl a \<Longrightarrow> easy (p a)) \<Longrightarrow> (\<And>b. x = Inr b \<Longrightarrow> easy (q b)) \<Longrightarrow> easy (case x of Inl a \<Rightarrow> p a | Inr b \<Rightarrow> q b)"
  by (cases x) auto

lemma easy_answer [easing]:
  "(\<And>a. x = Answered a \<Longrightarrow> easy (p a)) \<Longrightarrow> (x = Refused \<Longrightarrow> easy q) \<Longrightarrow> (\<And>e. x = Undelivered e \<Longrightarrow> easy (r e)) \<Longrightarrow>
   easy (case x of Answered a \<Rightarrow> p a | Refused \<Rightarrow> q | Undelivered e \<Rightarrow> r e)"
  by (cases x) auto

lemma easy_kind [easing]: "easy p \<Longrightarrow> easy q \<Longrightarrow> easy (case k of Epoch \<Rightarrow> p | Round \<Rightarrow> q)"
  by (cases k) auto

lemma easy_let [easing]: "(\<And>x. x = e \<Longrightarrow> easy (f x)) \<Longrightarrow> easy (let x = e in f x)"
  by simp

text \<open>What such code leaves as it was.\<close>

definition tracked :: "(worker \<Rightarrow> bool) \<Rightarrow> bool" where
  "tracked P = (\<forall>s t. easy_step s t \<longrightarrow> P s \<longrightarrow> P t)"

lemma does_easy:
  assumes "easy p" and "tracked P"
  shows "does (lane_step hn w) P p (\<lambda>_. P)"
proof (rule doesI)
  fix s assume P: "P s"
  have "P t" if "rtranclp easy_step s t" for t
    using that P assms(2) by (induction rule: rtranclp_induct) (auto simp: tracked_def)
  then show "rtranclp (lane_step hn w) s (snd (p s)) \<and> (\<forall>a. fst (p s) = Inr a \<longrightarrow> P (snd (p s)))"
    using easy_run [OF assms(1)] assms(1) by (simp add: easy_def)
qed

text \<open>The same, with what the result says.\<close>

lemma does_result:
  assumes "does R P p Q" and "\<And>s a. P s \<Longrightarrow> fst (p s) = Inr a \<Longrightarrow> V a"
  shows "does R P p (\<lambda>a s. Q a s \<and> V a)"
  using assms by (simp add: does_def)

lemma tracked_conj [intro]: "tracked P \<Longrightarrow> tracked Q \<Longrightarrow> tracked (\<lambda>s. P s \<and> Q s)"
  by (simp add: tracked_def)

lemma tracked_disj [intro]: "tracked P \<Longrightarrow> tracked Q \<Longrightarrow> tracked (\<lambda>s. P s \<or> Q s)"
  by (auto simp: tracked_def)

lemma tracked_const [intro, simp]: "tracked (\<lambda>_. c)"
  by (simp add: tracked_def)

lemma tracked_journal:
  "(\<And>j j'. calm j j' \<Longrightarrow> Q j \<Longrightarrow> Q j') \<Longrightarrow> tracked (\<lambda>s. Q (wk_journal s))"
  unfolding tracked_def by (auto elim!: easy_step.cases)

lemma tracked_guarded:
  "tracked (\<lambda>s. n \<in> lane_nonces (wk_journal s))"
  "tracked (\<lambda>s. fits hn (wk_journal s))"
  "k \<in> GUARDED \<Longrightarrow> tracked (\<lambda>s. Q (meta (wk_journal s) k))"
  "tracked (\<lambda>s. F (floor_value (wk_journal s)))"
  "tracked (\<lambda>s. \<not> sending_halted w s)"
  "tracked (\<lambda>s. T (txs (wk_journal s)))"
proof -
  show "tracked (\<lambda>s. n \<in> lane_nonces (wk_journal s))"
    by (rule tracked_journal) (simp add: calm_def lane_nonces_def)
  show "tracked (\<lambda>s. fits hn (wk_journal s))" by (rule tracked_journal) (rule fits_calm)
  show "k \<in> GUARDED \<Longrightarrow> tracked (\<lambda>s. Q (meta (wk_journal s) k))"
    by (rule tracked_journal) (simp add: calm_def)
  show "tracked (\<lambda>s. F (floor_value (wk_journal s)))"
    by (rule tracked_journal) (simp add: calm_def GUARDED_def floor_value_def)
  show "tracked (\<lambda>s. \<not> sending_halted w s)"
    unfolding tracked_def by (auto elim!: easy_step.cases simp: sending_halted_def)
  show "tracked (\<lambda>s. T (txs (wk_journal s)))" by (rule tracked_journal) (simp add: calm_def)
qed

section \<open>The worker's bookkeeping\<close>

lemma calm_refl [simp, intro]: "calm j j"
  by (simp add: calm_def)

lemma calm_trans: "calm i j \<Longrightarrow> calm j k \<Longrightarrow> calm i k"
  by (auto simp: calm_def)

lemma calm_bookkeeping: "bookkeeping j j' \<Longrightarrow> calm j j'"
  using marked_cong [of j' j] bookkeepingD [of j j']
  by (simp add: calm_def GUARDED_def MISMATCH_KEY_def FILL_KEY_def)

lemma GUARDED_dropped [simp]: "k \<in> GUARDED \<Longrightarrow> k \<noteq> ''audit:dropped''"
  by (auto simp: GUARDED_def NONCE_FLOOR_KEY_def SWEEP_ATTEMPT_KEY_def FILL_KEY_def MISMATCH_KEY_def)

lemma calm_meta:
  "k \<notin> GUARDED \<Longrightarrow> calm j (meta_put k v j)" "k \<notin> GUARDED \<Longrightarrow> calm j (fst (meta_insert k v j))"
  "(\<And>k. k \<in> GUARDED \<Longrightarrow> \<not> P k) \<Longrightarrow> calm j (meta_delete P j)"
proof -
  show p: "k \<notin> GUARDED \<Longrightarrow> calm j (meta_put k v j)" for k v j
    using marked_cong [of "meta_put k v j" j] by (auto simp: calm_def)
  show "k \<notin> GUARDED \<Longrightarrow> calm j (fst (meta_insert k v j))" by (simp add: meta_insert_def p)
  show "(\<And>k. k \<in> GUARDED \<Longrightarrow> \<not> P k) \<Longrightarrow> calm j (meta_delete P j)"
    using marked_cong [of "meta_delete P j" j] by (auto simp: calm_def)
qed

lemma blocked_key_free: "blocked_key x \<notin> GUARDED" "nonce_started_key n \<notin> GUARDED" "HEALTH_REJECTION \<notin> GUARDED"
  "''keeper:low_funds'' \<notin> GUARDED"
  by (auto simp: GUARDED_def blocked_key_def BLOCKED_def nonce_started_key_def HEALTH_REJECTION_def
      NONCE_FLOOR_KEY_def SWEEP_ATTEMPT_KEY_def FILL_KEY_def MISMATCH_KEY_def)

lemma calm_health:
  "calm j (blocked x n j)" "calm j (recovered x j)" "calm j (rejection r j)" "calm j (clear_rejection j)"
  "calm j (callback_failed i j)" "calm j (members_state k st j)" "calm j (set_state k st j)"
proof -
  show "calm j (blocked x n j)" "calm j (recovered x j)" "calm j (rejection r j)" "calm j (clear_rejection j)"
    unfolding blocked_def recovered_def rejection_def clear_rejection_def
    using blocked_key_free by (auto intro!: calm_meta)
  show "calm j (callback_failed i j)" "calm j (members_state k st j)" "calm j (set_state k st j)"
    unfolding callback_failed_def members_state_def set_state_def by (auto intro: calm_bookkeeping)
qed

lemma calm_receipt: "finalized_receipt h n b st j = Inr j' \<Longrightarrow> calm j j'"
proof -
  assume "finalized_receipt h n b st j = Inr j'"
  then obtain rows where c: "checkpoint FINALIZED_CHECKPOINT n b (j\<lparr>finalized_receipts := rows\<rparr>) = Inr j'"
    unfolding finalized_receipt_def Let_def bindR_Inr_iff ensure_Inr_iff by blast
  have "j' = j\<lparr>finalized_receipts := rows\<rparr>
      \<or> j' = meta_put (cp_key FINALIZED_CHECKPOINT) (encode_block n b) (j\<lparr>finalized_receipts := rows\<rparr>)"
    using c by (auto simp: checkpoint_def result_simps split: option.splits if_splits)
  moreover have "calm j (j\<lparr>finalized_receipts := rows\<rparr>)"
    using marked_cong [of "j\<lparr>finalized_receipts := rows\<rparr>" j] by (simp add: calm_def)
  moreover have "cp_key FINALIZED_CHECKPOINT \<notin> GUARDED"
    by (auto simp: GUARDED_def FINALIZED_CHECKPOINT_def NONCE_FLOOR_KEY_def SWEEP_ATTEMPT_KEY_def FILL_KEY_def MISMATCH_KEY_def)
  ultimately show ?thesis by (auto intro: calm_trans calm_meta(1))
qed

lemma calm_moved: "request_moved i a now j = Inr j' \<Longrightarrow> calm j j'"
  by (rule calm_bookkeeping [OF request_moved_bookkeeping])

lemma calm_epoch_state: "put_epoch_state k st j = Inr j' \<Longrightarrow> calm j j'"
  using marked_cong [of j' j] by (auto simp: put_epoch_state_def result_simps calm_def)

lemmas calms = calm_health calm_meta calm_receipt calm_moved calm_epoch_state blocked_key_free

lemma easy_reads [easing]:
  "easy (current_decision_tag w)" "easy (decision_nonce w h)" "easy (parse_id w i)" "easy (epoch_reads w)"
  "easy (request w n)" "easy (request_at w n k)" "easy (requests_in w ids tag)" "easy (round_request_tagged w n tag)"
  "easy (round_requests_in w ids tag)" "easy (status_at w n k)" "easy (statuses_in w ids tag)"
  "easy (current_status w i)" "easy (current_status_at w i h)" "easy (member_statuses w ms)"
  "easy (member_statuses_at w ms h)" "easy (next_request_id_at w k)" "easy (deadline_at w n k)"
  unfolding current_decision_tag_def decision_nonce_def parse_id_def epoch_reads_def request_def request_at_def
    requests_in_def round_request_tagged_def round_requests_in_def status_at_def statuses_in_def current_status_def
    current_status_at_def member_statuses_def member_statuses_at_def next_request_id_at_def deadline_at_def
  by (intro easing)+

lemma easy_gates [easing]:
  "easy (ensure_not_halted w)" "easy (ensure_lane_sends w)" "easy ensure_not_upgraded" "easy (verify_runtime w)"
proof -
  show u: "easy ensure_not_upgraded" unfolding ensure_not_upgraded_def by (intro easing)
  show "easy (ensure_not_halted w)" "easy (ensure_lane_sends w)"
    unfolding ensure_not_halted_def ensure_lane_sends_def by (intro easing)+
  have x: "easy (execP (\<lambda>s. s\<lparr>wk_upgraded := True\<rparr>))"
    unfolding easy_def execP_def
  proof
    fix s :: worker
    have "easy_step s (s\<lparr>wk_moment := wk_moment s, wk_upgraded := True\<rparr>)" by (rule easy_step.intros)
    then show "easy_step\<^sup>*\<^sup>* s (snd (Inr (), s\<lparr>wk_upgraded := True\<rparr>))" by (simp add: r_into_rtranclp)
  qed
  have "easy (case p of Pins_Hold \<Rightarrow> pureP ()
      | Pins_Approved \<Rightarrow> bindP (execP (\<lambda>s. s\<lparr>wk_upgraded := True\<rparr>)) (\<lambda>_. failP (Bail ''approved upgrade''))
      | Pins_Failed e \<Rightarrow> failP e)" for p
    by (cases p) (auto intro!: easing x)
  then show "easy (verify_runtime w)" unfolding verify_runtime_def by (intro easing u)
qed

lemma easy_prices [easing]:
  "easy (defer_for_budget w)" "easy (priority_fee w)" "easy (cancel_gas w)" "easy (replacement_gas w k g)"
  "easy (parse_price t)" "easy (note_low_funds x n)" "easy (funds_short w n)"
proof -
  show c: "easy (cancel_gas w)" unfolding cancel_gas_def by (intro easing)
  show n: "easy (note_low_funds x n)" for x
    unfolding note_low_funds_def set_meta_def by (intro easing calms)
  show "easy (defer_for_budget w)" "easy (priority_fee w)" "easy (parse_price t)"
    unfolding defer_for_budget_def priority_fee_def parse_price_def by (intro easing calms)+
  show "easy (replacement_gas w k g)" unfolding replacement_gas_def by (intro easing c)
  show "easy (funds_short w n)" unfolding funds_short_def by (intro easing n)
qed

lemma easy_marks [easing]:
  "easy (receipt_mark w h r)" "easy (record_receipt w h r)" "easy (mark_at w k d x)" "easy (sign_mark w d h)"
  "easy (nonce_mark w d n)" "easy (lane_started w n)"
proof -
  show m: "easy (mark_at w k d x)" for k x unfolding mark_at_def by (intro easing)
  show r: "easy (receipt_mark w h r)" unfolding receipt_mark_def by (intro easing)
  show "easy (record_receipt w h r)" unfolding record_receipt_def by (intro easing r) (erule calm_receipt)
  show "easy (sign_mark w d h)" "easy (nonce_mark w d n)" unfolding sign_mark_def nonce_mark_def by (rule m)+
  show "easy (lane_started w n)" unfolding lane_started_def by (intro easing calms)
qed

section \<open>Reconciliation\<close>

lemma easy_epoch [easing]:
  "easy (epoch_lane_only w)" "easy (first_demand_head w e now ids)" "easy (epoch_demand_head w e now)" "easy (target_of w k)"
  "easy (epoch_over w task c h)" "easy (epoch_committed w e)"
proof -
  show l: "easy (epoch_lane_only w)" unfolding epoch_lane_only_def by (intro easing)
  have f: "easy (first_demand_head w e now ids)" for e now ids
  proof (induction ids)
    case (Cons i ids)
    show ?case unfolding first_demand_head.simps by (intro easing Cons)
  qed (simp add: easing)
  then show "easy (first_demand_head w e now ids)" .
  show d: "easy (epoch_demand_head w e now)" for e now unfolding epoch_demand_head_def by (intro easing f)
  show "easy (target_of w k)" unfolding target_of_def by (intro easing l)
  show "easy (epoch_over w task c h)" unfolding epoch_over_def by (intro easing d)
  show "easy (epoch_committed w e)" unfolding epoch_committed_def by (intro easing)
qed

lemma easy_moved [easing]:
  "easy (stale_among w c tag ps)" "easy (stale_round_requests w n h)" "easy (record_move w i r)" "easy (round_cancel_state w i)"
proof -
  have a: "easy (stale_among w c tag ps)" for c tag ps
  proof (induction ps)
    case (Cons p ps)
    show ?case unfolding stale_among.simps by (intro easing Cons)
  qed (simp add: easing)
  then show "easy (stale_among w c tag ps)" .
  show "easy (stale_round_requests w n h)" unfolding stale_round_requests_def by (intro easing a)
  show "easy (record_move w i r)" unfolding record_move_def by (intro easing) (erule calm_moved)
  show "easy (round_cancel_state w i)" unfolding round_cancel_state_def by (intro easing)
qed

lemma easy_receipts [easing]:
  "easy (first_receipt w h as)" "easy (receipt_settled w x c)" "easy (settled_from_any w h as)" "easy (note_callback i r)"
  "easy (settled_job_state w f a i r now st)" "easy (replacement_prices w p q h')" "easy (settle_members_at w b now st ps)"
  "easy (close_members now qs)"
proof -
  show "easy (first_receipt w h as)"
  proof (induction as)
    case (Cons a as)
    show ?case unfolding first_receipt.simps by (intro easing Cons)
  qed (simp add: easing)
  show r: "easy (receipt_settled w x c)" for x c unfolding receipt_settled_def by (intro easing)
  show "easy (settled_from_any w h as)" unfolding settled_from_any_def by (intro easing r)
  show n: "easy (note_callback i r)" for i r unfolding note_callback_def by (intro easing calms)
  show j: "easy (settled_job_state w f a i r now st)" for f a i r unfolding settled_job_state_def by (intro easing)
  show "easy (replacement_prices w p q h')" unfolding replacement_prices_def by (intro easing)
  show "easy (settle_members_at w b now st ps)"
  proof (induction ps)
    case (Cons p ps)
    show ?case unfolding settle_members_at.simps by (intro easing n j Cons)
  qed (simp add: easing)
  show "easy (close_members now qs)"
  proof (induction qs)
    case (Cons p ps)
    show ?case unfolding close_members.simps by (intro easing n Cons)
  qed (simp add: easing)
qed

lemma easy_worth [easing]: "easy (worth_sending w a at)"
  unfolding worth_sending_def by (intro easing)

section \<open>What a result says\<close>

definition gives :: "'a tick \<Rightarrow> ('a \<Rightarrow> bool) \<Rightarrow> bool" where
  "gives p V = (\<forall>s a. fst (p s) = Inr a \<longrightarrow> V a)"

lemma gives_bindP: "gives m U \<Longrightarrow> (\<And>a. U a \<Longrightarrow> gives (f a) V) \<Longrightarrow> gives (bindP m f) V"
  unfolding gives_def bindP_def by (auto split: prod.splits sum.splits) (metis fst_conv)

lemma gives_basic:
  "V a \<Longrightarrow> gives (pureP a) V" "gives (failP e) V" "gives p (\<lambda>_. True)" "(\<And>a. x = Inr a \<Longrightarrow> V a) \<Longrightarrow> gives (liftP x) V"
  "(\<And>m. V (f m)) \<Longrightarrow> gives (ask f) V"
  by (simp_all add: gives_def prog_defs ask_def)

lemma gives_lift: "gives (liftP x) (\<lambda>a. x = Inr a)"
  by (simp add: gives_def liftP_def)

lemma gives_askR: "(\<And>m a. f m = Inr a \<Longrightarrow> V a) \<Longrightarrow> gives (askR f) V"
  unfolding askR_def
  by (rule gives_bindP [where U = "\<lambda>x. \<exists>m. x = f m"]) (auto intro!: gives_basic)

lemma gives_mark_at: "gives (mark_at w k d x) (\<lambda>m. case m of None \<Rightarrow> True | Some y \<Rightarrow> mk_kind y = k \<and> mk_ref y = x)"
  unfolding mark_at_def by (auto intro!: gives_basic gives_bindP [OF gives_basic(3)])

lemma gives_sign_mark: "gives (sign_mark w d h) signs_with"
  using gives_mark_at [of w Sign d h] unfolding sign_mark_def gives_def by (auto simp: signs_with_def split: option.splits)

lemma gives_nonce_mark: "gives (nonce_mark w d n) (settles_with hn n)"
  using gives_mark_at [of w Nonce d "show_int n"] unfolding nonce_mark_def gives_def
  by (auto simp: settles_with_def split: option.splits)

lemma gives_receipt_mark:
  assumes "int (hn h) = n"
  shows "gives (receipt_mark w h r) (settles_with hn n)" "gives (record_receipt w h r) (settles_with hn n)"
proof -
  show r: "gives (receipt_mark w h r) (settles_with hn n)"
    unfolding receipt_mark_def using assms
    by (auto simp: settles_with_def intro!: gives_basic gives_bindP [OF gives_basic(3)])
  show "gives (record_receipt w h r) (settles_with hn n)"
    unfolding record_receipt_def by (rule gives_bindP [OF gives_basic(3)]) (rule r)
qed

lemma gives_settled: "gives (receipt_settled w h c) (\<lambda>ok. ok \<longrightarrow> (\<exists>m. w_settled w m h c = Inr True))"
  unfolding receipt_settled_def by (rule gives_askR) auto

lemma gives_first_receipt: "gives (first_receipt w h as) (\<lambda>x. \<forall>a c. x = Some (a, c) \<longrightarrow> a \<in> set as)"
proof (induction as)
  case (Cons b bs)
  show ?case
    unfolding first_receipt.simps
  proof (rule gives_bindP [OF gives_basic(3)])
    fix r show "gives (case r of Some c \<Rightarrow> pureP (Some (b, c)) | None \<Rightarrow> first_receipt w h bs)
        (\<lambda>x. \<forall>a c. x = Some (a, c) \<longrightarrow> a \<in> set (b # bs))"
      using Cons by (cases r) (auto simp: gives_def pureP_def)
  qed
qed (auto intro!: gives_basic)

lemma gives_any_receipt:
  "gives (settled_from_any w h as) (\<lambda>x. \<forall>a c. x = Some (a, c) \<longrightarrow> a \<in> set as \<and> (\<exists>m. w_settled w m (h a) c = Inr True))"
  unfolding settled_from_any_def
proof (rule gives_bindP [OF gives_basic(3)])
  fix found
  show "gives (case found of None \<Rightarrow> pureP None | Some (i, c) \<Rightarrow>
      if i < length as then bindP (receipt_settled w (h (as ! i)) c) (\<lambda>ok. pureP (if ok then Some (as ! i, c) else None))
      else failP (Bail ''index out of bounds''))
    (\<lambda>x. \<forall>a c. x = Some (a, c) \<longrightarrow> a \<in> set as \<and> (\<exists>m. w_settled w m (h a) c = Inr True))"
    by (auto split: option.splits if_splits intro!: gives_basic gives_bindP [OF gives_settled])
qed

lemma gives_decision_nonce: "gives (decision_nonce w h) (\<lambda>k. \<exists>m tag. w_nonce w m tag = Inr k)"
  unfolding decision_nonce_def by (rule gives_askR) auto

section \<open>Sequencing\<close>

lemma does_then:
  assumes "easy m" and "tracked P" and "\<And>a. does (lane_step hn w) P (f a) S"
  shows "does (lane_step hn w) P (bindP m f) S"
  by (rule does_bindP [OF does_easy [OF assms(1,2)] assms(3)])

lemma does_learn:
  assumes "easy m" and "tracked P" and "gives m V" and "\<And>a. V a \<Longrightarrow> does (lane_step hn w) P (f a) S"
  shows "does (lane_step hn w) P (bindP m f) S"
proof (rule does_bindP)
  show "does (lane_step hn w) P m (\<lambda>a s. P s \<and> V a)"
    using does_result [OF does_easy [OF assms(1,2)]] assms(3) by (simp add: gives_def)
  show "does (lane_step hn w) (\<lambda>s. P s \<and> V a) (f a) S" for a
    using assms(4) [of a] by (cases "V a") (simp_all add: does_def)
qed

lemma does_done: "easy p \<Longrightarrow> tracked P \<Longrightarrow> does (lane_step hn w) P p (\<lambda>_ _. True)"
  by (rule does_weaken [OF does_easy]) simp_all

lemma does_tx:
  "(\<And>s j. P s \<Longrightarrow> t (wk_journal s) = Inr j \<Longrightarrow> lane_step hn w s (s\<lparr>wk_journal := j\<rparr>) \<and> Q () (s\<lparr>wk_journal := j\<rparr>)) \<Longrightarrow>
   does (lane_step hn w) P (on_journal (txP t)) Q"
  unfolding does_def on_journal_def txP_def by (auto split: sum.splits)

lemma does_put:
  "(\<And>s. P s \<Longrightarrow> lane_step hn w s (s\<lparr>wk_journal := f (wk_journal s)\<rparr>) \<and> Q () (s\<lparr>wk_journal := f (wk_journal s)\<rparr>)) \<Longrightarrow>
   does (lane_step hn w) P (on_journal (execP f)) Q"
  unfolding does_def on_journal_def execP_def by auto

lemma does_not_halted:
  assumes "tracked P" and "does (lane_step hn w) (\<lambda>s. P s \<and> \<not> sending_halted w s) (f ()) S"
  shows "does (lane_step hn w) P (bindP (ensure_not_halted w) f) S"
proof (rule does_bindP)
  have "does (lane_step hn w) P (ensure_not_halted w) (\<lambda>_. P)" by (intro does_easy easing assms(1))
  then show "does (lane_step hn w) P (ensure_not_halted w) (\<lambda>_ s. P s \<and> \<not> sending_halted w s)"
    by (auto simp: does_def ensure_not_halted_def prog_defs)
qed (use assms(2) in simp)

section \<open>Signing and broadcasting\<close>

definition may_sign :: "int \<Rightarrow> worker \<Rightarrow> bool" where
  "may_sign n s = (n \<in> lane_nonces (wk_journal s)
     \<or> (meta (wk_journal s) MISMATCH_KEY = None \<and> floor_value (wk_journal s) \<le> n))"

lemma tracked_may_sign [intro, simp]: "tracked (may_sign n)"
proof -
  have "tracked (\<lambda>s. n \<in> lane_nonces (wk_journal s)
      \<or> (meta (wk_journal s) MISMATCH_KEY = None \<and> floor_value (wk_journal s) \<le> n))"
    by (intro tracked_disj tracked_conj tracked_guarded(1) tracked_guarded(3) [where Q = "\<lambda>x. x = None"]
        tracked_guarded(4) [where F = "\<lambda>f. f \<le> n"]) (simp add: GUARDED_def)
  then show ?thesis by (simp add: tracked_def may_sign_def)
qed

lemma tracked_may_sign_now [intro, simp]: "tracked (\<lambda>s. may_sign n s \<and> \<not> sending_halted w s)"
  by (intro tracked_conj tracked_may_sign tracked_guarded(5))

lemma does_sign:
  "does (lane_step hn w) (may_sign (int (pl_nonce p))) (sign_and_journal_members w job p now ms decided) (\<lambda>_ _. True)"
  unfolding sign_and_journal_members_def
proof (rule does_then [OF _ tracked_may_sign], intro easing,
    rule does_then [OF _ tracked_may_sign], intro easing, rule does_not_halted [OF tracked_may_sign],
    rule does_learn [OF _ tracked_may_sign_now, where V = "\<lambda>_. plan_over_budget w p = None"], intro easing,
    rule gives_basic, simp add: ensure_Inr_iff, rule does_then [OF _ tracked_may_sign_now], intro easing)
  fix to
  assume b: "plan_over_budget w p = None"
  show "does (lane_step hn w) (\<lambda>s. may_sign (int (pl_nonce p)) s \<and> \<not> sending_halted w s)
     (bindP (liftP (w_sign w p to 0)) (\<lambda>signed'. bindP (liftP (attempt_of job p now signed')) (\<lambda>a.
       bindP (sign_mark w decided (tx_hash a)) (\<lambda>m.
       bindP (on_journal (txP (if tx_kind a = ''fulfill_batch'' then signed_batch_marked (w_keccak_hex w) a ms m
                               else signed_marked a m))) (\<lambda>_.
       bindP (lane_started w (nonce a)) (\<lambda>_. on_journal (execP (recovered ''fee_budget''))))))))
     (\<lambda>_ _. True)"
  proof (rule does_learn [OF _ tracked_may_sign_now gives_lift], intro easing,
      rule does_learn [OF _ tracked_may_sign_now gives_lift], intro easing,
      rule does_learn [OF _ tracked_may_sign_now gives_sign_mark], intro easing)
    fix hb a m
    assume h: "w_sign w p to 0 = Inr hb" and a: "attempt_of job p now hb = Inr a" and m: "signs_with m"
    have n: "nonce a = int (pl_nonce p)" using attempt_of_Inr [OF a] by simp
    show "does (lane_step hn w) (\<lambda>s. may_sign (int (pl_nonce p)) s \<and> \<not> sending_halted w s)
       (bindP (on_journal (txP (if tx_kind a = ''fulfill_batch'' then signed_batch_marked (w_keccak_hex w) a ms m
                               else signed_marked a m))) (\<lambda>_.
       bindP (lane_started w (nonce a)) (\<lambda>_. on_journal (execP (recovered ''fee_budget''))))) (\<lambda>_ _. True)"
    proof (rule does_bindP [where Q = "\<lambda>_ _. True"], rule does_tx)
      fix s j
      assume P: "may_sign (int (pl_nonce p)) s \<and> \<not> sending_halted w s"
        and j: "(if tx_kind a = ''fulfill_batch'' then signed_batch_marked (w_keccak_hex w) a ms m
                 else signed_marked a m) (wk_journal s) = Inr j"
      have "signed_marked a m (wk_journal s) = Inr j \<or> signed_batch_marked (w_keccak_hex w) a ms m (wk_journal s) = Inr j"
        using j by (simp split: if_splits)
      then show "lane_step hn w s (s\<lparr>wk_journal := j\<rparr>) \<and> True"
        using P n by (auto simp: may_sign_def intro: lane_step.signs [OF _ b h a m])
    next
      show "does (lane_step hn w) (\<lambda>_. True)
         (bindP (lane_started w (nonce a)) (\<lambda>_. on_journal (execP (recovered ''fee_budget'')))) (\<lambda>_ _. True)"
        by (intro does_done easing tracked_const calms)
    qed
  qed
qed

lemma does_sign_and_journal:
  "does (lane_step hn w) (may_sign (int (pl_nonce p))) (sign_and_journal w job p now decided) (\<lambda>_ _. True)"
  unfolding sign_and_journal_def by (rule does_then [OF _ tracked_may_sign does_sign], intro easing)

lemma does_True: "does R P p (\<lambda>_ _. True) \<Longrightarrow> (\<And>a. does R (\<lambda>_. True) (f a) (\<lambda>_ _. True)) \<Longrightarrow> does R P (bindP p f) (\<lambda>_ _. True)"
  by (rule does_bindP)

lemma does_any: "easy p \<Longrightarrow> does (lane_step hn w) P p (\<lambda>_ _. True)"
  by (rule does_weaken [OF does_done [OF _ tracked_const [of True]]]) simp_all

lemma does_replace:
  "does (lane_step hn w) (may_sign (int (pl_nonce p))) (replace_within_budget w job p h) (\<lambda>_ _. True)"
  unfolding replace_within_budget_def
proof (rule does_then [OF _ tracked_may_sign], intro easing, rule does_if, rule does_any, intro easing,
    rule does_then [OF _ tracked_may_sign], intro easing)
  fix now :: "nat option"
  show "does (lane_step hn w) (may_sign (int (pl_nonce p)))
     (case now of None \<Rightarrow> pureP False | Some t \<Rightarrow> bindP (sign_and_journal w job p t h) (\<lambda>_. pureP True)) (\<lambda>_ _. True)"
  proof (cases now)
    case (Some t)
    show ?thesis unfolding Some option.simps
      by (rule does_True [OF does_sign_and_journal]) (intro does_any easing)
  qed (simp add: does_any easing)
qed

text \<open>An attempt of the lane with the bytes.\<close>

definition in_lane :: "attempt \<Rightarrow> journal \<Rightarrow> bool" where
  "in_lane a j = (\<exists>t \<in> set (txs j). active t \<and> tx_id t = tx_id a \<and> raw t = raw a)"

lemma in_lane_calm: "calm j j' \<Longrightarrow> in_lane a j \<Longrightarrow> in_lane a j'"
  by (simp add: in_lane_def calm_def)

lemma in_lane_broadcast:
  assumes "in_lane a j"
  shows "in_lane a (broadcast_attempt i now j)"
proof -
  obtain t where t: "t \<in> set (txs j)" "active t" "tx_id t = tx_id a" "raw t = raw a"
    using assms by (auto simp: in_lane_def)
  let ?f = "\<lambda>t. if tx_id t = i then t\<lparr>broadcast := now\<rparr> else t"
  have "?f t \<in> set (txs (broadcast_attempt i now j))"
    unfolding broadcast_attempt_def upd_where_def using t(1) by simp
  then show ?thesis unfolding in_lane_def by (rule bexI [rotated]) (use t in simp)
qed

lemma tracked_in_lane [intro, simp]: "tracked (\<lambda>s. in_lane a (wk_journal s))"
  by (rule tracked_journal) (rule in_lane_calm)

lemma tracked_in_lane_now [intro, simp]: "tracked (\<lambda>s. in_lane a (wk_journal s) \<and> \<not> sending_halted w s)"
  by (intro tracked_conj tracked_in_lane tracked_guarded(5))

lemma does_send_raw:
  assumes "\<And>s. P s \<Longrightarrow> \<not> sending_halted w s \<and> journaled b (wk_journal s) \<and> Q (wk_journal s)"
    and "tracked (\<lambda>s. Q (wk_journal s))"
  shows "does (lane_step hn w) P (send_raw w b h) (\<lambda>_ s. Q (wk_journal s))"
  unfolding send_raw_def
proof (rule does_bindP [where Q = "\<lambda>_. P"], rule does_liftP, assumption, rule does_bindP [where Q = "\<lambda>_ s. Q (wk_journal s)"])
  show "does (lane_step hn w) P (execP (\<lambda>s. s\<lparr>wk_sent := wk_sent s @ [(b, wk_journal s)]\<rparr>)) (\<lambda>_ s. Q (wk_journal s))"
    by (rule does_execP) (use assms(1) in \<open>auto intro: lane_step.sends\<close>)
  show "does (lane_step hn w) (\<lambda>s. Q (wk_journal s)) (askR (\<lambda>m. w_broadcast w m b h)) (\<lambda>_ s. Q (wk_journal s))"
    by (rule does_easy [OF _ assms(2)]) (intro easing)
qed

lemma does_submitted: "does (lane_step hn w) (\<lambda>s. in_lane a (wk_journal s)) (submitted a) (\<lambda>_ _. True)"
  unfolding submitted_def
proof (rule does_then [OF _ tracked_in_lane], intro easing calms, rule does_True, rule does_put)
  fix s :: worker assume "in_lane a (wk_journal s)"
  then obtain t where "t \<in> set (txs (wk_journal s))" "active t" "tx_id t = tx_id a" by (auto simp: in_lane_def)
  then show "lane_step hn w s (s\<lparr>wk_journal := set_tx_state (tx_id a) ''submitted'' (wk_journal s)\<rparr>) \<and> True"
    using lane_step.submits by metis
next
  show "does (lane_step hn w) (\<lambda>_. True)
     (if starts_with ''epoch'' (tx_kind a) then on_journal (txP (put_epoch_state (tx_job a) ''submitted''))
      else bindP (on_journal (execP (recovered ''settlement''))) (\<lambda>_. on_journal (execP
        (if is_batch_job (tx_job a) then members_state (tx_job a) ''submitted'' else set_state (tx_job a) ''submitted''))))
     (\<lambda>_ _. True)"
  proof -
    have "calm j ((if b then members_state k st else set_state k st) j)" for b k st j by (simp add: calm_health)
    then show ?thesis by (intro does_any easing calm_health) (auto intro: calm_epoch_state)
  qed
qed

lemma does_send_attempt: "does (lane_step hn w) (\<lambda>s. in_lane a (wk_journal s)) (send_attempt w a) (\<lambda>_ _. True)"
  unfolding send_attempt_def
proof (rule does_then [OF _ tracked_in_lane], intro easing, rule does_not_halted [OF tracked_in_lane], rule does_bindP)
  show "does (lane_step hn w) (\<lambda>s. in_lane a (wk_journal s) \<and> \<not> sending_halted w s) (send_raw w (raw a) (tx_hash a))
      (\<lambda>_ s. in_lane a (wk_journal s))"
  proof (rule does_send_raw)
    show "\<not> sending_halted w s \<and> journaled (raw a) (wk_journal s) \<and> in_lane a (wk_journal s)"
      if "in_lane a (wk_journal s) \<and> \<not> sending_halted w s" for s
      using that by (auto simp: in_lane_def journaled_def)
  qed simp
next
  fix outcome
  have r: "easy (bindP (if kind_of w = Round \<and> reason = ''insufficient_funds''
                 then bindP (parse_price (fee a)) (\<lambda>f.
                      bindP (liftP (u64_try TryFromInt (gas a))) (\<lambda>g. funds_short w (sat128 (f * g))))
                 else pureP ()) (\<lambda>_. on_journal (execP (rejection reason))))" for reason
    by (intro easing calms)
  show "does (lane_step hn w) (\<lambda>s. in_lane a (wk_journal s))
     (case outcome of Rejected reason \<Rightarrow>
          bindP (if kind_of w = Round \<and> reason = ''insufficient_funds''
                 then bindP (parse_price (fee a)) (\<lambda>f.
                      bindP (liftP (u64_try TryFromInt (gas a))) (\<lambda>g. funds_short w (sat128 (f * g))))
                 else pureP ()) (\<lambda>_. on_journal (execP (rejection reason)))
      | Ambiguous \<Rightarrow> pureP () | _ \<Rightarrow> submitted a) (\<lambda>_ _. True)"
    by (cases outcome) (simp_all add: does_any [OF r] does_any easing does_submitted)
qed

lemma does_broadcast_latest: "does (lane_step hn w) (\<lambda>_. True) (broadcast_latest w at) (\<lambda>_ _. True)"
  unfolding broadcast_latest_def
proof (rule does_then [OF _ tracked_const], intro easing, rule does_bindP)
  show "does (lane_step hn w) (\<lambda>_. True) (on_journal (readP unresolved))
      (\<lambda>r s. r \<noteq> [] \<longrightarrow> in_lane (last r) (wk_journal s))"
  proof (rule doesI)
    fix s :: worker
    have "in_lane (last (unresolved (wk_journal s))) (wk_journal s)" if "unresolved (wk_journal s) \<noteq> []"
      using last_in_set [OF that] by (auto simp: unresolved_def in_lane_def)
    then show "(lane_step hn w)\<^sup>*\<^sup>* s (snd (on_journal (readP unresolved) s)) \<and>
      (\<forall>a. fst (on_journal (readP unresolved) s) = Inr a \<longrightarrow> a \<noteq> [] \<longrightarrow> in_lane (last a) (wk_journal (snd (on_journal (readP unresolved) s))))"
      by (auto simp: on_journal_def readP_def)
  qed
next
  fix r :: "attempt list"
  let ?P = "\<lambda>s. in_lane (last r) (wk_journal s)"
  have b: "does (lane_step hn w) ?P (on_journal (execP (broadcast_attempt (tx_id (last r)) now))) (\<lambda>_. ?P)" for now
  proof (rule does_put)
    fix s :: worker assume "?P s"
    then show "lane_step hn w s (s\<lparr>wk_journal := broadcast_attempt (tx_id (last r)) now (wk_journal s)\<rparr>)
        \<and> ?P (s\<lparr>wk_journal := broadcast_attempt (tx_id (last r)) now (wk_journal s)\<rparr>)"
      using in_lane_broadcast by (simp add: lane_step.broadcasts)
  qed
  show "does (lane_step hn w) (\<lambda>s. r \<noteq> [] \<longrightarrow> ?P s)
     (if r = [] then pureP () else let a = last r in
         bindP (liftP (i64_try TryFromInt at)) (\<lambda>now.
         bindP (on_journal (execP (broadcast_attempt (tx_id a) now))) (\<lambda>_.
         bindP (worth_sending w a at) (\<lambda>worth. if worth then send_attempt w a else pureP ())))) (\<lambda>_ _. True)"
  proof (cases "r = []")
    case False
    have "does (lane_step hn w) ?P (bindP (liftP (i64_try TryFromInt at)) (\<lambda>now.
         bindP (on_journal (execP (broadcast_attempt (tx_id (last r)) now))) (\<lambda>_.
         bindP (worth_sending w (last r) at) (\<lambda>worth. if worth then send_attempt w (last r) else pureP ())))) (\<lambda>_ _. True)"
      by (rule does_then [OF _ tracked_in_lane], intro easing, rule does_bindP [OF b],
          rule does_then [OF _ tracked_in_lane], intro easing)
         (auto intro: does_send_attempt does_any easing)
    then show ?thesis using False by (simp add: Let_def)
  qed (simp add: does_any easing)
qed

section \<open>Pushing and settling the lane\<close>

abbreviation holds_lane :: "int \<Rightarrow> worker \<Rightarrow> bool" where
  "holds_lane n \<equiv> (\<lambda>s. n \<in> lane_nonces (wk_journal s))"

lemma does_may_sign:
  assumes "does (lane_step hn w) (may_sign n) p Q"
  shows "does (lane_step hn w) (holds_lane n) p Q"
  by (rule does_weaken [OF assms]) (simp_all add: may_sign_def)

lemma u64_try_nonce: "u64_try e i = Inr n \<Longrightarrow> i = int n"
  by (auto simp: u64_try_def split: if_splits)

lemmas track_lane = tracked_guarded(1)

lemma does_cancel_lane: "does (lane_step hn w) (holds_lane (nonce a)) (cancel_lane w a k h) (\<lambda>_ _. True)"
  unfolding cancel_lane_def
proof (rule does_then [OF _ track_lane], intro easing, rule does_pair, rule does_then [OF _ track_lane], intro easing,
    rule does_learn [OF _ track_lane gives_lift], intro easing, rule does_True)
  fix f p g n assume "u64_try TryFromInt (nonce a) = Inr n"
  then have n: "nonce a = int n" by (rule u64_try_nonce)
  show "does (lane_step hn w) (holds_lane (nonce a)) (replace_within_budget w (tx_job a)
      \<lparr>pl_nonce = n, pl_gas = g, pl_fee = f, pl_priority = p, pl_payload = ''0x'', pl_kind = k\<rparr> h) (\<lambda>_ _. True)"
    unfolding n by (rule does_may_sign) (rule does_replace [of hn w "\<lparr>pl_nonce = n, pl_gas = g, pl_fee = f,
      pl_priority = p, pl_payload = ''0x'', pl_kind = k\<rparr>", simplified])
next
  fix replaced
  show "does (lane_step hn w) (\<lambda>_. True) (if replaced then broadcast_latest w (hd_timestamp h) else pureP ()) (\<lambda>_ _. True)"
    by (simp add: does_broadcast_latest does_any easing)
qed

lemma does_outbid_lane: "does (lane_step hn w) (holds_lane (nonce a)) (outbid_lane w a h) (\<lambda>_ _. True)"
  unfolding outbid_lane_def
proof (rule does_then [OF _ track_lane], intro easing, rule does_pair, rule does_then [OF _ track_lane], intro easing,
    rule does_learn [OF _ track_lane gives_lift], intro easing)
  fix f p g n assume "u64_try TryFromInt (nonce a) = Inr n"
  then have n: "nonce a = int n" by (rule u64_try_nonce)
  show "does (lane_step hn w) (holds_lane (nonce a)) (replace_within_budget w (tx_job a)
      \<lparr>pl_nonce = n, pl_gas = g, pl_fee = f, pl_priority = p, pl_payload = payload a, pl_kind = tx_kind a\<rparr> h) (\<lambda>_ _. True)"
    unfolding n by (rule does_may_sign) (rule does_replace [of hn w "\<lparr>pl_nonce = n, pl_gas = g, pl_fee = f,
      pl_priority = p, pl_payload = payload a, pl_kind = tx_kind a\<rparr>", simplified])
qed

lemma does_stale_round:
  "does (lane_step hn w) (holds_lane (nonce a)) (cancel_stale_round w a h) (\<lambda>b s. b \<or> holds_lane (nonce a) s)"
  unfolding cancel_stale_round_def Let_def
proof (rule does_if, rule does_pureP, simp, rule does_then [OF _ track_lane], intro easing,
    rule does_then [OF _ track_lane], intro easing, rule does_if, rule does_pureP, simp,
    rule does_then [OF _ track_lane], intro easing, rule does_bindP [OF does_cancel_lane], rule does_pureP, simp)
qed

lemma does_push_lane:
  "does (lane_step hn w) (holds_lane (nonce a)) (push_lane w as a h k over worth again) (\<lambda>_ _. True)"
  unfolding push_lane_def
proof (rule does_then [OF _ track_lane], intro easing, rule does_if, intro does_any easing, rule does_if, rule does_cancel_lane,
    rule does_bindP [where Q = "\<lambda>b s. b \<or> holds_lane (nonce a) s"])
  show "does (lane_step hn w) (holds_lane (nonce a))
     (if again \<and> resend_due a (hd_timestamp h) then cancel_stale_round w a h else pureP False) (\<lambda>b s. b \<or> holds_lane (nonce a) s)"
    by (simp add: does_stale_round does_pureP)
next
  fix cancelled
  have o: "does (lane_step hn w) (holds_lane (nonce a)) (bindP (outbid_lane w a h) (\<lambda>replaced.
      if replaced \<or> (again \<and> age_of h (broadcast a) \<ge> 2) then broadcast_latest w (hd_timestamp h) else pureP ())) (\<lambda>_ _. True)"
    by (rule does_True [OF does_outbid_lane]) (simp add: does_broadcast_latest does_any easing)
  have b: "does (lane_step hn w) (holds_lane (nonce a))
      (if age_of h (broadcast a) \<ge> 2 then broadcast_latest w (hd_timestamp h) else pureP ()) (\<lambda>_ _. True)"
    using does_weaken [OF does_broadcast_latest] by (simp add: does_any easing)
  show "does (lane_step hn w) (\<lambda>s. cancelled \<or> holds_lane (nonce a) s)
     (if cancelled then pureP ()
      else if age_of h (created a) \<ge> 10 \<and> count_where (\<lambda>x. tx_kind x = tx_kind a) as < 4 \<and> (tx_kind a = k \<or> worth)
      then bindP (outbid_lane w a h) (\<lambda>replaced.
             if replaced \<or> (again \<and> age_of h (broadcast a) \<ge> 2) then broadcast_latest w (hd_timestamp h) else pureP ())
      else if age_of h (broadcast a) \<ge> 2 then broadcast_latest w (hd_timestamp h) else pureP ()) (\<lambda>_ _. True)"
    using o b by (cases cancelled) (simp_all add: does_any easing)
qed

text \<open>A settlement of the attempt's nonce.\<close>

lemma does_settle:
  assumes "evidence_for hn w n" and "settles_with hn n m"
    and "\<And>j j'. t j = Inr j' \<Longrightarrow> resolve_nonce_job_marked n job st m j = Inr j'
      \<or> resolve_nonce_epoch_marked n job st m j = Inr j' \<or> resolve_nonce_batch_marked n job states m j = Inr j'"
  shows "does (lane_step hn w) (holds_lane n) (on_journal (txP t)) (\<lambda>_ _. True)"
  by (rule does_tx) (use assms in \<open>auto intro: lane_step.settles\<close>)

definition settles_attempt :: "(string \<Rightarrow> nat) \<Rightarrow> world \<Rightarrow> attempt \<Rightarrow> bool" where
  "settles_attempt hn w a = (int (hn (tx_hash a)) = nonce a \<and> evidence_for hn w (nonce a))"

lemma does_settle_receipt:
  assumes "settles_attempt hn w a"
  shows "does (lane_step hn w) (holds_lane (nonce a)) (settle_receipt w a c h) (\<lambda>_ _. True)"
proof -
  have e: "int (hn (tx_hash a)) = nonce a" "evidence_for hn w (nonce a)" using assms by (simp_all add: settles_attempt_def)
  show ?thesis
    unfolding settle_receipt_def
    by (rule does_learn [OF _ track_lane gives_receipt_mark(2) [where hn = hn and h = "tx_hash a", OF e(1)]], intro easing,
        (rule does_then [OF _ track_lane], intro easing)+, rule does_settle [OF e(2)], assumption, blast)
qed

lemma does_settle_batch_receipt:
  assumes "settles_attempt hn w a"
  shows "does (lane_step hn w) (holds_lane (nonce a)) (settle_batch_receipt w a c ms h) (\<lambda>_ _. True)"
proof -
  have e: "int (hn (tx_hash a)) = nonce a" "evidence_for hn w (nonce a)" using assms by (simp_all add: settles_attempt_def)
  have s: "does (lane_step hn w) (holds_lane (nonce a))
      (bindP (on_journal (txP (resolve_nonce_batch_marked (nonce a) (tx_job a) states m))) (\<lambda>_.
       bindP (liftP (cr_served c)) (\<lambda>_. pureP ()))) (\<lambda>_ _. True)" if "settles_with hn (nonce a) m" for states m
    by (rule does_True, rule does_settle [OF e(2) that], blast, intro does_any easing)
  show ?thesis
    unfolding settle_batch_receipt_def
    by (rule does_learn [OF _ track_lane gives_receipt_mark(2) [where hn = hn and h = "tx_hash a", OF e(1)]], intro easing)
       (rule does_then [OF _ track_lane], intro easing, rule does_then [OF _ track_lane], intro easing,
        rule does_then [OF _ track_lane], intro easing, rule does_then [OF _ track_lane], intro easing,
        rule does_then [OF _ track_lane], intro easing, rule s, assumption)
qed

text \<open>The attempts a reconciliation works on: one nonce, each with a hash that commits to it.\<close>

definition one_lane :: "(string \<Rightarrow> nat) \<Rightarrow> attempt list \<Rightarrow> attempt \<Rightarrow> bool" where
  "one_lane hn as l = (0 \<le> nonce l \<and> nonce l \<le> i64_max
     \<and> (\<forall>a \<in> set as. nonce a = nonce l \<and> int (hn (tx_hash a)) = nonce a))"

lemma one_lane_settles:
  assumes "one_lane hn as l" and "a \<in> set as" and "w_settled w m (tx_hash a) c = Inr True"
  shows "settles_attempt hn w a" "nonce a = nonce l"
  using assms unfolding one_lane_def settles_attempt_def evidence_for_def by blast+

lemma one_lane_used:
  assumes "one_lane hn as l" and "w_nonce w m tag = Inr k" and "as_u64 (nonce l) < k"
  shows "evidence_for hn w (nonce l)"
proof -
  have "nonce l < int k" using assms(1,3) by (simp add: one_lane_def as_u64_def width_defs)
  then have "\<exists>tag k. w_nonce w m tag = Inr k \<and> nonce l < int k" using assms(2) by blast
  then show ?thesis unfolding evidence_for_def by blast
qed

lemma does_settled_attempt:
  assumes l: "one_lane hn as l" and m: "b \<in> set as" "w_settled w m (tx_hash b) c = Inr True"
    and s: "settles_attempt hn w b \<Longrightarrow> does (lane_step hn w) (holds_lane (nonce b)) (f b c) (\<lambda>_ _. True)"
  shows "does (lane_step hn w) (holds_lane (nonce l)) (bindP (f b c) (\<lambda>_. pureP False)) (\<lambda>_ _. True)"
proof -
  note o = one_lane_settles [OF l m]
  have "does (lane_step hn w) (holds_lane (nonce b)) (bindP (f b c) (\<lambda>_. pureP False)) (\<lambda>_ _. True)"
    by (rule does_True [OF s [OF o(1)]]) (intro does_any easing)
  then show ?thesis by (simp only: o(2))
qed

lemma does_receipt_case:
  assumes l: "one_lane hn as l" and a: "\<forall>a c. fd = Some (a, c) \<longrightarrow> a \<in> set as"
    and s: "\<And>a c. settles_attempt hn w a \<Longrightarrow> does (lane_step hn w) (holds_lane (nonce a)) (f a c) (\<lambda>_ _. True)"
    and n: "does (lane_step hn w) (holds_lane (nonce l)) g (\<lambda>_ _. True)"
  shows "does (lane_step hn w) (holds_lane (nonce l)) (case fd of
     Some (a, c) \<Rightarrow> bindP (receipt_settled w (tx_hash a) c) (\<lambda>ok.
        if ok then bindP (f a c) (\<lambda>_. pureP False) else pureP True)
   | None \<Rightarrow> g) (\<lambda>_ _. True)"
proof (cases fd)
  case (Some x)
  obtain b c where x: "x = (b, c)" by (cases x)
  have m: "b \<in> set as" using a Some x by simp
  have "does (lane_step hn w) (holds_lane (nonce l)) (bindP (receipt_settled w (tx_hash b) c) (\<lambda>ok.
        if ok then bindP (f b c) (\<lambda>_. pureP False) else pureP True)) (\<lambda>_ _. True)"
  proof (rule does_learn [OF _ track_lane gives_settled], intro easing)
    fix ok assume "ok \<longrightarrow> (\<exists>m. w_settled w m (tx_hash b) c = Inr True)"
    then show "does (lane_step hn w) (holds_lane (nonce l)) (if ok then bindP (f b c) (\<lambda>_. pureP False) else pureP True) (\<lambda>_ _. True)"
      using does_settled_attempt [where f = f, OF l m _ s] by (cases ok) (auto simp: does_any easing)
  qed
  then show ?thesis using Some x by simp
qed (simp add: n)

lemma does_any_receipt_case:
  assumes l: "one_lane hn as l"
    and a: "\<forall>a c. fd = Some (a, c) \<longrightarrow> a \<in> set as \<and> (\<exists>m. w_settled w m (tx_hash a) c = Inr True)"
    and s: "\<And>a c. settles_attempt hn w a \<Longrightarrow> does (lane_step hn w) (holds_lane (nonce a)) (f a c) (\<lambda>_ _. True)"
    and n: "does (lane_step hn w) (holds_lane (nonce l)) g (\<lambda>_ _. True)"
  shows "does (lane_step hn w) (holds_lane (nonce l)) (case fd of
     Some (a, c) \<Rightarrow> bindP (f a c) (\<lambda>_. pureP False) | None \<Rightarrow> g) (\<lambda>_ _. True)"
proof (cases fd)
  case (Some x)
  obtain b c where x: "x = (b, c)" by (cases x)
  obtain m where m: "b \<in> set as" "w_settled w m (tx_hash b) c = Inr True" using a Some x by auto
  have "does (lane_step hn w) (holds_lane (nonce l)) (bindP (f b c) (\<lambda>_. pureP False)) (\<lambda>_ _. True)"
    by (rule does_settled_attempt [where f = f, OF l m s])
  then show ?thesis using Some x by simp
qed (simp add: n)

text \<open>A nonce the chain has used, resolved by what the chain says of its work.\<close>

lemma does_used:
  assumes "evidence_for hn w n"
    and "\<And>m j j'. t m j = Inr j' \<Longrightarrow> resolve_nonce_job_marked n job st m j = Inr j'
      \<or> resolve_nonce_epoch_marked n job st m j = Inr j' \<or> resolve_nonce_batch_marked n job states m j = Inr j'"
  shows "does (lane_step hn w) (holds_lane n) (bindP (nonce_mark w h n) (\<lambda>m.
     bindP (on_journal (txP (t m))) (\<lambda>_. pureP False))) (\<lambda>_ _. True)"
  by (rule does_learn [OF _ track_lane gives_nonce_mark], intro easing, rule does_True,
      rule does_settle [OF assms(1)], assumption, erule assms(2), intro does_any easing)

lemma does_reconcile_single:
  assumes l: "one_lane hn as l"
  shows "does (lane_step hn w) (holds_lane (nonce l)) (reconcile_single w as l h) (\<lambda>_ _. True)"
  unfolding reconcile_single_def
proof (rule does_learn [OF _ track_lane gives_first_receipt], intro easing,
    rule does_receipt_case [OF l], assumption, erule does_settle_receipt, rule does_then [OF _ track_lane], intro easing,
    rule does_then [OF _ track_lane], intro easing, unfold Let_def,
    rule does_learn [OF _ track_lane gives_decision_nonce], intro easing, rule does_if,
    rule does_learn [OF _ track_lane gives_any_receipt], intro easing, rule does_any_receipt_case [OF l], assumption,
    erule does_settle_receipt, rule does_option, intro does_any easing, rule does_then [OF _ track_lane], intro easing,
    rule does_used)
  fix k assume "\<exists>m tag. w_nonce w m tag = Inr k" "as_u64 (nonce l) < k"
  then show "evidence_for hn w (nonce l)" using one_lane_used [OF l] by blast
next
  show "does (lane_step hn w) (holds_lane (nonce l)) (bindP (push_lane w as l h ''cancel'' over worth True) (\<lambda>_. pureP True)) (\<lambda>_ _. True)"
    for over worth by (rule does_True [OF does_push_lane]) (intro does_any easing)
qed blast

lemma does_reconcile_batch:
  assumes l: "one_lane hn as l"
  shows "does (lane_step hn w) (holds_lane (nonce l)) (reconcile_batch w as l h) (\<lambda>_ _. True)"
  unfolding reconcile_batch_def
proof (rule does_then [OF _ track_lane], intro easing, rule does_then [OF _ track_lane], intro easing,
    rule does_learn [OF _ track_lane gives_first_receipt], intro easing,
    rule does_receipt_case [OF l], assumption, erule does_settle_batch_receipt, rule does_then [OF _ track_lane], intro easing,
    rule does_then [OF _ track_lane], intro easing, unfold Let_def,
    rule does_learn [OF _ track_lane gives_decision_nonce], intro easing, rule does_if,
    rule does_learn [OF _ track_lane gives_any_receipt], intro easing, rule does_any_receipt_case [OF l], assumption,
    erule does_settle_batch_receipt, rule does_if, rule does_then [OF _ track_lane], intro easing, rule does_used)
  fix k assume "\<exists>m tag. w_nonce w m tag = Inr k" "as_u64 (nonce l) < k"
  then show "evidence_for hn w (nonce l)" using one_lane_used [OF l] by blast
next
  show "does (lane_step hn w) (holds_lane (nonce l)) (if awaiting_receipt_visibility (hd_timestamp h) l then pureP True
      else failP (Bail ''Batch nonce consumed but no receipt or terminal state for every member'')) (\<lambda>_ _. True)"
    by (intro does_any easing)
next
  show "does (lane_step hn w) (holds_lane (nonce l)) (bindP (push_lane w as l h ''cancel'' over worth True) (\<lambda>_. pureP True)) (\<lambda>_ _. True)"
    for over worth by (rule does_True [OF does_push_lane]) (intro does_any easing)
qed blast

lemma bindP_assoc: "bindP (bindP m f) g = bindP m (\<lambda>a. bindP (f a) g)"
  by (rule ext) (simp add: bindP_def split: prod.splits sum.splits)

lemma bindP_pureP: "bindP (pureP a) f = f a"
  by (rule ext) (simp add: bindP_def pureP_def)

lemma does_reconcile_epoch:
  assumes l: "one_lane hn as l"
  shows "does (lane_step hn w) (holds_lane (nonce l)) (reconcile_epoch w as l h) (\<lambda>_ _. True)"
  unfolding reconcile_epoch_def
proof (rule does_then [OF _ track_lane], intro easing, rule does_then [OF _ track_lane], intro easing,
    rule does_then [OF _ track_lane], intro easing, rule does_then [OF _ track_lane], intro easing,
    rule does_then [OF _ track_lane], intro easing, rule does_learn [OF _ track_lane gives_first_receipt], intro easing)
  fix task committed over and fd :: "(attempt \<times> chain_receipt) option"
  assume fd: "\<forall>a c. fd = Some (a, c) \<longrightarrow> a \<in> set as"
  let ?f = "\<lambda>a c. bindP (record_receipt w (tx_hash a) c) (\<lambda>m. bindP (liftP (cr_status c)) (\<lambda>status'.
     on_journal (txP (resolve_nonce_epoch_marked (nonce a) (tx_job a) (epoch_resolved_state over (tx_kind a) status') m))))"
  let ?g = "bindP (decision_nonce w h) (\<lambda>chain_nonce.
            if chain_nonce > as_u64 (nonce l) then
              if committed then
                bindP (nonce_mark w h (nonce l)) (\<lambda>m.
                bindP (on_journal (txP (resolve_nonce_epoch_marked (nonce l) (tx_job l) ''committed'' m)))
                  (\<lambda>_. pureP False))
              else if awaiting_receipt_visibility (hd_timestamp h) l then pureP True
              else failP (Bail ''Epoch nonce consumed without receipt or terminal registry state'')
            else bindP (push_lane w as l h ''epoch_cancel'' (over \<noteq> None) (over = None) False)
                   (\<lambda>_. pureP True))"
  have f: "does (lane_step hn w) (holds_lane (nonce a)) (?f a c) (\<lambda>_ _. True)" if "settles_attempt hn w a" for a c
  proof -
    have e: "int (hn (tx_hash a)) = nonce a" "evidence_for hn w (nonce a)" using that by (simp_all add: settles_attempt_def)
    show ?thesis
      by (rule does_learn [OF _ track_lane gives_receipt_mark(2) [where hn = hn and h = "tx_hash a", OF e(1)]], intro easing,
          rule does_then [OF _ track_lane], intro easing, rule does_settle [OF e(2)], assumption, blast)
  qed
  have g: "does (lane_step hn w) (holds_lane (nonce l)) ?g (\<lambda>_ _. True)"
  proof (rule does_learn [OF _ track_lane gives_decision_nonce], intro easing, rule does_if, rule does_if, rule does_used)
    fix k assume "\<exists>m tag. w_nonce w m tag = Inr k" "as_u64 (nonce l) < k"
    then show "evidence_for hn w (nonce l)" using one_lane_used [OF l] by blast
  next
    show "does (lane_step hn w) (holds_lane (nonce l)) (if awaiting_receipt_visibility (hd_timestamp h) l then pureP True
      else failP (Bail ''Epoch nonce consumed without receipt or terminal registry state'')) (\<lambda>_ _. True)"
      by (intro does_any easing)
  next
    show "does (lane_step hn w) (holds_lane (nonce l)) (bindP (push_lane w as l h ''epoch_cancel'' (over \<noteq> None) (over = None) False)
        (\<lambda>_. pureP True)) (\<lambda>_ _. True)"
      by (rule does_True [OF does_push_lane]) (intro does_any easing)
  qed blast
  have e: "(if ok then bindP (?f a c) (\<lambda>_. pureP False) else pureP True) = (if \<not> ok then pureP True
      else bindP (record_receipt w (tx_hash a) c) (\<lambda>m. bindP (liftP (cr_status c)) (\<lambda>status'.
        bindP (on_journal (txP (resolve_nonce_epoch_marked (nonce a) (tx_job a) (epoch_resolved_state over (tx_kind a) status') m)))
          (\<lambda>_. pureP False))))" for ok a c
    by (simp add: bindP_assoc)
  show "does (lane_step hn w) (holds_lane (nonce l)) (case fd of
        Some (a, c) \<Rightarrow> bindP (receipt_settled w (tx_hash a) c) (\<lambda>ok. if \<not> ok then pureP True
            else bindP (record_receipt w (tx_hash a) c) (\<lambda>m. bindP (liftP (cr_status c)) (\<lambda>status'.
                 bindP (on_journal (txP (resolve_nonce_epoch_marked (nonce a) (tx_job a)
                          (epoch_resolved_state over (tx_kind a) status') m))) (\<lambda>_. pureP False))))
      | None \<Rightarrow> ?g) (\<lambda>_ _. True)"
    using does_receipt_case [OF l fd f g] unfolding e .
qed

text \<open>Reconciliation is a run of the machine.\<close>

lemma does_reconcile:
  "does (lane_step hn w) (\<lambda>s. fits hn (wk_journal s)) (reconcile w h) (\<lambda>_ _. True)"
  unfolding reconcile_def
proof (rule does_bindP)
  let ?Q = "\<lambda>as s. as \<noteq> [] \<longrightarrow> holds_lane (nonce (last as)) s \<and> one_lane hn as (last as)"
  show "does (lane_step hn w) (\<lambda>s. fits hn (wk_journal s)) (on_journal (readP unresolved)) ?Q"
  proof (rule doesI)
    fix s :: worker assume f: "fits hn (wk_journal s)"
    let ?as = "unresolved (wk_journal s)"
    have a: "a \<in> set (txs (wk_journal s)) \<and> active a" if "a \<in> set ?as" for a using that by (auto simp: unresolved_def)
    have "nonce a \<in> lane_nonces (wk_journal s)" if "a \<in> set ?as" for a
      using a [OF that] by (auto simp: lane_nonces_def nonces_where_def)
    moreover have "nonce a = int (hn (tx_hash a)) \<and> nonce a \<le> i64_max" if "a \<in> set ?as" for a
      using a [OF that] fitsD(1) [OF f] by (auto simp: rows_fit_def)
    ultimately have "?Q ?as s"
      unfolding one_lane_def using lanes_fitD(1) [OF fitsD(3) [OF f]] last_in_set [of ?as] by (metis of_nat_0_le_iff)
    then show "(lane_step hn w)\<^sup>*\<^sup>* s (snd (on_journal (readP unresolved) s)) \<and>
      (\<forall>a. fst (on_journal (readP unresolved) s) = Inr a \<longrightarrow> ?Q a (snd (on_journal (readP unresolved) s)))"
      by (simp add: on_journal_def readP_def)
  qed
next
  fix as :: "attempt list"
  let ?l = "last as"
  show "does (lane_step hn w) (\<lambda>s. as \<noteq> [] \<longrightarrow> holds_lane (nonce ?l) s \<and> one_lane hn as ?l)
     (if as = [] then pureP False
       else let latest = ?l in
         bindP (liftP (ensure (list_all (\<lambda>a. nonce a = nonce latest) as)
                         (Bail ''Multiple unresolved nonce lanes; refusing to guess'') (Inr ()))) (\<lambda>_.
           if starts_with ''epoch'' (tx_kind latest) then
             bindP (liftP (ensure (list_all (\<lambda>a. starts_with ''epoch'' (tx_kind a) \<and> tx_job a = tx_job latest) as)
                             (Bail ''Mixed maintenance/game nonce lane'') (Inr ()))) (\<lambda>_.
               reconcile_epoch w as latest h)
           else
             bindP (liftP (ensure (list_all (\<lambda>a. \<not> starts_with ''epoch'' (tx_kind a)) as)
                             (Bail ''Mixed maintenance/game nonce lane'') (Inr ()))) (\<lambda>_.
               if is_batch_job (tx_job latest) then
                 bindP (liftP (ensure (list_all (\<lambda>a. tx_job a = tx_job latest) as)
                                 (Bail ''Mixed batch nonce lane'') (Inr ()))) (\<lambda>_.
                   reconcile_batch w as latest h)
               else reconcile_single w as latest h))) (\<lambda>_ _. True)"
  proof (cases "as = [] \<or> \<not> one_lane hn as ?l")
    case True
    then show ?thesis by (cases "as = []") (simp_all add: does_any easing, simp add: does_def)
  next
    case False
    then have l: "one_lane hn as ?l" by simp
    note parts = does_reconcile_epoch [OF l] does_reconcile_batch [OF l] does_reconcile_single [OF l]
    have "does (lane_step hn w) (holds_lane (nonce ?l))
      (bindP (liftP (ensure (list_all (\<lambda>a. nonce a = nonce ?l) as)
                         (Bail ''Multiple unresolved nonce lanes; refusing to guess'') (Inr ()))) (\<lambda>_.
           if starts_with ''epoch'' (tx_kind ?l) then
             bindP (liftP (ensure (list_all (\<lambda>a. starts_with ''epoch'' (tx_kind a) \<and> tx_job a = tx_job ?l) as)
                             (Bail ''Mixed maintenance/game nonce lane'') (Inr ()))) (\<lambda>_. reconcile_epoch w as ?l h)
           else
             bindP (liftP (ensure (list_all (\<lambda>a. \<not> starts_with ''epoch'' (tx_kind a)) as)
                             (Bail ''Mixed maintenance/game nonce lane'') (Inr ()))) (\<lambda>_.
               if is_batch_job (tx_job ?l) then
                 bindP (liftP (ensure (list_all (\<lambda>a. tx_job a = tx_job ?l) as)
                                 (Bail ''Mixed batch nonce lane'') (Inr ()))) (\<lambda>_. reconcile_batch w as ?l h)
               else reconcile_single w as ?l h))) (\<lambda>_ _. True)"
      by (rule does_then [OF _ track_lane], intro easing, rule does_if, rule does_then [OF _ track_lane], intro easing,
          rule parts, rule does_then [OF _ track_lane], intro easing, rule does_if, rule does_then [OF _ track_lane],
          intro easing, rule parts, rule parts)
    then show ?thesis using False by (simp add: Let_def)
  qed
qed

section \<open>The sweep\<close>

abbreviation sweeping :: "sweep_attempt \<Rightarrow> worker \<Rightarrow> bool" where
  "sweeping a \<equiv> (\<lambda>s. sweep_attempt_of (wk_journal s) = Inr (Some a))"

lemma track_sweeping [intro, simp]: "tracked (sweeping a)"
  by (rule tracked_journal) (simp add: calm_def GUARDED_def sweep_attempt_of_def read_meta_def)

lemma track_sweeping_now [intro, simp]: "tracked (\<lambda>s. sweeping a s \<and> \<not> sending_halted w s)"
  by (intro tracked_conj track_sweeping tracked_guarded(5))

lemma stored_sweep: "meta j SWEEP_ATTEMPT_KEY = Some (Json (encode_attempt a)) \<Longrightarrow> sweep_attempt_of j = Inr (Some a)"
  by (simp add: sweep_attempt_of_def read_meta_def optR_Some ok_or_def)

lemma calm_refuse: "calm j (refuse r d now j)"
proof -
  have "REQUEST_KEY \<notin> GUARDED" "LAST_KEY \<notin> GUARDED"
    by (auto simp: GUARDED_def REQUEST_KEY_def LAST_KEY_def NONCE_FLOOR_KEY_def SWEEP_ATTEMPT_KEY_def FILL_KEY_def MISMATCH_KEY_def)
  then have "calm j (if c then meta_delete (\<lambda>k. k = REQUEST_KEY) j else j)" "calm x (record_outcome y x)" for c x y
    unfolding record_outcome_def by (auto intro!: calm_meta)
  then show ?thesis unfolding refuse_def by (blast intro: calm_trans)
qed

lemma easy_refuse [easing]: "easy (refuse_sweep w r d)"
  unfolding refuse_sweep_def by (intro easing calm_refuse)

lemma does_broadcast_sweep: "does (lane_step hn w) (sweeping a) (broadcast_sweep w a) (\<lambda>_ _. True)"
  unfolding broadcast_sweep_def
proof (rule does_not_halted [OF track_sweeping], rule does_then [OF _ track_sweeping_now], intro easing,
    rule does_if, rule does_any, intro easing, rule does_then [OF _ track_sweeping_now], intro easing, unfold Let_def)
  fix now
  let ?tx = "(last (sa_txs a))\<lparr>sg_broadcast := now\<rparr>"
  let ?a = "a\<lparr>sa_txs := butlast (sa_txs a) @ [?tx]\<rparr>"
  assume n: "sa_txs a \<noteq> []"
  have b: "does (lane_step hn w) (\<lambda>s. sweeping a s \<and> \<not> sending_halted w s) (on_journal (txP (save ?a)))
      (\<lambda>_ s. sweeping ?a s \<and> \<not> sending_halted w s)"
  proof (rule does_tx)
    fix s j assume P: "sweeping a s \<and> \<not> sending_halted w s" and j: "save ?a (wk_journal s) = Inr j"
    have "lane_step hn w s (s\<lparr>wk_journal := j\<rparr>)" using P n j by (intro lane_step.sweep_broadcasts [of s a]) auto
    moreover have "sweep_attempt_of j = Inr (Some ?a)"
      by (rule stored_sweep) (use save_marked_Inr(3) j save_is_marked in metis)
    ultimately show "lane_step hn w s (s\<lparr>wk_journal := j\<rparr>) \<and> sweeping ?a (s\<lparr>wk_journal := j\<rparr>)
        \<and> \<not> sending_halted w (s\<lparr>wk_journal := j\<rparr>)" using P by (simp add: sending_halted_def)
  qed
  have r: "does (lane_step hn w) (\<lambda>s. sweeping ?a s \<and> \<not> sending_halted w s) (send_raw w (sg_raw ?tx) (sg_hash ?tx)) (\<lambda>_ _. True)"
    by (rule does_send_raw) (auto simp: journaled_def)
  show "does (lane_step hn w) (\<lambda>s. sweeping a s \<and> \<not> sending_halted w s) (bindP (on_journal (txP (save ?a))) (\<lambda>_.
      bindP (send_raw w (sg_raw ?tx) (sg_hash ?tx)) (\<lambda>_. pureP ()))) (\<lambda>_ _. True)"
    by (rule does_bindP [OF b], rule does_True [OF r], intro does_any easing)
qed

lemma easy_transfer [easing]: "easy (sign_transfer w p to v now)"
  unfolding sign_transfer_def by (intro easing)

text \<open>A transfer is signed by a keeper that is not halted.\<close>

lemma does_transfer:
  assumes "tracked P" and "\<And>t. w_sign w p to v = Inr (sg_hash t, sg_raw t) \<Longrightarrow>
     does (lane_step hn w) (\<lambda>s. P s \<and> \<not> sending_halted w s) (f t) S"
  shows "does (lane_step hn w) P (bindP (sign_transfer w p to v now) f) S"
proof -
  have "does (lane_step hn w) P (bindP ensure_not_upgraded (\<lambda>_. bindP (ensure_lane_sends w) (\<lambda>_.
      bindP (ensure_not_halted w) (\<lambda>_. bindP (liftP (w_sign w p to v)) (\<lambda>x. f
       \<lparr>sg_kind = pl_kind p, sg_hash = fst x, sg_raw = snd x, sg_gas = pl_gas p,
              sg_fee = show_nat (pl_fee p), sg_priority = show_nat (pl_priority p), sg_created = now,
              sg_broadcast = 0\<rparr>))))) S"
    by (rule does_then [OF _ assms(1)], intro easing, rule does_then [OF _ assms(1)], intro easing,
        rule does_not_halted [OF assms(1)],
        rule does_learn [OF _ tracked_conj [OF assms(1) tracked_guarded(5)] gives_lift], intro easing,
        rule assms(2), simp)
  then show ?thesis unfolding sign_transfer_def bindP_assoc bindP_pureP by simp
qed

abbreviation unrecorded :: "worker \<Rightarrow> bool" where
  "unrecorded \<equiv> (\<lambda>s. meta (wk_journal s) MISMATCH_KEY = None)"

lemma track_unrecorded [intro, simp]: "tracked unrecorded"
  by (rule tracked_guarded(3) [where Q = "\<lambda>x. x = None"]) (simp add: GUARDED_def)

lemma does_sign_sweep:
  assumes "plan_over_budget w p = None" and "int (pl_nonce p) < i64_max"
  shows "does (lane_step hn w) unrecorded (sign_sweep w r p to v h) (\<lambda>_ _. True)"
  unfolding sign_sweep_def
proof (rule does_then [OF _ track_unrecorded], intro easing, rule does_then [OF _ track_unrecorded], intro easing,
    rule does_transfer [OF track_unrecorded],
    rule does_learn [OF _ tracked_conj [OF track_unrecorded tracked_guarded(5)] gives_sign_mark], intro easing, unfold Let_def)
  fix now and t :: signed_tx and m
  assume t: "w_sign w p (To_Recipient to) v = Inr (sg_hash t, sg_raw t)" and m: "signs_with m"
  let ?a = "\<lparr>sa_request = r, sa_nonce = pl_nonce p, sa_to = w_address w to, sa_value = show_nat v, sa_txs = [t]\<rparr>"
  have s: "does (lane_step hn w) (\<lambda>s. unrecorded s \<and> \<not> sending_halted w s) (on_journal (txP (start_marked ?a m))) (\<lambda>_. sweeping ?a)"
  proof (rule does_tx)
    fix s j assume P: "unrecorded s \<and> \<not> sending_halted w s" and j: "start_marked ?a m (wk_journal s) = Inr j"
    have "lane_step hn w s (s\<lparr>wk_journal := j\<rparr>)"
      by (rule lane_step.sweep_starts [where p = p and a = ?a and tx = t, OF _ _ m assms(1) _ t _ _ j]) (use P assms(2) in simp_all)
    moreover have "sweep_attempt_of j = Inr (Some ?a)" by (rule stored_sweep) (use start_marked_Inr [OF j] in simp)
    ultimately show "lane_step hn w s (s\<lparr>wk_journal := j\<rparr>) \<and> sweeping ?a (s\<lparr>wk_journal := j\<rparr>)" by simp
  qed
  show "does (lane_step hn w) (\<lambda>s. unrecorded s \<and> \<not> sending_halted w s) (bindP (on_journal (txP (start_marked ?a m))) (\<lambda>_.
      bindP (broadcast_sweep w ?a) (\<lambda>_. pureP True))) (\<lambda>_ _. True)"
    by (rule does_bindP [OF s], rule does_True [OF does_broadcast_sweep], intro does_any easing)
qed

definition chain_nonces_fit :: "world \<Rightarrow> bool" where
  "chain_nonces_fit w = (\<forall>m tag k. w_nonce w m tag = Inr k \<longrightarrow> int k < i64_max)"

lemma does_start_sweep:
  assumes "chain_nonces_fit w"
  shows "does (lane_step hn w) unrecorded (start_sweep w r h) (\<lambda>_ _. True)"
proof -
  note u = does_then [OF _ track_unrecorded]
  have n: "gives (askR (\<lambda>m. w_nonce w m Latest_Tag)) (\<lambda>k. int k < i64_max)"
    by (rule gives_askR) (use assms in \<open>auto simp: chain_nonces_fit_def\<close>)
  have sg: "does (lane_step hn w) unrecorded (let p = \<lparr>pl_nonce = k, pl_gas = g, pl_fee = f, pl_priority = tip,
                             pl_payload = ''0x'', pl_kind = ''sweep''\<rparr> in
                    if plan_over_budget w p \<noteq> None then refuse_sweep w r ''Transfer exceeds a fee cap''
                    else case plan (w_parse_id w) r b (f * g) (sweep_reserve w) (unit_of_kind (kind_of w)) of
                           Inl detail \<Rightarrow> refuse_sweep w r detail
                         | Inr value \<Rightarrow> sign_sweep w r p to value h) (\<lambda>_ _. True)" if "int k < i64_max" for k g f tip b to
    unfolding Let_def
  proof (rule does_if, intro does_any easing)
    assume "\<not> plan_over_budget w \<lparr>pl_nonce = k, pl_gas = g, pl_fee = f, pl_priority = tip,
        pl_payload = ''0x'', pl_kind = ''sweep''\<rparr> \<noteq> None"
    then show "does (lane_step hn w) unrecorded (case plan (w_parse_id w) r b (f * g) (sweep_reserve w) (unit_of_kind (kind_of w)) of
        Inl detail \<Rightarrow> refuse_sweep w r detail
      | Inr value \<Rightarrow> sign_sweep w r \<lparr>pl_nonce = k, pl_gas = g, pl_fee = f, pl_priority = tip,
          pl_payload = ''0x'', pl_kind = ''sweep''\<rparr> to value h) (\<lambda>_ _. True)"
      using does_sign_sweep that by (auto split: sum.splits intro!: does_any easing)
  qed
  have e: "does (lane_step hn w) unrecorded (case x of
                Refused \<Rightarrow> refuse_sweep w r ''The fee recipient rejects a plain transfer''
              | Undelivered e \<Rightarrow> failP e
              | Answered needed \<Rightarrow>
                  let g = max (sat_mul needed 12 div 10) 21000 in
                  if g > MAX_TRANSFER_GAS
                  then refuse_sweep w r (''A transfer to the fee recipient needs '' @ show_nat g @ '' gas'')
                  else
                    bindP (priority_fee w) (\<lambda>tip.
                    bindP (liftP (required_fee (ch_base_fee h) tip)) (\<lambda>f.
                    let p = \<lparr>pl_nonce = k, pl_gas = g, pl_fee = f, pl_priority = tip,
                             pl_payload = ''0x'', pl_kind = ''sweep''\<rparr> in
                    if plan_over_budget w p \<noteq> None then refuse_sweep w r ''Transfer exceeds a fee cap''
                    else case plan (w_parse_id w) r b (f * g) (sweep_reserve w) (unit_of_kind (kind_of w)) of
                           Inl detail \<Rightarrow> refuse_sweep w r detail
                         | Inr value \<Rightarrow> sign_sweep w r p to value h))) (\<lambda>_ _. True)"
    if k: "int k < i64_max" for x k b to
  proof (cases x)
    case (Answered needed)
    show ?thesis
      unfolding Answered answer.simps Let_def [of "max (sat_mul needed 12 div 10) 21000"]
      by (rule does_if, intro does_any easing, rule u, intro easing, rule u, intro easing, rule sg [OF k])
  qed (simp_all add: does_any easing)
  show ?thesis
    unfolding start_sweep_def
    by (rule u, intro easing, rule does_learn [OF _ track_unrecorded n], intro easing, rule u, intro easing, rule does_if,
        intro does_any easing, rule u, intro easing, rule does_if, intro does_any easing, rule u, intro easing,
        rule u, intro easing, erule e)
qed

lemma does_finish_sweep:
  assumes "hn (sg_hash tx) = sa_nonce a" and "w_settled w m0 (sg_hash tx) c = Inr True"
  shows "does (lane_step hn w) (sweeping a) (finish_sweep w a tx c) (\<lambda>_ _. True)"
proof -
  have n: "int (hn (sg_hash tx)) = int (sa_nonce a)" using assms(1) by simp
  have e: "evidence_for hn w (int (sa_nonce a))" unfolding evidence_for_def using n assms(2) by blast
  have f: "does (lane_step hn w) (sweeping a) (on_journal (txP (finish_marked (sa_nonce a) x m))) (\<lambda>_ _. True)"
    if "settles_with hn (int (sa_nonce a)) m" for x m
    by (rule does_tx) (use e that in \<open>auto intro: lane_step.sweep_ends\<close>)
  show ?thesis
    unfolding finish_sweep_def Let_def
    by (rule does_then [OF _ track_sweeping], intro easing, rule does_then [OF _ track_sweeping], intro easing,
        rule does_then [OF _ track_sweeping], intro easing,
        rule does_learn [OF _ track_sweeping gives_receipt_mark(1) [where hn = hn and h = "sg_hash tx", OF n]], intro easing,
        rule does_True, erule f, intro does_any easing)
qed

lemma does_cancel_sweep:
  assumes "length (sa_txs a) < MAX_ATTEMPTS"
  shows "does (lane_step hn w) (sweeping a) (cancel_sweep w a h now) (\<lambda>_ _. True)"
  unfolding cancel_sweep_def
proof (rule does_then [OF _ track_sweeping], intro easing, rule does_pair, rule does_then [OF _ track_sweeping], intro easing)
  fix f q g
  let ?p = "\<lparr>pl_nonce = sa_nonce a, pl_gas = g, pl_fee = f, pl_priority = q, pl_payload = ''0x'', pl_kind = ''cancel''\<rparr>"
  have sv: "does (lane_step hn w) (\<lambda>s. sweeping a s \<and> \<not> sending_halted w s)
      (on_journal (txP (save_marked (a\<lparr>sa_txs := sa_txs a @ [t]\<rparr>) m))) (\<lambda>_. sweeping (a\<lparr>sa_txs := sa_txs a @ [t]\<rparr>))"
    if t: "w_sign w ?p To_Wallet 0 = Inr (sg_hash t, sg_raw t)" and m: "signs_with m" and b: "plan_over_budget w ?p = None"
    for t :: signed_tx and m
  proof (rule does_tx)
    fix s j assume P: "sweeping a s \<and> \<not> sending_halted w s"
      and j: "save_marked (a\<lparr>sa_txs := sa_txs a @ [t]\<rparr>) m (wk_journal s) = Inr j"
    have "lane_step hn w s (s\<lparr>wk_journal := j\<rparr>)"
      by (rule lane_step.sweep_cancels [OF _ _ m b t _ _ j]) (use P assms in simp_all)
    moreover have "sweep_attempt_of j = Inr (Some (a\<lparr>sa_txs := sa_txs a @ [t]\<rparr>))"
      by (rule stored_sweep) (rule save_marked_Inr(3) [OF j])
    ultimately show "lane_step hn w s (s\<lparr>wk_journal := j\<rparr>) \<and> sweeping (a\<lparr>sa_txs := sa_txs a @ [t]\<rparr>) (s\<lparr>wk_journal := j\<rparr>)"
      by simp
  qed
  show "does (lane_step hn w) (sweeping a) (let plan' = ?p in
     if plan_over_budget w plan' \<noteq> None then defer_for_budget w
     else bindP (verify_runtime w) (\<lambda>_. bindP (sign_transfer w plan' To_Wallet 0 now) (\<lambda>signed'.
       bindP (sign_mark w h (sg_hash signed')) (\<lambda>m. let a' = a\<lparr>sa_txs := sa_txs a @ [signed']\<rparr> in
       bindP (on_journal (txP (save_marked a' m))) (\<lambda>_. broadcast_sweep w a'))))) (\<lambda>_ _. True)"
    unfolding Let_def
    by (rule does_if, intro does_any easing, rule does_then [OF _ track_sweeping], intro easing,
        rule does_transfer [OF track_sweeping], rule does_learn [OF _ track_sweeping_now gives_sign_mark], intro easing,
        rule does_bindP [OF sv does_broadcast_sweep], simp_all)
qed

lemma does_reconcile_sweep:
  assumes "\<forall>t \<in> set (sa_txs a). hn (sg_hash t) = sa_nonce a"
  shows "does (lane_step hn w) (sweeping a) (reconcile_sweep w a h) (\<lambda>_ _. True)"
  unfolding reconcile_sweep_def
proof (rule does_learn [OF _ track_sweeping gives_first_receipt], intro easing)
  note u = does_then [OF _ track_sweeping]
  fix fd :: "(signed_tx \<times> chain_receipt) option"
  assume fd: "\<forall>t c. fd = Some (t, c) \<longrightarrow> t \<in> set (sa_txs a)"
  let ?g = "if sa_txs a = [] then failP (Bail ''Sweep attempt has no transaction'')
          else let tx = last (sa_txs a) in
            bindP (askR (w_now w)) (\<lambda>now.
            bindP (decision_nonce w h) (\<lambda>chain_nonce.
              if chain_nonce > sa_nonce a then
                if sat_sub now (max (sg_broadcast tx) (sg_created tx)) < RECEIPT_VISIBILITY_GRACE_SECONDS
                then pureP True
                else failP (Bail ''Sweep nonce consumed but no sweep receipt found'')
              else
                bindP (readP (sending_halted w)) (\<lambda>halted.
                  if \<not> c_send (w_cfg w) \<or> halted then pureP True
                  else if sat_sub now (sg_created tx) \<ge> REPLACE_AFTER_SECONDS \<and> length (sa_txs a) < MAX_ATTEMPTS
                  then bindP (cancel_sweep w a h now) (\<lambda>_. pureP True)
                  else if sat_sub now (sg_broadcast tx) \<ge> 2
                  then bindP (broadcast_sweep w a) (\<lambda>_. pureP True)
                  else pureP True)))"
  have g: "does (lane_step hn w) (sweeping a) ?g (\<lambda>_ _. True)"
    unfolding Let_def
    by (rule does_if, intro does_any easing, rule u, intro easing, rule u, intro easing, rule does_if, intro does_any easing,
        rule u, intro easing, rule does_if, intro does_any easing, rule does_if, rule does_True, rule does_cancel_sweep, simp,
        intro does_any easing, rule does_if, rule does_True [OF does_broadcast_sweep], (intro does_any easing)+)
  show "does (lane_step hn w) (sweeping a) (case fd of
        Some (tx, c) \<Rightarrow> bindP (receipt_settled w (sg_hash tx) c) (\<lambda>ok. if ok then finish_sweep w a tx c else pureP True)
      | None \<Rightarrow> ?g) (\<lambda>_ _. True)"
  proof (cases fd)
    case None
    then show ?thesis using g by simp
  next
    case (Some x)
    obtain t c where x: "x = (t, c)" by (cases x)
    have n: "hn (sg_hash t) = sa_nonce a" using fd assms Some x by simp
    have "does (lane_step hn w) (sweeping a) (bindP (receipt_settled w (sg_hash t) c)
        (\<lambda>ok. if ok then finish_sweep w a t c else pureP True)) (\<lambda>_ _. True)"
      by (rule does_learn [OF _ track_sweeping gives_settled], intro easing, rule does_if)
         (auto intro: does_finish_sweep [where hn = hn and tx = t, OF n] does_any easing)
    then show ?thesis using Some x by simp
  qed
qed

text \<open>The sweep of a tick is a run of the machine. While the gate is closed no mismatch is on record.\<close>

definition gate_told :: "worker \<Rightarrow> bool" where
  "gate_told s = (\<not> wk_finality_open s \<longrightarrow> meta (wk_journal s) MISMATCH_KEY = None)"

lemma does_sweep:
  assumes "chain_nonces_fit w"
  shows "does (lane_step hn w) (\<lambda>s. fits hn (wk_journal s) \<and> gate_told s) (sweep w h) (\<lambda>_ _. True)"
proof (rule doesI)
  fix s :: worker assume P: "fits hn (wk_journal s) \<and> gate_told s"
  let ?R = "\<lambda>p :: bool tick. rtranclp (lane_step hn w) s (snd (p s))"
  have e: "?R p" if "easy p" for p using easy_run [OF that] .
  have "?R (sweep w h)"
  proof (cases "wk_recovery_lane s")
    case True
    then show ?thesis by (simp add: sweep_def prog_defs)
  next
    case lane: False
    show ?thesis
    proof (cases "sweep_attempt_of (wk_journal s)")
      case (Inl x)
      then show ?thesis using lane by (simp add: sweep_def prog_defs on_journal_def)
    next
      case (Inr x)
      show ?thesis
      proof (cases x)
        case (Some a)
        have "\<forall>t \<in> set (sa_txs a). hn (sg_hash t) = sa_nonce a"
          using sweep_present(4) [of hn "wk_journal s" a] P Inr Some by simp
        then have "?R (reconcile_sweep w a h)" by (rule doesD(1) [OF does_reconcile_sweep]) (use Inr Some in simp)
        then show ?thesis using lane Inr Some by (simp add: sweep_def prog_defs on_journal_def)
      next
        case None
        let ?p = "bindP (on_journal (readRP sweep_request_of)) (\<lambda>queued. case queued of
                     None \<Rightarrow> pureP False
                   | Some r \<Rightarrow>
                       if \<not> lane_sends w
                       then refuse_sweep w r ''A round coordinator's keeper sends nothing yet: queue the sweep again once it serves requests''
                       else start_sweep w r h)"
        have "?R ?p" if "unrecorded s"
        proof (rule doesD(1) [where P = unrecorded])
          show "does (lane_step hn w) unrecorded ?p (\<lambda>_ _. True)"
            by (rule does_then [OF _ track_unrecorded], intro easing, rule does_option, intro does_any easing, rule does_if,
                intro does_any easing, rule does_start_sweep [OF assms])
        qed (rule that)
        then show ?thesis
          using lane Inr None P by (simp add: sweep_def prog_defs on_journal_def gate_told_def)
      qed
    qed
  qed
  then show "rtranclp (lane_step hn w) s (snd (sweep w h s)) \<and> (\<forall>a. fst (sweep w h s) = Inr a \<longrightarrow> True)" by simp
qed

end
