(* ===== verification/Recovery_Run.thy ===== *)
theory Recovery_Run
  imports Ticks
begin

text \<open>
  The recovery of \<open>Recovery\<close> as runs of the machine: the walk through the marks, the fill of a nonce, the nonce
  taken back and the end of the recovery go through steps of \<open>lane_step\<close> alone.
\<close>

section \<open>Its bookkeeping\<close>

lemma recovery_keys_free [simp]:
  "SCAN_KEY \<notin> GUARDED" "SINCE_KEY \<notin> GUARDED" "JOBS_KEY \<notin> GUARDED" "REWIND_KEY \<notin> GUARDED" "STATS_KEY \<notin> GUARDED"
  "ABOVE_HEAD_KEY \<notin> GUARDED" "''cursor'' \<notin> GUARDED" "cp_key SOFT_CHECKPOINT \<notin> GUARDED"
  by (auto simp: GUARDED_def SCAN_KEY_def SINCE_KEY_def JOBS_KEY_def REWIND_KEY_def STATS_KEY_def ABOVE_HEAD_KEY_def
      NONCE_FLOOR_KEY_def SWEEP_ATTEMPT_KEY_def FILL_KEY_def MISMATCH_KEY_def SOFT_CHECKPOINT_def)

lemma easy_counts [easing]: "easy (set_lane b)" "easy (count_up f)" "easy (execP (\<lambda>s. s\<lparr>wk_stats := g s\<rparr>))"
proof -
  have x: "easy (execP (\<lambda>s. s\<lparr>wk_recovery_lane := b s, wk_stats := f s\<rparr>))" for b f
    unfolding easy_def execP_def by (auto intro: r_into_rtranclp easy_step.intros)
  show "easy (set_lane b)" unfolding set_lane_def using x [where b = "\<lambda>_. b" and f = wk_stats] by simp
  show g: "easy (execP (\<lambda>s. s\<lparr>wk_stats := g s\<rparr>))" for g using x [where b = wk_recovery_lane and f = g] by simp
  show "easy (count_up f)" unfolding count_up_def by (rule g)
qed

lemma calm_same: "txs j' = txs j \<Longrightarrow> (\<And>k. k \<in> GUARDED \<Longrightarrow> meta j' k = meta j k) \<Longrightarrow> soft_marks j' = soft_marks j \<Longrightarrow> calm j j'"
  using marked_cong [of j' j] by (simp add: calm_def)

lemma calm_recovery:
  "k \<notin> GUARDED \<Longrightarrow> calm j (set_meta k v j)" "calm j (reprove_job i d j)" "calm j (reopen_job i j)" "calm j (lower_cursor n j)"
  "uncommit_epoch e j = Inr (m, j') \<Longrightarrow> calm j j'" "replace_marks ms None j = Inr j' \<Longrightarrow> calm j j'"
  "rebase_soft_decision b h t j = Inr j' \<Longrightarrow> calm j j'"
proof -
  show "k \<notin> GUARDED \<Longrightarrow> calm j (set_meta k v j)" unfolding set_meta_def by (rule calm_meta)
  show "calm j (lower_cursor n j)" unfolding lower_cursor_def by (auto split: option.split intro!: calm_meta)
  show "calm j (reopen_job i j)" unfolding reopen_job_def by (intro calm_bookkeeping bookkeeping_update_jobs)
  show "uncommit_epoch e j = Inr (m, j') \<Longrightarrow> calm j j'"
    by (rule calm_same) (auto simp: uncommit_epoch_def result_simps)
  show "replace_marks ms None j = Inr j' \<Longrightarrow> calm j j'"
    using replace_marks_rest [of ms None j j'] marked_replace [of ms None j j'] by (simp add: calm_def named_def)
  have "bookkeeping j (reprove_job i d j)" unfolding reprove_job_def by (simp add: bookkeeping_trans [OF bookkeeping_update_jobs clear_backoffs_bookkeeping])
  then show "calm j (reprove_job i d j)" by (rule calm_bookkeeping)
  assume "rebase_soft_decision b h t j = Inr j'"
  then obtain j2 r rows where d: "delete_marks (\<lambda>r. mr_kind r = ''head'') (meta_put (cp_key SOFT_CHECKPOINT) (encode_block b h) j) = Inr j2"
    and rows: "soft_marks j2 = Some rows" and j': "j' = j2\<lparr>soft_marks := Some (rows @ [r])\<rparr>" and r: "mr_kind r = ''head''"
    unfolding rebase_soft_decision_def Let_def bindR_Inr_iff table_def by (auto simp: ok_or_def split: option.splits)
  have "marked j' = marked j2" using rows r unfolding j' marked_def mark_rows_def by auto
  moreover have "marked j2 \<subseteq> marked j"
    using marked_delete [OF d] marked_cong [of "meta_put (cp_key SOFT_CHECKPOINT) (encode_block b h) j" j] by simp
  moreover have "txs j2 = txs j" "\<forall>k \<in> GUARDED. meta j2 k = meta j k"
    using d by (auto simp: delete_marks_def result_simps recovery_keys_free)
  ultimately show "calm j j'" unfolding j' by (simp add: calm_def)
qed

lemma easy_scan_reads [easing]:
  "easy (waited_above_head w)" "easy reset_above_head_wait" "easy (canonical_hashes w ns)" "easy (last_need f)"
  "easy (fill_prices w f h)" "easy (proof_seed_at w i h)"
proof -
  show "easy (waited_above_head w)" "easy reset_above_head_wait"
    unfolding waited_above_head_def reset_above_head_wait_def by (intro easing calm_recovery calm_meta; auto)+
  show "easy (canonical_hashes w ns)" "easy (last_need f)" "easy (fill_prices w f h)" "easy (proof_seed_at w i h)"
    unfolding canonical_hashes_def last_need_def fill_prices_def proof_seed_at_def by (intro easing)+
qed

lemma easy_stale_lane [easing]: "easy (stale_in_lane w n h)"
proof -
  have "easy (any_stale_seed w h ps)" for ps
  proof (induction ps)
    case (Cons p ps)
    show ?case unfolding any_stale_seed.simps by (intro easing Cons)
  qed (simp add: easing)
  then show ?thesis unfolding stale_in_lane_def by (intro easing)
qed

lemma easy_reclassify_job [easing]: "easy (reclassify_job w job r q h)" "easy (reclassify_each w h n xs)"
proof -
  show j: "easy (reclassify_job w job r q h)" for job r q
    unfolding reclassify_job_def by (intro easing calm_recovery calm_health)
  show "easy (reclassify_each w h n xs)"
  proof (induction xs arbitrary: n)
    case (Cons x xs)
    show ?case unfolding reclassify_each.simps by (intro easing j Cons)
  qed (simp add: easing)
qed

lemma easy_rewind [easing]: "easy (rewind_from w b t steps low high)" "easy (rewind_discovery w h t)"
proof -
  show r: "easy (rewind_from w b t steps low high)" for b t steps low high
  proof (induction w b t steps low high rule: rewind_from.induct)
    case (1 w b t steps low high)
    show ?case
      by (subst rewind_from.simps) (intro easing calm_recovery recovery_keys_free 1)
  qed
  show "easy (rewind_discovery w h t)"
    unfolding rewind_discovery_def by (intro easing calm_recovery recovery_keys_free r)
qed

lemma easy_reclassify [easing]: "easy (reclassify_jobs w h)" "easy (reclassify_epochs w h)"
proof -
  have p: "easy (page_requests w ids h)" for ids unfolding page_requests_def by (intro easing)
  have s: "easy (reclassify_since w h)" unfolding reclassify_since_def by (intro easing calm_recovery recovery_keys_free)
  show "easy (reclassify_jobs w h)"
    unfolding reclassify_jobs_def by (intro easing p s calm_recovery recovery_keys_free)
  have "easy (reclassify_epoch w h e)" for e
  proof -
    have c: "easy (case x of Answered True \<Rightarrow> p | Answered False \<Rightarrow> q | Refused \<Rightarrow> r | Undelivered z \<Rightarrow> t z)"
      if "easy p" "easy q" "easy r" "\<And>z. easy (t z)" for x p q r t using that by (auto split: answer.split bool.split)
    show ?thesis unfolding reclassify_epoch_def
      by (intro easing c) (erule calm_recovery)
  qed
  then show "easy (reclassify_epochs w h)" unfolding reclassify_epochs_def by (intro easing)
qed

section \<open>The fill\<close>

abbreviation filling :: "fill \<Rightarrow> worker \<Rightarrow> bool" where
  "filling f \<equiv> (\<lambda>s. fill_of (wk_journal s) = Inr (Some f))"

lemma track_filling [intro, simp]: "tracked (filling f)"
  by (rule tracked_journal) (simp add: calm_def GUARDED_def fill_of_def read_json_def)

lemma track_filling_now [intro, simp]: "tracked (\<lambda>s. filling f s \<and> \<not> sending_halted w s)"
  by (intro tracked_conj track_filling tracked_guarded(5))

lemma stored_fill: "meta j FILL_KEY = Some (Json (encode_fill f)) \<Longrightarrow> fill_of j = Inr (Some f)"
  by (simp add: fill_of_def read_json_def optR_Some ok_or_def)

lemma does_broadcast_fill: "does (lane_step hn w) (filling f) (broadcast_fill w f) (\<lambda>_ _. True)"
  unfolding broadcast_fill_def
proof (rule does_not_halted [OF track_filling], rule does_then [OF _ track_filling_now], intro easing,
    rule does_if, rule does_any, intro easing, rule does_then [OF _ track_filling_now], intro easing, unfold Let_def)
  fix now
  let ?tx = "(last (fi_txs f))\<lparr>sg_broadcast := now\<rparr>"
  let ?f = "f\<lparr>fi_txs := butlast (fi_txs f) @ [?tx]\<rparr>"
  assume n: "fi_txs f \<noteq> []"
  have b: "does (lane_step hn w) (\<lambda>s. filling f s \<and> \<not> sending_halted w s) (on_journal (execP (set_meta FILL_KEY (Json (encode_fill ?f)))))
      (\<lambda>_ s. filling ?f s \<and> \<not> sending_halted w s)"
  proof (rule does_put)
    fix s :: worker
    let ?j = "set_meta FILL_KEY (Json (encode_fill ?f)) (wk_journal s)"
    assume P: "filling f s \<and> \<not> sending_halted w s"
    have "lane_step hn w s (s\<lparr>wk_journal := ?j\<rparr>)" using P n by (intro lane_step.fill_broadcasts [of s f]) auto
    moreover have "fill_of ?j = Inr (Some ?f)" by (rule stored_fill) (simp add: set_meta_def)
    ultimately show "lane_step hn w s (s\<lparr>wk_journal := ?j\<rparr>) \<and> filling ?f (s\<lparr>wk_journal := ?j\<rparr>)
        \<and> \<not> sending_halted w (s\<lparr>wk_journal := ?j\<rparr>)" using P by (simp add: sending_halted_def)
  qed
  have r: "does (lane_step hn w) (\<lambda>s. filling ?f s \<and> \<not> sending_halted w s) (send_raw w (sg_raw ?tx) (sg_hash ?tx)) (\<lambda>_ _. True)"
    by (rule does_send_raw) (auto simp: journaled_def)
  have e: "easy (case x of Rejected reason \<Rightarrow> if kind_of w = Round \<and> reason = ''insufficient_funds''
              then bindP (last_need ?f) (funds_short w) else pureP () | _ \<Rightarrow> pureP ())" for x
    by (cases x) (auto intro!: easing)
  show "does (lane_step hn w) (\<lambda>s. filling f s \<and> \<not> sending_halted w s)
     (bindP (on_journal (execP (set_meta FILL_KEY (Json (encode_fill ?f))))) (\<lambda>_.
         bindP (send_raw w (sg_raw ?tx) (sg_hash ?tx)) (\<lambda>outcome. case outcome of
            Rejected reason \<Rightarrow>
              if kind_of w = Round \<and> reason = ''insufficient_funds''
              then bindP (last_need ?f) (funds_short w) else pureP ()
          | _ \<Rightarrow> pureP ()))) (\<lambda>_ _. True)"
    by (rule does_bindP [OF b], rule does_True [OF r], rule does_any [OF e])
qed

lemma does_sign_fill:
  assumes "length (fi_txs f) < FILL_ATTEMPTS"
  shows "does (lane_step hn w) (filling f) (sign_fill w f h now) (\<lambda>_ _. True)"
  unfolding sign_fill_def
proof (rule does_then [OF _ track_filling], intro easing, rule does_pair, rule does_then [OF _ track_filling], intro easing)
  fix fe q g
  let ?p = "\<lparr>pl_nonce = fi_nonce f, pl_gas = g, pl_fee = fe, pl_priority = q, pl_payload = ''0x'', pl_kind = ''cancel''\<rparr>"
  have sv: "does (lane_step hn w) (\<lambda>s. filling f s \<and> \<not> sending_halted w s)
      (on_journal (txP (set_meta_marked FILL_KEY (Json (encode_fill (f\<lparr>fi_txs := fi_txs f @ [t]\<rparr>))) m)))
      (\<lambda>_. filling (f\<lparr>fi_txs := fi_txs f @ [t]\<rparr>))"
    if t: "w_sign w ?p To_Wallet 0 = Inr (sg_hash t, sg_raw t)" and m: "signs_with m" and b: "plan_over_budget w ?p = None"
    for t :: signed_tx and m
  proof (rule does_tx)
    fix s j assume P: "filling f s \<and> \<not> sending_halted w s"
      and j: "set_meta_marked FILL_KEY (Json (encode_fill (f\<lparr>fi_txs := fi_txs f @ [t]\<rparr>))) m (wk_journal s) = Inr j"
    have "lane_step hn w s (s\<lparr>wk_journal := j\<rparr>)"
      by (rule lane_step.fill_signs [OF _ _ m b t _ _ j]) (use P assms in simp_all)
    moreover have "fill_of j = Inr (Some (f\<lparr>fi_txs := fi_txs f @ [t]\<rparr>))"
      by (rule stored_fill) (use set_meta_marked_Inr [OF j] in simp)
    ultimately show "lane_step hn w s (s\<lparr>wk_journal := j\<rparr>) \<and> filling (f\<lparr>fi_txs := fi_txs f @ [t]\<rparr>) (s\<lparr>wk_journal := j\<rparr>)"
      by simp
  qed
  show "does (lane_step hn w) (filling f) (let plan' = ?p in
     if plan_over_budget w plan' \<noteq> None then defer_for_budget w
     else bindP (verify_runtime w) (\<lambda>_. bindP (sign_transfer w plan' To_Wallet 0 now) (\<lambda>signed'.
       bindP (sign_mark w h (sg_hash signed')) (\<lambda>m. let f' = f\<lparr>fi_txs := fi_txs f @ [signed']\<rparr> in
       bindP (on_journal (txP (set_meta_marked FILL_KEY (Json (encode_fill f')) m))) (\<lambda>_. broadcast_fill w f'))))) (\<lambda>_ _. True)"
    unfolding Let_def
    by (rule does_if, intro does_any easing, rule does_then [OF _ track_filling], intro easing,
        rule does_transfer [OF track_filling], rule does_learn [OF _ track_filling_now gives_sign_mark], intro easing,
        rule does_bindP [OF sv does_broadcast_fill], simp_all)
qed

lemma does_fill_settled:
  assumes "evidence_for hn w (int (fi_nonce f))" and "settles_with hn (int (fi_nonce f)) m"
  shows "does (lane_step hn w) (filling f) (fill_settled f hs m) (\<lambda>_ _. True)"
  unfolding fill_settled_def by (rule does_tx) (use assms in \<open>auto intro: lane_step.fill_ends\<close>)

text \<open>A fill whose transactions all have its nonce.\<close>

definition fill_of_nonce :: "(string \<Rightarrow> nat) \<Rightarrow> fill \<Rightarrow> bool" where
  "fill_of_nonce hn f = (\<forall>h \<in> set (map sg_hash (fi_txs f) @ fi_known f). hn h = fi_nonce f)"

lemma does_fill_receipt:
  assumes "fill_of_nonce hn f" and "h \<in> set (map sg_hash (fi_txs f) @ fi_known f)" and "w_settled w m0 h c = Inr True"
  shows "does (lane_step hn w) (filling f) (bindP (receipt_mark w h c) (fill_settled f hs)) (\<lambda>_ _. True)"
proof -
  have n: "int (hn h) = int (fi_nonce f)" using assms(1,2) by (simp add: fill_of_nonce_def)
  have e: "evidence_for hn w (int (fi_nonce f))" unfolding evidence_for_def using n assms(3) by blast
  show ?thesis
    by (rule does_learn [OF _ track_filling gives_receipt_mark(1) [where hn = hn and h = h, OF n]], intro easing)
       (rule does_fill_settled [OF e])
qed

lemma does_fill_receipt_case:
  assumes "fill_of_nonce hn f" and "x \<in> set (map sg_hash (fi_txs f) @ fi_known f)"
  shows "does (lane_step hn w) (filling f) (bindP (receipt_settled w x c) (\<lambda>ok. if \<not> ok then pureP ()
      else bindP (receipt_mark w x c) (fill_settled f hs))) (\<lambda>_ _. True)"
proof (rule does_learn [OF _ track_filling gives_settled], intro easing, rule does_if, intro does_any easing)
  fix ok assume "ok \<longrightarrow> (\<exists>m. w_settled w m x c = Inr True)" "\<not> \<not> ok"
  then show "does (lane_step hn w) (filling f) (bindP (receipt_mark w x c) (fill_settled f hs)) (\<lambda>_ _. True)"
    using does_fill_receipt [OF assms] by blast
qed

text \<open>A fill whose nonce the chain has used.\<close>

lemma i64_try_nat: "i64_try e k = Inr n \<Longrightarrow> n = int k"
  by (auto simp: result_simps split: if_splits)

lemma does_fill_used:
  assumes f: "fill_of_nonce hn f" and k: "fi_nonce f < k" "w_nonce w m tag = Inr k"
  shows "does (lane_step hn w) (filling f) (bindP (settled_from_any w id (map sg_hash (fi_txs f) @ fi_known f)) (\<lambda>any. case any of
        Some (x, c) \<Rightarrow> bindP (receipt_mark w x c) (fill_settled f hs)
      | None \<Rightarrow> if c then pureP () else bindP (liftP (i64_try TryFromInt (fi_nonce f))) (\<lambda>n.
               bindP (nonce_mark w h n) (fill_settled f hs)))) (\<lambda>_ _. True)"
proof (rule does_learn [OF _ track_filling gives_any_receipt], intro easing, rule does_option)
  have "int (fi_nonce f) < int k" using k(1) by simp
  then have e: "evidence_for hn w (int (fi_nonce f))" unfolding evidence_for_def using k(2) by blast
  have "gives (liftP (i64_try TryFromInt (fi_nonce f))) (\<lambda>n. n = int (fi_nonce f))"
    by (auto intro!: gives_basic dest: i64_try_nat)
  note l = does_learn [OF _ track_filling this] does_learn [OF _ track_filling gives_nonce_mark [where hn = hn]]
  show "does (lane_step hn w) (filling f) (if c then pureP () else bindP (liftP (i64_try TryFromInt (fi_nonce f))) (\<lambda>n.
      bindP (nonce_mark w h n) (fill_settled f hs))) (\<lambda>_ _. True)"
    by (rule does_if, intro does_any easing, rule l(1), intro easing, rule l(2), intro easing,
        rule does_fill_settled [OF e], simp)
next
  fix any p
  assume "\<forall>x c. any = Some (x, c) \<longrightarrow> x \<in> set (map sg_hash (fi_txs f) @ fi_known f) \<and> (\<exists>m. w_settled w m (id x) c = Inr True)"
    and "any = Some p"
  then show "does (lane_step hn w) (filling f) (case p of (x, c) \<Rightarrow> bindP (receipt_mark w x c) (fill_settled f hs)) (\<lambda>_ _. True)"
    using does_fill_receipt [OF f] by (cases p) fastforce
qed

lemma does_step_fill:
  assumes "fill_of_nonce hn f"
  shows "does (lane_step hn w) (filling f) (step_fill w f h) (\<lambda>_ _. True)"
  unfolding step_fill_def Let_def
proof (rule does_learn [OF _ track_filling gives_first_receipt], intro easing, rule does_option)
  let ?hs = "map sg_hash (fi_txs f) @ fi_known f"
  note u = does_then [OF _ track_filling] and l = does_learn [OF _ track_filling]
  show "does (lane_step hn w) (filling f) (bindP (askR (w_now w)) (\<lambda>now.
         bindP (decision_nonce w h) (\<lambda>chain_nonce.
           if chain_nonce > fi_nonce f then
             bindP (settled_from_any w id ?hs) (\<lambda>any. case any of
                Some (x, c) \<Rightarrow> bindP (receipt_mark w x c) (fill_settled f ?hs)
              | None \<Rightarrow>
                  if sat_sub now (if fi_txs f = [] then 0
                       else max (sg_broadcast (last (fi_txs f))) (sg_created (last (fi_txs f)))) < RECEIPT_VISIBILITY_GRACE_SECONDS
                  then pureP ()
                  else bindP (liftP (i64_try TryFromInt (fi_nonce f))) (\<lambda>n.
                       bindP (nonce_mark w h n) (fill_settled f ?hs)))
           else if \<not> c_send (w_cfg w) then pureP ()
           else if fi_txs f = [] \<or> (sat_sub now (sg_created (last (fi_txs f))) \<ge> FILL_REPLACE_SECONDS
                                    \<and> length (fi_txs f) < FILL_ATTEMPTS)
           then sign_fill w f h now
           else if sat_sub now (sg_broadcast (last (fi_txs f))) \<ge> 2 then broadcast_fill w f
           else pureP ()))) (\<lambda>_ _. True)"
    by (rule u, intro easing, rule l [OF _ gives_decision_nonce], intro easing, rule does_if, elim exE,
        rule does_fill_used [OF assms], assumption+, rule does_if, intro does_any easing, rule does_if,
        rule does_sign_fill, force, rule does_if, rule does_broadcast_fill, intro does_any easing)
  fix found and p :: "string \<times> chain_receipt" assume "\<forall>a c. found = Some (a, c) \<longrightarrow> a \<in> set ?hs" "found = Some p"
  then show "does (lane_step hn w) (filling f) (case p of (x, c) \<Rightarrow> bindP (receipt_settled w x c) (\<lambda>ok.
      if \<not> ok then pureP () else bindP (receipt_mark w x c) (fill_settled f ?hs))) (\<lambda>_ _. True)"
    using does_fill_receipt_case [OF assms] by (cases p) simp
qed

section \<open>The walk through the marks\<close>

text \<open>The recovery is between two nonces; the floor is \<open>f\<close>.\<close>

definition idle :: "(string \<Rightarrow> nat) \<Rightarrow> int \<Rightarrow> worker \<Rightarrow> bool" where
  "idle hn f s = (fits hn (wk_journal s) \<and> recovery_idle (wk_journal s) \<and> floor_value (wk_journal s) = f)"

lemma recovery_idle_cong:
  assumes "txs j' = txs j" and "\<And>k. k \<in> GUARDED \<Longrightarrow> meta j' k = meta j k"
  shows "recovery_idle j' = recovery_idle j"
proof -
  have "nonce_floor j' = nonce_floor j" using assms(1) assms(2) [of NONCE_FLOOR_KEY] by (simp add: nonce_floor_def GUARDED_def)
  then show ?thesis
    using assms(1) assms(2) [of FILL_KEY] assms(2) [of MISMATCH_KEY]
    by (simp add: recovery_idle_def reopened_live_def unresolved_def GUARDED_def)
qed

lemma track_idle [intro, simp]: "tracked (idle hn f)"
proof -
  have "recovery_idle j'" if "calm j j'" "recovery_idle j" for j j'
  proof -
    have "recovery_idle j' = recovery_idle j" by (rule recovery_idle_cong) (use that(1) in \<open>simp_all add: calm_def\<close>)
    then show ?thesis using that(2) by simp
  qed
  then have "tracked (\<lambda>s. recovery_idle (wk_journal s))" by (rule tracked_journal)
  then have "tracked (\<lambda>s. fits hn (wk_journal s) \<and> recovery_idle (wk_journal s) \<and> floor_value (wk_journal s) = f)"
    by (intro tracked_conj tracked_guarded(2) tracked_guarded(4) [where F = "\<lambda>x. x = f"])
  then show ?thesis by (simp add: tracked_def idle_def)
qed

lemma idle_consumes:
  assumes "idle hn f s" and "int n < f" and "settles_with hn (int n) m" and "replace_marks ms m (wk_journal s) = Inr j"
  shows "lane_step hn w s (s\<lparr>wk_journal := j\<rparr>)" "idle hn f (s\<lparr>wk_journal := j\<rparr>)"
proof -
  have f: "fits hn (wk_journal s)" "recovery_idle (wk_journal s)" "floor_value (wk_journal s) = f" using assms(1) by (simp_all add: idle_def)
  then show "lane_step hn w s (s\<lparr>wk_journal := j\<rparr>)" using assms by (auto intro: lane_step.consumes)
  have "txs j = txs (wk_journal s)" "meta j = meta (wk_journal s)" using replace_marks_rest [OF assms(4)] by simp_all
  note same = this
  have "recovery_idle j = recovery_idle (wk_journal s)" by (rule recovery_idle_cong) (simp_all add: same)
  moreover have "fits hn j" by (rule fits_consumes [OF f(1) _ assms(3,4)]) (simp add: f(3) assms(2))
  ultimately show "idle hn f (s\<lparr>wk_journal := j\<rparr>)" using f by (simp add: idle_def floor_value_def same)
qed

lemma does_consume:
  assumes "int n < f" and "settles_with hn (int n) m"
  shows "does (lane_step hn w) (idle hn f) (on_journal (txP (replace_marks ms m))) (\<lambda>_. idle hn f)"
  by (rule does_tx) (use idle_consumes [OF _ assms] in blast)

text \<open>A stale mark of a nonce below the floor.\<close>

definition mark_below :: "(string \<Rightarrow> nat) \<Rightarrow> int \<Rightarrow> mark \<Rightarrow> bool" where
  "mark_below hn f m = ((mk_kind m = Receipt \<longrightarrow> int (hn (mk_ref m)) < f)
     \<and> (\<forall>n. mk_kind m = Nonce \<longrightarrow> parse_uint u64_max (mk_ref m) = Some n \<longrightarrow> int n < f))"

lemma does_remark:
  assumes "int (hn (mk_ref m)) < f"
  shows "does (lane_step hn w) (idle hn f) (remark_foreign_receipt w m) (\<lambda>_. idle hn f)"
proof -
  have p: "does (lane_step hn w) (idle hn f) (pureP b) (\<lambda>_. idle hn f)" for b by (rule does_easy) (intro easing, simp)
  have r: "does (lane_step hn w) (idle hn f) (bindP (on_journal (txP (replace_marks [m] x))) (\<lambda>_. pureP True)) (\<lambda>_. idle hn f)"
    if "settles_with hn (int (hn (mk_ref m))) x" for x
    by (rule does_bindP [OF does_consume [OF assms that] p])
  have n: "settles_with hn (int (hn (mk_ref m))) None" by (simp add: settles_with_def)
  show ?thesis
    unfolding remark_foreign_receipt_def
    by (rule does_then [OF _ track_idle], intro easing, rule does_option, rule r [OF n],
        rule does_then [OF _ track_idle], intro easing, rule does_if, rule p,
        rule does_learn [OF _ track_idle gives_receipt_mark(1) [where hn = hn and h = "mk_ref m", OF refl]], intro easing,
        rule r)
qed

lemma nonce_of_fits:
  assumes "fits hn j" and "nonce_of h j = Inr (Some n)"
  shows "n = hn h"
proof -
  obtain t where t: "find (\<lambda>t. tx_hash t = h) (txs j) = Some t" "u64_try TryFromInt (nonce t) = Inr n"
    using assms(2) by (auto simp: nonce_of_def optR_Some split: option.splits)
  then have "t \<in> set (txs j)" "tx_hash t = h" by (auto simp: find_Some_iff)
  then show ?thesis using fitsD(1) [OF assms(1)] u64_try_nonce [OF t(2)] by (auto simp: rows_fit_def)
qed

definition nonces_below :: "int \<Rightarrow> (nat \<times> 'a) list \<Rightarrow> bool" where
  "nonces_below f ps = (\<forall>p \<in> set ps. int (fst p) < f)"

lemma does_sort_one:
  assumes "mark_below hn f m"
  shows "does (lane_step hn w) (idle hn f) (case mk_kind m of
              Head \<Rightarrow> pureP ([m], [], False)
            | Sign \<Rightarrow> pureP ([m], [], False)
            | Nonce \<Rightarrow> pureP (case parse_uint u64_max (mk_ref m) of
                          Some n \<Rightarrow> ([], [(n, m)], False) | None \<Rightarrow> ([m], [], False))
            | Receipt \<Rightarrow>
                bindP (on_journal (readRP (nonce_of (mk_ref m)))) (\<lambda>n. case n of
                   Some n' \<Rightarrow> pureP ([], [(n', m)], False)
                 | None \<Rightarrow> bindP (remark_foreign_receipt w m) (\<lambda>done. pureP ([], [], \<not> done))))
     (\<lambda>x s. idle hn f s \<and> nonces_below f (fst (snd x)))"
proof (cases "mk_kind m")
  case Receipt
  then have b: "int (hn (mk_ref m)) < f" using assms by (simp add: mark_below_def)
  have r: "does (lane_step hn w) (idle hn f) (on_journal (readRP (nonce_of (mk_ref m))))
      (\<lambda>n s. idle hn f s \<and> (\<forall>k. n = Some k \<longrightarrow> int k < f))"
    by (rule doesI) (use b nonce_of_fits in \<open>fastforce simp: on_journal_def readRP_def idle_def\<close>)
  have "does (lane_step hn w) (\<lambda>s. idle hn f s \<and> (\<forall>k. n = Some k \<longrightarrow> int k < f)) (case n of
                   Some n' \<Rightarrow> pureP ([], [(n', m)], False)
                 | None \<Rightarrow> bindP (remark_foreign_receipt w m) (\<lambda>done. pureP ([], [], \<not> done)))
     (\<lambda>x s. idle hn f s \<and> nonces_below f (fst (snd x)))" for n
  proof (cases n)
    case None
    have "does (lane_step hn w) (idle hn f) (bindP (remark_foreign_receipt w m) (\<lambda>done. pureP ([], [], \<not> done)))
       (\<lambda>x s. idle hn f s \<and> nonces_below f (fst (snd x)))"
      by (rule does_bindP [OF does_remark [where hn = hn, OF b]], rule does_pureP) (simp add: nonces_below_def)
    then show ?thesis using None by simp
  qed (auto intro!: does_pureP simp: nonces_below_def)
  then show ?thesis unfolding Receipt mark_kind.simps by (rule does_bindP [OF r])
qed (use assms in \<open>auto intro!: does_pureP simp: nonces_below_def mark_below_def split: option.split\<close>)

lemma does_sort_stale:
  "\<forall>m \<in> set ms. mark_below hn f m \<Longrightarrow>
   does (lane_step hn w) (idle hn f) (sort_stale w ms) (\<lambda>x s. idle hn f s \<and> nonces_below f (fst (snd x)))"
proof (induction ms)
  case Nil
  then show ?case by (auto intro!: does_pureP simp: nonces_below_def)
next
  case (Cons m ms)
  have step: "does (lane_step hn w) (\<lambda>s. idle hn f s \<and> nonces_below f (fst (snd x))) (bindP (sort_stale w ms) (\<lambda>y.
       pureP (fst x @ fst y, fst (snd x) @ fst (snd y), snd (snd x) \<or> snd (snd y))))
     (\<lambda>x s. idle hn f s \<and> nonces_below f (fst (snd x)))" for x :: "mark list \<times> (nat \<times> mark) list \<times> bool"
  proof (cases "nonces_below f (fst (snd x))")
    case True
    have "does (lane_step hn w) (idle hn f) (bindP (sort_stale w ms) (\<lambda>y.
       pureP (fst x @ fst y, fst (snd x) @ fst (snd y), snd (snd x) \<or> snd (snd y))))
       (\<lambda>x s. idle hn f s \<and> nonces_below f (fst (snd x)))"
      by (rule does_bindP [OF Cons.IH], use Cons.prems in simp, rule does_pureP)
         (use True in \<open>auto simp: nonces_below_def\<close>)
    then show ?thesis by (rule does_weaken) simp_all
  qed (simp add: does_def)
  show ?case
    unfolding sort_stale.simps
    by (rule does_bindP [OF does_sort_one step]) (use Cons.prems in simp)
qed

lemma marks_between_fit:
  assumes "fits hn j" and "marks_between lo hi j = Inr ms" and "m \<in> set ms"
  shows "mark_below hn (floor_value j) m"
proof -
  obtain rows where rows: "soft_marks j = Some rows" and ms: "mapR mark_from_row
      (sort_key mark_key (filter (\<lambda>r. int lo \<le> mr_number r \<and> mr_number r \<le> int hi) rows)) = Inr ms"
    using assms(2) by (auto simp: marks_between_def table_def ok_or_def bindR_Inr_iff dest!: i64_try_nat split: option.splits)
  obtain i where i: "i < length ms" "m = ms ! i" using assms(3) by (auto simp: in_set_conv_nth)
  let ?rs = "sort_key mark_key (filter (\<lambda>r. int lo \<le> mr_number r \<and> mr_number r \<le> int hi) rows)"
  have il: "i < length ?rs" using i(1) mapR_Inr_length [OF ms] by simp
  have r: "?rs ! i \<in> set rows" "mark_from_row (?rs ! i) = Inr m"
    using nth_mem [OF il] mapR_Inr_nth [OF ms il] i(2) by auto
  let ?r = "?rs ! i"
  have "kind_parse (mr_kind ?r) = Inr (mk_kind m)" "mr_ref ?r = mk_ref m"
    using r(2) by (auto simp: mark_from_row_def bindR_Inr_iff)
  moreover have "(mr_kind ?r, mr_ref ?r) \<in> marked j" if "mr_kind ?r = ''receipt'' \<or> mr_kind ?r = ''nonce''"
    using that r(1) rows by (simp add: marked_def mark_rows_def)
  ultimately have k: "(kind_name (mk_kind m), mk_ref m) \<in> marked j" if "mk_kind m = Receipt \<or> mk_kind m = Nonce"
    using that by (auto simp: kind_parse_Inr_iff)
  show ?thesis
    using fitsD(7) [OF assms(1)] k by (auto simp: marks_fit_def mark_below_def)
qed

definition scanned :: "(string \<Rightarrow> nat) \<Rightarrow> int \<Rightarrow> scan \<Rightarrow> worker \<Rightarrow> bool" where
  "scanned hn f sc s = (idle hn f s \<and> nonces_below f (sc_nonces sc))"

lemma does_marks_between:
  "does (lane_step hn w) (idle hn f) (on_journal (readRP (marks_between lo hi)))
     (\<lambda>ms s. idle hn f s \<and> (\<forall>m \<in> set ms. mark_below hn f m))"
  by (rule doesI) (auto simp: on_journal_def readRP_def idle_def dest: marks_between_fit)

lemma does_given: "(c \<Longrightarrow> does R P p Q) \<Longrightarrow> does R (\<lambda>s. P s \<and> c) p Q"
  by (auto simp: does_def)

text \<open>What follows the reading of a page.\<close>

lemma does_page:
  assumes "\<And>from'. does (lane_step hn w) (idle hn f) (again from') (scanned hn f)"
    and "nonces_below f (fst (snd x))"
  shows "does (lane_step hn w) (idle hn f) (case x of (gone, nonces, waits) \<Rightarrow>
             bindP (if gone = [] then pureP ()
                    else bindP (on_journal (txP (replace_marks gone None))) (\<lambda>_.
                           count_up (\<lambda>x. x\<lparr>marks_dropped := marks_dropped x + length gone\<rparr>))) (\<lambda>_.
               if nonces = [] \<and> \<not> waits
               then let from' = sat_add b 1 in
                 bindP (on_journal (execP (set_meta SCAN_KEY (Text (show_nat from'))))) (\<lambda>_. again from')
               else pureP \<lparr>sc_nonces = nonces, sc_complete = False\<rparr>)) (scanned hn f)"
  unfolding Let_def
  by (rule does_pair, rule does_pair, rule does_then [OF _ track_idle], intro easing, erule calm_recovery, rule does_if,
      rule does_then [OF _ track_idle], intro easing calm_recovery recovery_keys_free, rule assms(1), rule does_pureP)
     (use assms(2) in \<open>simp add: scanned_def\<close>)

lemma does_scan_pages: "does (lane_step hn w) (idle hn f) (scan_pages w tip shorter pages from) (scanned hn f)"
proof (induction pages arbitrary: "from")
  case 0
  show ?case by (auto intro!: does_pureP simp: scanned_def nonces_below_def)
next
  case (Suc pages)
  have p: "does (lane_step hn w) (idle hn f) (pureP \<lparr>sc_nonces = [], sc_complete = c\<rparr>) (scanned hn f)" for c
    by (auto intro!: does_pureP simp: scanned_def nonces_below_def)
  have g: "does (lane_step hn w) (\<lambda>s. idle hn f s \<and> (\<forall>m \<in> set ms. mark_below hn f m))
     (bindP (sort_stale w (filter P ms)) (\<lambda>(gone, nonces, waits).
             bindP (if gone = [] then pureP ()
                    else bindP (on_journal (txP (replace_marks gone None))) (\<lambda>_.
                           count_up (\<lambda>x. x\<lparr>marks_dropped := marks_dropped x + length gone\<rparr>))) (\<lambda>_.
               if nonces = [] \<and> \<not> waits
               then let from' = sat_add b 1 in
                 bindP (on_journal (execP (set_meta SCAN_KEY (Text (show_nat from'))))) (\<lambda>_. scan_pages w tip shorter pages from')
               else pureP \<lparr>sc_nonces = nonces, sc_complete = False\<rparr>))) (scanned hn f)" for ms P b
    by (rule does_given, rule does_bindP [OF does_sort_stale], simp, rule does_given, erule does_page [OF Suc])
  show ?case
    unfolding scan_pages.simps
    by (rule does_then [OF _ track_idle], intro easing, rule does_if, rule p, rule does_then [OF _ track_idle], intro easing,
        rule does_if, rule p, rule does_then [OF _ track_idle], intro easing, rule does_then [OF _ track_idle], intro easing,
        rule does_bindP [OF does_marks_between], rule g)
qed

lemma does_scan_marks: "does (lane_step hn w) (idle hn f) (scan_marks w h shorter) (scanned hn f)"
  unfolding scan_marks_def by (rule does_then [OF _ track_idle does_scan_pages]) (intro easing)

section \<open>A nonce taken back\<close>

lemma idle_fill:
  assumes "idle hn f s" and "int n < f"
    and x: "x = \<lparr>fi_nonce = n, fi_stale = b,
      fi_known = map tx_hash (sort_key tx_id (filter (\<lambda>t. nonce t = int n) (txs (wk_journal s)))), fi_txs = []\<rparr>"
  shows "lane_step hn w s (s\<lparr>wk_journal := begin_fill FILL_KEY (Json (encode_fill x)) (wk_journal s)\<rparr>)"
    "fill_of (begin_fill FILL_KEY (Json (encode_fill x)) (wk_journal s)) = Inr (Some x)" "fill_of_nonce hn x"
proof -
  let ?j = "begin_fill FILL_KEY (Json (encode_fill x)) (wk_journal s)"
  have f: "fits hn (wk_journal s)" "recovery_idle (wk_journal s)" "floor_value (wk_journal s) = f" using assms(1) by (simp_all add: idle_def)
  then show "lane_step hn w s (s\<lparr>wk_journal := ?j\<rparr>)" using assms(2) x by (auto intro: lane_step.fills)
  show "fill_of ?j = Inr (Some x)" by (rule stored_fill) (simp add: begin_fill_def)
  show "fill_of_nonce hn x" using fitsD(1) [OF f(1)] by (auto simp: fill_of_nonce_def x rows_fit_def)
qed

lemma does_start_fill:
  assumes "int n < f"
  shows "does (lane_step hn w) (idle hn f) (start_fill w h n b) (\<lambda>_ _. True)"
  unfolding start_fill_def Let_def
proof (rule does_learn [OF _ track_idle gives_lift], intro easing, rule does_bindP)
  fix n' assume "i64_try TryFromInt n = Inr n'"
  then have n': "n' = int n" by (rule i64_try_nat)
  let ?known = "\<lambda>s. map tx_hash (sort_key tx_id (filter (\<lambda>t. nonce t = int n) (txs (wk_journal s))))"
  show "does (lane_step hn w) (idle hn f) (on_journal (readP (\<lambda>j. map tx_hash (sort_key tx_id (filter (\<lambda>t. nonce t = n') (txs j))))))
     (\<lambda>known s. idle hn f s \<and> known = ?known s)"
    unfolding n' by (rule doesI) (simp add: on_journal_def readP_def)
  fix known
  let ?f = "\<lparr>fi_nonce = n, fi_stale = b, fi_known = known, fi_txs = []\<rparr>"
  have b: "does (lane_step hn w) (\<lambda>s. idle hn f s \<and> known = ?known s) (on_journal (execP (begin_fill FILL_KEY (Json (encode_fill ?f)))))
      (\<lambda>_ s. filling ?f s \<and> fill_of_nonce hn ?f)"
  proof (rule does_put)
    fix s :: worker
    assume P: "idle hn f s \<and> known = ?known s"
    then have "?f = \<lparr>fi_nonce = n, fi_stale = b, fi_known = ?known s, fi_txs = []\<rparr>" by simp
    note x = idle_fill [OF conjunct1 [OF P] assms this]
    show "lane_step hn w s (s\<lparr>wk_journal := begin_fill FILL_KEY (Json (encode_fill ?f)) (wk_journal s)\<rparr>)
        \<and> filling ?f (s\<lparr>wk_journal := begin_fill FILL_KEY (Json (encode_fill ?f)) (wk_journal s)\<rparr>) \<and> fill_of_nonce hn ?f"
      using x(2,3) by (intro conjI x(1)) simp_all
  qed
  show "does (lane_step hn w) (\<lambda>s. idle hn f s \<and> known = ?known s)
     (bindP (on_journal (execP (begin_fill FILL_KEY (Json (encode_fill ?f))))) (\<lambda>_.
     bindP (set_lane True) (\<lambda>_.
     bindP (count_up (\<lambda>x. x\<lparr>filled_nonces := filled_nonces x @ [n],
                             stale_nonces := (if b then stale_nonces x @ [n] else stale_nonces x)\<rparr>)) (\<lambda>_.
       step_fill w ?f h)))) (\<lambda>_ _. True)"
    by (rule does_bindP [OF b], rule does_given, rule does_then [OF _ track_filling], intro easing,
        rule does_then [OF _ track_filling], intro easing, erule does_step_fill)
qed

lemma does_reopen:
  assumes "int n < f"
  shows "does (lane_step hn w) (idle hn f) (on_journal (txvP (reopen_nonce n t now)))
     (\<lambda>r s. r = NoBytes \<longrightarrow> idle hn f s)"
proof (rule doesI)
  fix s :: worker
  assume P: "idle hn f s"
  have st: "lane_step hn w s (s\<lparr>wk_journal := j\<rparr>) \<and> (r = NoBytes \<longrightarrow> idle hn f (s\<lparr>wk_journal := j\<rparr>))"
    if "reopen_nonce n t now (wk_journal s) = Inr (r, j)" for r j
  proof (cases r)
    case NoBytes
    then have "j = wk_journal s"
      using that by (auto simp: reopen_nonce_def Let_def bindR_Inr_iff split: if_splits)
    then show ?thesis using P lane_step.books [OF calm_refl] by simp
  next
    case Reopened_Lane
    then show ?thesis
      using lane_step.reopens [of s n t now j hn w] P that assms by (simp add: idle_def)
  qed
  show "(lane_step hn w)\<^sup>*\<^sup>* s (snd (on_journal (txvP (reopen_nonce n t now)) s)) \<and>
      (\<forall>a. fst (on_journal (txvP (reopen_nonce n t now)) s) = Inr a \<longrightarrow> a = NoBytes \<longrightarrow>
        idle hn f (snd (on_journal (txvP (reopen_nonce n t now)) s)))"
    using st by (auto simp: on_journal_def txvP_def split: sum.splits prod.splits)
qed

lemma does_take_back:
  assumes n: "int n < f"
  shows "does (lane_step hn w) (idle hn f) (take_back w h k sc now n) (\<lambda>_ _. True)"
  unfolding take_back_def
proof (rule does_then [OF _ track_idle], intro easing, rule does_if, rule does_start_fill [OF n],
    rule does_bindP [OF does_reopen [OF n]])
  fix r
  let ?ms = "map snd (filter (\<lambda>p. fst p = n) (sc_nonces sc))"
  have "gives (liftP (i64_try TryFromInt n)) (\<lambda>x. x = int n)" by (auto intro!: gives_basic dest: i64_try_nat)
  note l = does_learn [OF _ track_idle this] does_learn [OF _ track_idle gives_nonce_mark [where hn = hn]]
  have m: "does (lane_step hn w) (idle hn f) (bindP (liftP (i64_try TryFromInt n)) (\<lambda>n'. bindP (nonce_mark w h n') (\<lambda>fresh.
      bindP (on_journal (txP (replace_marks ?ms fresh))) (\<lambda>_. count_up g)))) (\<lambda>_ _. True)" for g
    by (rule l(1), intro easing, rule l(2), intro easing, rule does_bindP [OF does_consume [OF n]], simp, intro does_any easing)
  show "does (lane_step hn w) (\<lambda>s. r = NoBytes \<longrightarrow> idle hn f s) (case r of
            Reopened_Lane \<Rightarrow> bindP (set_lane True) (\<lambda>_. count_up (\<lambda>x. x\<lparr>reopened_nonces := reopened_nonces x @ [n]\<rparr>))
          | NoBytes \<Rightarrow>
              if n < k then let marks = ?ms in
                bindP (liftP (i64_try TryFromInt n)) (\<lambda>n'. bindP (nonce_mark w h n') (\<lambda>fresh.
                bindP (on_journal (txP (replace_marks marks fresh))) (\<lambda>_.
                  count_up (\<lambda>x. x\<lparr>marks_replaced := marks_replaced x + length marks\<rparr>))))
              else start_fill w h n False) (\<lambda>_ _. True)"
  proof (cases r)
    case Reopened_Lane
    show ?thesis unfolding Reopened_Lane reopened.simps by (intro does_any easing)
  next
    case NoBytes
    show ?thesis unfolding NoBytes reopened.simps Let_def by (simp add: m does_start_fill [OF n])
  qed
qed

section \<open>The end of the recovery\<close>

lemma idle_unpark:
  assumes "idle hn f s"
  shows "lane_step hn w s (s\<lparr>wk_journal := snd (unpark_lanes (wk_journal s))\<rparr>)"
    "idle hn f (s\<lparr>wk_journal := snd (unpark_lanes (wk_journal s))\<rparr>)"
proof -
  let ?j = "wk_journal s" and ?j' = "snd (unpark_lanes (wk_journal s))"
  have f: "fits hn ?j" "recovery_idle ?j" "floor_value ?j = f" using assms by (simp_all add: idle_def)
  note d = fitsD [OF f(1)] and i = idle_lane [OF f(1,2)]
  have t: "txs ?j' = unpark (txs ?j)" and m: "meta ?j' = meta ?j" "soft_marks ?j' = soft_marks ?j" by (simp_all add: unpark_lanes_def)
  show "lane_step hn w s (s\<lparr>wk_journal := ?j'\<rparr>)" by (rule lane_step.unparks [OF f(2)])
  have fit: "fits hn ?j'" by (rule fits_unpark [OF f(1,2) t]) (simp_all add: m i)
  have "\<forall>a \<in> lane_nonces ?j'. floor_value ?j \<le> a"
    unfolding unpark_nonces [OF t] using i(1) lanes_fitD(3) [OF d(3)] by blast
  then have "\<not> reopened_live (nat (floor_value ?j)) ?j'"
    by (auto simp: reopened_live_def list_ex_iff unresolved_def lane_nonces_def nonces_where_def)
  then have "recovery_idle ?j'"
    using i nonce_floor_value [OF d(2)] m by (simp add: recovery_idle_def nonce_floor_def)
  then show "idle hn f (s\<lparr>wk_journal := ?j'\<rparr>)" using fit f(3) by (simp add: idle_def floor_value_def m)
qed

lemma does_finish_recovery: "does (lane_step hn w) (idle hn f) (finish_recovery w h incident ack sc now) (\<lambda>_ _. True)"
proof -
  note u = does_then [OF _ track_idle]
  have c: "does (lane_step hn w) (idle hn f) (on_journal (txP (clear_finality_incident x))) (\<lambda>_ _. True)" for x
    by (rule does_tx) (auto simp: idle_def intro: lane_step.clears)
  show ?thesis
    unfolding finish_recovery_def
    by (rule does_if, intro does_any easing, rule u, intro easing, rule does_if, intro does_any easing, rule u, intro easing,
        rule u, intro easing, rule u, intro easing, rule u, intro easing, rule u, intro easing, rule does_True [OF c],
        intro does_any easing)
qed

lemma next_nonce_below:
  assumes "nonces_below f (sc_nonces sc)" and "next_nonce k (nat f) sc = Some n"
  shows "int n < f"
proof -
  have "n \<in> set ((if k < nat f then [k] else []) @ map fst (sc_nonces sc))"
    using sql_min_Some [OF assms(2) [unfolded next_nonce_def]] by simp
  then show ?thesis using assms(1) by (auto simp: nonces_below_def split: if_splits)
qed

lemma does_journal_reads:
  "does R P (on_journal (readP r)) (\<lambda>a s. P s \<and> a = r (wk_journal s))"
  "does R P (on_journal (readRP q)) (\<lambda>a s. P s \<and> q (wk_journal s) = Inr a)"
  by (rule doesI, simp add: on_journal_def prog_defs)+

abbreviation on_record :: "(string \<Rightarrow> nat) \<Rightarrow> worker \<Rightarrow> bool" where
  "on_record hn \<equiv> (\<lambda>s. fits hn (wk_journal s) \<and> meta (wk_journal s) MISMATCH_KEY \<noteq> None)"

lemma track_on_record [intro, simp]: "tracked (on_record hn)"
  by (intro tracked_conj tracked_guarded(2) tracked_guarded(3) [where Q = "\<lambda>x. x \<noteq> None"]) (simp add: GUARDED_def)

lemma becomes_idle:
  assumes "on_record hn s" and "fill_of (wk_journal s) = Inr None" and "nonce_floor (wk_journal s) = Inr n"
    and "\<not> reopened_live n (wk_journal s)"
  shows "idle hn (int n) s"
proof -
  have "meta (wk_journal s) FILL_KEY = None"
    using assms(2) by (cases "meta (wk_journal s) FILL_KEY") (auto simp: fill_of_def read_json_def optR_def result_simps)
  moreover have "floor_value (wk_journal s) = int n"
    using nonce_floor_value [OF fitsD(2)] assms(1,3) by fastforce
  ultimately show ?thesis using assms by (auto simp: idle_def recovery_idle_def)
qed

lemma does_lanes:
  "does (lane_step hn w) (idle hn (int n)) (bindP (set_lane False) (\<lambda>_.
              bindP (decision_nonce w h) (\<lambda>chain_nonce.
              bindP (scan_marks w h shorter) (\<lambda>sc.
                case next_nonce chain_nonce n sc of
                  None \<Rightarrow>
                    bindP (on_journal (execP (\<lambda>j. snd (unpark_lanes j)))) (\<lambda>_.
                      finish_recovery w h incident ack sc now)
                | Some n \<Rightarrow> bindP (take_back w h chain_nonce sc now n) (\<lambda>_. pureP Working))))) (\<lambda>_ _. True)"
proof -
  have p: "does (lane_step hn w) (idle hn (int n)) (on_journal (execP (\<lambda>j. snd (unpark_lanes j)))) (\<lambda>_. idle hn (int n))"
    by (rule does_put) (use idle_unpark in blast)
  have "does (lane_step hn w) (scanned hn (int n) sc) (case next_nonce k n sc of
                  None \<Rightarrow>
                    bindP (on_journal (execP (\<lambda>j. snd (unpark_lanes j)))) (\<lambda>_.
                      finish_recovery w h incident ack sc now)
                | Some n \<Rightarrow> bindP (take_back w h k sc now n) (\<lambda>_. pureP Working)) (\<lambda>_ _. True)" for k sc
    unfolding scanned_def
  proof (rule does_given, rule does_option, rule does_bindP [OF p does_finish_recovery])
    fix m assume "nonces_below (int n) (sc_nonces sc)" "next_nonce k n sc = Some m"
    then have "int m < int n" using next_nonce_below [of "int n" sc k m] by simp
    then show "does (lane_step hn w) (idle hn (int n)) (bindP (take_back w h k sc now m) (\<lambda>_. pureP Working)) (\<lambda>_ _. True)"
      by (intro does_True [OF does_take_back] does_any easing)
  qed
  note s = this
  show ?thesis
    by (rule does_then [OF _ track_idle], intro easing, rule does_then [OF _ track_idle], intro easing,
        rule does_bindP [OF does_scan_marks s])
qed

lemma does_recovery_step: "does (lane_step hn w) (on_record hn) (recovery_step w h incident ack) (\<lambda>_ _. True)"
  unfolding recovery_step_def
proof (rule does_then [OF _ track_on_record], intro easing, rule does_then [OF _ track_on_record], intro easing,
    erule calm_recovery, rule does_bindP [OF does_journal_reads(2)], rule does_option)
  fix now and filling' and f :: fill
  assume "filling' = Some f"
  have d: "does (lane_step hn w) (\<lambda>s. filling f s \<and> fill_of_nonce hn f) (bindP (set_lane True) (\<lambda>_. bindP (step_fill w f h) (\<lambda>_. pureP Working)))
      (\<lambda>_ _. True)"
    by (rule does_given, rule does_then [OF _ track_filling], intro easing, rule does_True [OF does_step_fill], assumption,
        intro does_any easing)
  have "fill_of_nonce hn f" if "fits hn j" "fill_of j = Inr (Some f)" for j
    using fill_present(4) [OF that] by (auto simp: fill_of_nonce_def)
  then show "does (lane_step hn w) (\<lambda>s. on_record hn s \<and> fill_of (wk_journal s) = Inr filling')
      (bindP (set_lane True) (\<lambda>_. bindP (step_fill w f h) (\<lambda>_. pureP Working))) (\<lambda>_ _. True)"
    unfolding \<open>filling' = Some f\<close> by (intro does_weaken [OF d]) auto
next
  fix now and filling' :: "fill option"
  assume n: "filling' = None"
  show "does (lane_step hn w) (\<lambda>s. on_record hn s \<and> fill_of (wk_journal s) = Inr filling')
     (bindP (on_journal (readRP nonce_floor)) (\<lambda>floor. bindP (on_journal (readP (reopened_live floor))) (\<lambda>reopened.
        if reopened then bindP (set_lane True) (\<lambda>_. pureP Working)
        else bindP (set_lane False) (\<lambda>_. bindP (decision_nonce w h) (\<lambda>chain_nonce.
          bindP (scan_marks w h (actual incident = ABSENT)) (\<lambda>sc. case next_nonce chain_nonce floor sc of
             None \<Rightarrow> bindP (on_journal (execP (\<lambda>j. snd (unpark_lanes j)))) (\<lambda>_. finish_recovery w h incident ack sc now)
           | Some n \<Rightarrow> bindP (take_back w h chain_nonce sc now n) (\<lambda>_. pureP Working))))))) (\<lambda>_ _. True)"
    unfolding n
    by (rule does_bindP [OF does_journal_reads(2)], rule does_bindP [OF does_journal_reads(1)], rule does_if,
        intro does_any easing, rule does_weaken [OF does_lanes]) (auto intro: becomes_idle)
qed

lemma does_tryP: "does R P p (\<lambda>_ _. True) \<Longrightarrow> does R P (tryP p) (\<lambda>_ _. True)"
  by (simp add: does_def tryP_def)

lemma does_recover_finality:
  "does (lane_step hn w) (on_record hn) (recover_finality w h incident ack) (\<lambda>_ _. True)"
proof -
  have "easy (case step of Inr (Cleared _) \<Rightarrow> pureP ()
      | _ \<Rightarrow> bindP (readP wk_stats) (\<lambda>st. on_journal (execP (set_meta STATS_KEY (Json (encode_stats st))))))" for step :: "error + recovery"
  proof -
    have "easy (bindP (readP wk_stats) (\<lambda>st. on_journal (execP (set_meta STATS_KEY (Json (encode_stats st))))))"
      by (intro easing calm_recovery recovery_keys_free)
    then show ?thesis by (auto split: sum.split recovery.split intro: easing)
  qed
  note e = this
  show ?thesis
    unfolding recover_finality_def
    by (rule does_then [OF _ track_on_record], intro easing, rule does_then [OF _ track_on_record], intro easing,
        rule does_True [OF does_tryP [OF does_recovery_step]], intro does_any easing e)
qed

end
