(* ===== verification/Round_Gas.thy ===== *)
theory Round_Gas
  imports Fees "HOL-Library.Product_Lexorder"
begin

text \<open>
  The gas of a round coordinator's fulfillment (\<open>round_gas.rs\<close>): the least gas limit at which it passes the
  coordinator's guards and the bound of what it can use, which the fee gate of \<open>worker/rounds.rs\<close> prices.
  Beside it stand the TypeScript model it is a port of (\<open>scripts/lib/round-gas.ts\<close>) and the guard of the
  contract (\<open>D20VRFCoordinatorRobinhood.sol\<close>).
\<close>

section \<open>The keeper's model\<close>

definition SINGLE_GAS :: nat where "SINGLE_GAS = 223400"
definition SINGLE_ROUND_GAS :: nat where "SINGLE_ROUND_GAS = 217300"
definition BATCH_GAS :: nat where "BATCH_GAS = 79500"
definition BATCH_MEMBER_GAS :: nat where "BATCH_MEMBER_GAS = 161400"
definition BATCH_ROUND_GAS :: nat where "BATCH_ROUND_GAS = 205600"
definition BATCH_MEMBER_ROUND_GAS :: nat where "BATCH_MEMBER_ROUND_GAS = 250"
definition VRF_CANDIDATE_GAS :: nat where "VRF_CANDIDATE_GAS = 5500"
definition FEES_WITHDRAWN_GAS :: nat where "FEES_WITHDRAWN_GAS = 17200"
definition ROBINHOOD_ROUND_EXCESS :: nat where "ROBINHOOD_ROUND_EXCESS = 17000"
definition PRICED_VRF_CANDIDATES :: nat where "PRICED_VRF_CANDIDATES = 10"
definition MAX_FULFILL_BATCH :: nat where "MAX_FULFILL_BATCH = 16"
definition ROUND_CALLBACK_RESERVE :: nat where "ROUND_CALLBACK_RESERVE = 140000"
definition ROUND_MEMBER_OVERHEAD :: nat where "ROUND_MEMBER_OVERHEAD = 400000"
definition LIMIT_MARGIN_PERCENT :: nat where "LIMIT_MARGIN_PERCENT = 1"
definition LIMIT_MARGIN_MIN :: nat where "LIMIT_MARGIN_MIN = 5000"
definition ESTIMATE_WARN_PER_MILLE :: nat where "ESTIMATE_WARN_PER_MILLE = 16"

definition ROUND_VERIFICATION :: nat where
  "ROUND_VERIFICATION = 400000 + 400000 div 63 + 5000"

lemmas round_consts = SINGLE_GAS_def SINGLE_ROUND_GAS_def BATCH_GAS_def BATCH_MEMBER_GAS_def BATCH_ROUND_GAS_def BATCH_MEMBER_ROUND_GAS_def
  VRF_CANDIDATE_GAS_def FEES_WITHDRAWN_GAS_def ROBINHOOD_ROUND_EXCESS_def PRICED_VRF_CANDIDATES_def MAX_FULFILL_BATCH_def ROUND_CALLBACK_RESERVE_def
  ROUND_MEMBER_OVERHEAD_def LIMIT_MARGIN_PERCENT_def LIMIT_MARGIN_MIN_def ESTIMATE_WARN_PER_MILLE_def ROUND_VERIFICATION_def

record shape =
  sh_batch :: bool
  sh_limits :: "nat list"
  sh_rounds :: nat
  sh_candidates :: "nat list option"
  sh_withdrawn :: bool

definition single_shape :: "nat \<Rightarrow> shape" where
  "single_shape limit = \<lparr>sh_batch = False, sh_limits = [limit], sh_rounds = 1, sh_candidates = None, sh_withdrawn = True\<rparr>"

definition batch_of :: "nat list \<Rightarrow> nat \<Rightarrow> shape" where
  "batch_of limits rounds = \<lparr>sh_batch = True, sh_limits = limits, sh_rounds = rounds, sh_candidates = None, sh_withdrawn = True\<rparr>"

definition with_candidates :: "nat list \<Rightarrow> shape \<Rightarrow> shape" where
  "with_candidates ks s = s\<lparr>sh_candidates := Some ks\<rparr>"

text \<open>What every formula reads of a shape, checked. The candidates are those after each proof's first.\<close>

record gas_parts =
  pt_members :: nat
  pt_rounds :: nat
  pt_callbacks :: nat
  pt_candidates :: nat

definition parts :: "shape \<Rightarrow> error + gas_parts" where
  "parts s =
     (let n = length (sh_limits s) in
      ensure (1 \<le> n \<and> n \<le> MAX_FULFILL_BATCH \<and> sh_rounds s \<le> n \<and> (sh_batch s \<or> n = 1 \<and> sh_rounds s \<le> 1)
          \<and> (case sh_candidates s of None \<Rightarrow> True | Some ks \<Rightarrow> length ks = n \<and> list_all (\<lambda>k. 1 \<le> k) ks))
        (Bail ''Invalid fulfillment shape'')
        (Inr \<lparr>pt_members = n, pt_rounds = sh_rounds s, pt_callbacks = sum_list (sh_limits s),
              pt_candidates = (case sh_candidates s of Some ks \<Rightarrow> sum_list (map (\<lambda>k. k - 1) ks)
                               | None \<Rightarrow> n * (PRICED_VRF_CANDIDATES - 1))\<rparr>))"

definition gas_bound :: "shape \<Rightarrow> error + nat" where
  "gas_bound s = bindR (parts s) (\<lambda>p.
     let n = pt_members p; r = pt_rounds p;
         fixed = (if sh_batch s
                  then BATCH_GAS + n * BATCH_MEMBER_GAS + r * BATCH_ROUND_GAS + n * r * BATCH_MEMBER_ROUND_GAS
                  else SINGLE_GAS + r * SINGLE_ROUND_GAS);
         withdrawn = (if sh_withdrawn s then FEES_WITHDRAWN_GAS else 0)
     in Inr (fixed + pt_callbacks p + pt_candidates p * VRF_CANDIDATE_GAS + withdrawn + r * ROBINHOOD_ROUND_EXCESS))"

definition round_member_gas :: "nat \<Rightarrow> nat" where
  "round_member_gas limit = limit + limit div 63 + ROUND_MEMBER_OVERHEAD"

definition via_proxy :: "nat \<Rightarrow> nat" where
  "via_proxy g = div_ceil (g * 64) 63"

definition round_guard_budget :: "shape \<Rightarrow> error + nat" where
  "round_guard_budget s = bindR (parts s) (\<lambda>p.
     Inr (ROUND_CALLBACK_RESERVE + sum_list (map round_member_gas (sh_limits s)) + pt_rounds p * ROUND_VERIFICATION))"

definition round_gas_limit :: "shape \<Rightarrow> error + nat" where
  "round_gas_limit s = bindR (parts s) (\<lambda>p.
     let n = pt_members p; r = pt_rounds p in
     if sh_batch s then bindR (round_guard_budget s) (\<lambda>g. Inr (via_proxy g + 37500 + 6800 * n + 1800 * r))
     else if r = 1 then bindR (round_guard_budget s) (\<lambda>g. Inr (via_proxy g + 48000))
     else let limit = hd (sh_limits s); withdrawn = (if sh_withdrawn s then 17200 else 0) in
       Inr (via_proxy (ROUND_CALLBACK_RESERVE + limit + limit div 63) + 218000 + pt_candidates p * 5600 + withdrawn))"

definition least_limit :: "shape \<Rightarrow> nat \<Rightarrow> error + nat" where
  "least_limit s l1 = bindR (round_gas_limit s) (\<lambda>g. ok_or (Bail ''Gas overflow'') (checked u64_max (g + l1)))"

definition estimate_cover :: "nat \<Rightarrow> nat" where
  "estimate_cover least = sat_add least (max (div_ceil least (100 div LIMIT_MARGIN_PERCENT)) LIMIT_MARGIN_MIN)"

definition estimate_tolerance :: "nat \<Rightarrow> nat" where
  "estimate_tolerance least =
     (let most = div_ceil (least * (1000 + ESTIMATE_WARN_PER_MILLE)) 1000 in if most \<le> u64_max then most else u64_max)"

definition chain_limit :: "shape \<Rightarrow> nat \<Rightarrow> error + nat" where
  "chain_limit s l1 = bindR (least_limit s l1) (\<lambda>g. Inr (estimate_cover g))"

definition round_fulfillment_gas :: "nat \<Rightarrow> shape \<Rightarrow> nat \<Rightarrow> error + nat" where
  "round_fulfillment_gas estimate s l1 =
     bindR (chain_limit s l1) (\<lambda>floor.
     bindR (round_guard_budget s) (\<lambda>g.
     let padding = max (sat_sub estimate g div 5) 50000 in
     bindR (ok_or (Bail ''Gas overflow'') (checked u64_max (estimate + padding))) (\<lambda>padded. Inr (max padded floor))))"

text \<open>A member of a batch as its size is judged: its callback gas limit, and its beacon and round.\<close>

type_synonym sized = "nat \<times> nat \<times> nat"

definition batch_shape :: "sized list \<Rightarrow> shape" where
  "batch_shape ms = batch_of (map fst ms) (length (remdups_adj (sort (map snd ms))))"

text \<open>The rounds a batch lists (\<open>round::batch_call\<close>).\<close>

definition listed_rounds :: "sized list \<Rightarrow> (nat \<times> nat) list" where
  "listed_rounds ms = foldl (\<lambda>rs m. if snd m \<in> set rs then rs else rs @ [snd m]) [] ms"

definition count_within :: "sized list \<Rightarrow> nat \<Rightarrow> nat \<Rightarrow> nat \<Rightarrow> bool" where
  "count_within ms cap l1_each count =
     (case chain_limit (batch_shape (take count ms)) (sat_mul l1_each count) of Inr g \<Rightarrow> g \<le> cap | Inl _ \<Rightarrow> False)"

definition round_members_within :: "sized list \<Rightarrow> nat \<Rightarrow> nat \<Rightarrow> nat" where
  "round_members_within ms cap l1_each =
     (let fitting = takeWhile (count_within ms cap l1_each) [1..<Suc (min (length ms) MAX_FULFILL_BATCH)]
      in if fitting = [] then 0 else last fitting)"

section \<open>The TypeScript model\<close>

record ts_shape =
  ts_batch :: bool
  callbackGasLimits :: "nat list"
  roundsToVerify :: int
  vrfCandidates :: "int list option"
  feesWithdrawn :: "bool option"

text \<open>\<open>None\<close> is the exception.\<close>

definition ts_members :: "ts_shape \<Rightarrow> (int \<times> int \<times> int list \<times> int \<times> int \<times> bool) option" where
  "ts_members s =
     (let n = length (callbackGasLimits s); r = roundsToVerify s;
          limits = map int (callbackGasLimits s) in
      if n < 1 \<or> n > 16 \<or> r < 0 \<or> r > int n \<or> (\<not> ts_batch s \<and> (n \<noteq> 1 \<or> r > 1))
         \<or> (case vrfCandidates s of None \<Rightarrow> False | Some ks \<Rightarrow> length ks \<noteq> n \<or> list_ex (\<lambda>k. k < 1) ks)
      then None
      else Some (int n, r, limits, sum_list limits,
                 sum_list (map (\<lambda>k. k - 1) (case vrfCandidates s of Some ks \<Rightarrow> ks | None \<Rightarrow> map (\<lambda>_. 10) limits)),
                 feesWithdrawn s \<noteq> Some False))"

definition roundFulfilmentGasBound :: "ts_shape \<Rightarrow> int option" where
  "roundFulfilmentGasBound s = map_option (\<lambda>(n, r, limits, callbacks, candidates, withdrawn).
     (if ts_batch s then 79500 + n * 161400 + r * 205600 + n * r * 250 else 223400 + r * 217300)
       + callbacks + candidates * 5500 + (if withdrawn then 17200 else 0) + r * 17000) (ts_members s)"

definition ts_memberGas :: "int \<Rightarrow> int" where
  "ts_memberGas limit = limit + limit div 63 + 400000"

definition viaProxy :: "int \<Rightarrow> int" where
  "viaProxy g = (g * 64 + 62) div 63"

definition roundFulfilmentGasLimit :: "ts_shape \<Rightarrow> int option" where
  "roundFulfilmentGasLimit s = map_option (\<lambda>(n, r, limits, callbacks, candidates, withdrawn).
     let verification = 400000 + 400000 div 63 + 5000 in
     if ts_batch s
     then viaProxy (140000 + sum_list (map ts_memberGas limits) + r * verification) + 37500 + 6800 * n + 1800 * r
     else if r = 1 then viaProxy (140000 + ts_memberGas (limits ! 0) + verification) + 48000
     else viaProxy (140000 + limits ! 0 + limits ! 0 div 63) + 218000 + candidates * 5600 + (if withdrawn then 17200 else 0))
     (ts_members s)"

section \<open>The coordinator's guard\<close>

text \<open>A request of a batch as the contract reads it: its callback gas limit, its round, and whether it is
  neither fulfilled, refunded nor expired.\<close>

record chain_request =
  cq_limit :: nat
  cq_round :: "nat \<times> nat"
  cq_open :: bool

definition memberGas :: "nat \<Rightarrow> nat" where
  "memberGas limit = limit + limit div 63 + 400000"

fun listed_at :: "nat \<Rightarrow> (nat \<times> nat) list \<Rightarrow> nat \<times> nat \<Rightarrow> nat option" where
  "listed_at i [] r = None"
| "listed_at i (q # qs) r = (if q = r then Some i else listed_at (Suc i) qs r)"

text \<open>\<open>_batchGas\<close>; \<open>budgeted\<close> are the bits that are set, and \<open>None\<close> is the revert of a round that is not listed.\<close>

fun batchGas :: "(nat \<times> nat) list \<Rightarrow> (nat \<times> nat \<Rightarrow> bool) \<Rightarrow> nat list \<Rightarrow> nat \<Rightarrow> chain_request list \<Rightarrow> nat option" where
  "batchGas rounds cached budgeted need [] = Some need"
| "batchGas rounds cached budgeted need (q # qs) =
     (if \<not> cq_open q then batchGas rounds cached budgeted need qs
      else if cached (cq_round q) then batchGas rounds cached budgeted (need + memberGas (cq_limit q)) qs
      else case listed_at 0 rounds (cq_round q) of
             None \<Rightarrow> None
           | Some i \<Rightarrow>
               if i \<in> set budgeted then batchGas rounds cached budgeted (need + memberGas (cq_limit q)) qs
               else batchGas rounds cached (i # budgeted) (need + memberGas (cq_limit q) + (400000 + 400000 div 63 + 5000)) qs)"

section \<open>The fee gate\<close>

definition keeper_share :: "nat \<Rightarrow> nat \<Rightarrow> nat" where
  "keeper_share fee' bps = sat128 (sat128 ((fee' div 10000) * bps) + fee' mod 10000 * bps div 10000)"

definition sat_sum :: "nat list \<Rightarrow> nat" where
  "sat_sum xs = foldl (\<lambda>s x. sat128 (s + x)) 0 xs"

definition round_uncovered :: "nat \<Rightarrow> nat list \<Rightarrow> nat \<Rightarrow> nat \<Rightarrow> fee_budget option" where
  "round_uncovered cost fees coverage_bps keeper_bps =
     (let escrowed = sat_sum fees in
      case uncovered cost escrowed coverage_bps of
        Some b \<Rightarrow> Some b
      | None \<Rightarrow>
          if cost > sat_sum (map (\<lambda>f. keeper_share f keeper_bps) fees)
          then Some \<lparr>fb_cap = FeeCoverage, fb_required = (if keeper_bps = 0 then u128_max else div_ceil (sat128 (cost * 10000)) keeper_bps),
                     fb_limit = escrowed\<rparr>
          else None)"

definition round_cost :: "nat \<Rightarrow> nat \<Rightarrow> nat \<Rightarrow> nat" where
  "round_cost base_fee bound l1 = sat128 (base_fee * sat_add bound l1)"

text \<open>What the contract pays the keeper of a served request's fee.\<close>

definition keeperAmount :: "nat \<Rightarrow> nat \<Rightarrow> nat" where
  "keeperAmount fee' bps = fee' div 10000 * bps + fee' mod 10000 * bps div 10000"

definition up_front_exceeds :: "tx_plan \<Rightarrow> nat \<Rightarrow> fee_budget option" where
  "up_front_exceeds p balance = (let need = sat128 (pl_fee p * pl_gas p) in
     if need > balance then Some \<lparr>fb_cap = MaxTxCost, fb_required = need, fb_limit = balance\<rparr> else None)"

section \<open>The port\<close>

definition ts_of :: "shape \<Rightarrow> ts_shape" where
  "ts_of s = \<lparr>ts_batch = sh_batch s, callbackGasLimits = sh_limits s, roundsToVerify = int (sh_rounds s),
     vrfCandidates = map_option (map int) (sh_candidates s), feesWithdrawn = Some (sh_withdrawn s)\<rparr>"

lemma sum_list_int: "sum_list (map (\<lambda>x. int (f x)) xs) = int (sum_list (map f xs))"
  by (induction xs) simp_all

lemma sum_list_int_minus: "list_all (\<lambda>k. 1 \<le> k) ks \<Longrightarrow> sum_list (map (\<lambda>k. int k - 1) ks) = int (sum_list (map (\<lambda>k. k - 1) ks))"
  by (induction ks) (simp_all add: of_nat_diff)

lemma ts_members_of:
  "ts_members (ts_of s) = (case parts s of Inl _ \<Rightarrow> None | Inr p \<Rightarrow>
     Some (int (pt_members p), int (pt_rounds p), map int (sh_limits s), int (pt_callbacks p), int (pt_candidates p), sh_withdrawn s))"
proof (cases "parts s")
  case (Inl e)
  then have "\<not> (1 \<le> length (sh_limits s) \<and> length (sh_limits s) \<le> MAX_FULFILL_BATCH \<and> sh_rounds s \<le> length (sh_limits s)
      \<and> (sh_batch s \<or> length (sh_limits s) = 1 \<and> sh_rounds s \<le> 1)
      \<and> (case sh_candidates s of None \<Rightarrow> True | Some ks \<Rightarrow> length ks = length (sh_limits s) \<and> list_all (\<lambda>k. 1 \<le> k) ks))"
    by (auto simp: parts_def ensure_def Let_def split: if_splits)
  then show ?thesis using Inl
    by (auto simp: ts_members_def ts_of_def Let_def list_ex_iff list_all_iff Suc_le_eq round_consts split: option.splits)
next
  case (Inr p)
  then have c: "1 \<le> length (sh_limits s)" "length (sh_limits s) \<le> MAX_FULFILL_BATCH" "sh_rounds s \<le> length (sh_limits s)"
      "sh_batch s \<or> length (sh_limits s) = 1 \<and> sh_rounds s \<le> 1"
      "case sh_candidates s of None \<Rightarrow> True | Some ks \<Rightarrow> length ks = length (sh_limits s) \<and> list_all (\<lambda>k. 1 \<le> k) ks"
    and p: "p = \<lparr>pt_members = length (sh_limits s), pt_rounds = sh_rounds s, pt_callbacks = sum_list (sh_limits s),
              pt_candidates = (case sh_candidates s of Some ks \<Rightarrow> sum_list (map (\<lambda>k. k - 1) ks)
                               | None \<Rightarrow> length (sh_limits s) * (PRICED_VRF_CANDIDATES - 1))\<rparr>"
    by (auto simp: parts_def ensure_def Let_def split: if_splits)
  have "sum_list (map int (sh_limits s)) = int (sum_list (sh_limits s))" using sum_list_int [of id] by simp
  moreover have "sum_list (map (\<lambda>k. k - 1) (case map_option (map int) (sh_candidates s) of Some ks \<Rightarrow> ks
      | None \<Rightarrow> map (\<lambda>_. 10) (map int (sh_limits s)))) = int (pt_candidates p)"
    using c(5) by (cases "sh_candidates s") (auto simp: p o_def sum_list_triv sum_list_int_minus round_consts)
  moreover have "\<not> (case sh_candidates s of None \<Rightarrow> False
      | Some ks \<Rightarrow> length ks \<noteq> length (sh_limits s) \<or> list_ex (\<lambda>k. int k < 1) ks)"
    using c(5) by (auto simp: list_all_iff list_ex_iff split: option.splits)
  ultimately show ?thesis
    using c(1-4) Inr p
    by (auto simp: ts_members_def ts_of_def Let_def list_ex_iff round_consts split: option.splits)
qed

lemma viaProxy_int: "viaProxy (int g) = int (via_proxy g)"
  by (simp add: viaProxy_def via_proxy_def div_ceil_def zdiv_int)

lemma ts_memberGas_int: "ts_memberGas (int l) = int (round_member_gas l)"
  by (simp add: ts_memberGas_def round_member_gas_def zdiv_int round_consts)

lemma parts_limits: "parts s = Inr p \<Longrightarrow> pt_members p = length (sh_limits s) \<and> pt_rounds p = sh_rounds s
    \<and> pt_callbacks p = sum_list (sh_limits s) \<and> sh_limits s \<noteq> [] \<and> (sh_batch s \<or> length (sh_limits s) = 1 \<and> sh_rounds s \<le> 1)"
  by (auto simp: parts_def ensure_def Let_def split: if_splits)

text \<open>C37: The keeper's gas model is the model of the contracts' own scripts: for every fulfillment, both give
  the same bound of the gas it can use and the same least gas limit, and both refuse the same
  fulfillments as malformed.\<close>

theorem port_is_exact:
  "roundFulfilmentGasBound (ts_of s) = (case gas_bound s of Inr g \<Rightarrow> Some (int g) | Inl _ \<Rightarrow> None)
   \<and> roundFulfilmentGasLimit (ts_of s) = (case round_gas_limit s of Inr g \<Rightarrow> Some (int g) | Inl _ \<Rightarrow> None)"
proof (cases "parts s")
  case (Inl e)
  then show ?thesis
    by (simp add: roundFulfilmentGasBound_def roundFulfilmentGasLimit_def ts_members_of gas_bound_def round_gas_limit_def)
next
  case (Inr p)
  note pl = parts_limits [OF Inr]
  have m: "ts_members (ts_of s) = Some (int (pt_members p), int (pt_rounds p), map int (sh_limits s), int (pt_callbacks p),
      int (pt_candidates p), sh_withdrawn s)" using Inr by (simp add: ts_members_of)
  have b: "ts_batch (ts_of s) = sh_batch s" by (simp add: ts_of_def)
  have "roundFulfilmentGasBound (ts_of s) = (case gas_bound s of Inr g \<Rightarrow> Some (int g) | Inl _ \<Rightarrow> None)"
    by (simp add: roundFulfilmentGasBound_def m b gas_bound_def Inr Let_def round_consts)
  moreover have "roundFulfilmentGasLimit (ts_of s) = (case round_gas_limit s of Inr g \<Rightarrow> Some (int g) | Inl _ \<Rightarrow> None)"
  proof -
    have "int (ROUND_CALLBACK_RESERVE + sum_list (map round_member_gas (sh_limits s)) + pt_rounds p * ROUND_VERIFICATION)
        = 140000 + sum_list (map ts_memberGas (map int (sh_limits s))) + int (pt_rounds p) * 411349"
      using sum_list_int [of round_member_gas "sh_limits s"] by (simp add: o_def ts_memberGas_int round_consts)
    then have g: "int (via_proxy (ROUND_CALLBACK_RESERVE + sum_list (map round_member_gas (sh_limits s)) + pt_rounds p * ROUND_VERIFICATION))
        = viaProxy (140000 + sum_list (map ts_memberGas (map int (sh_limits s))) + int (pt_rounds p) * 411349)"
      by (simp add: viaProxy_int [symmetric])
    obtain l ls where l: "sh_limits s = l # ls" using pl by (cases "sh_limits s") auto
    show ?thesis
    proof (cases "sh_batch s")
      case True
      show ?thesis
        unfolding roundFulfilmentGasLimit_def m b round_gas_limit_def round_guard_budget_def Inr
        by (simp add: True Let_def g del: map_map)
    next
      case False
      then have one: "ls = []" "sh_rounds s \<le> 1" using pl l by auto
      show ?thesis
      proof (cases "pt_rounds p = 1")
        case True
        show ?thesis
          using False True g
          by (simp add: roundFulfilmentGasLimit_def m b round_gas_limit_def round_guard_budget_def Inr l one Let_def)
      next
        case other: False
        have "viaProxy (140000 + int l + int l div 63) = int (via_proxy (ROUND_CALLBACK_RESERVE + l + l div 63))"
          unfolding viaProxy_int [symmetric] by (simp add: zdiv_int round_consts)
        then show ?thesis
          using False other by (simp add: roundFulfilmentGasLimit_def m b round_gas_limit_def Inr l Let_def)
      qed
    qed
  qed
  ultimately show ?thesis by blast
qed

section \<open>A batch passes the coordinator's guard\<close>

lemma sorted_distinct_count: "length (remdups_adj (sort xs)) = card (set (xs :: 'a :: linorder list))"
proof -
  have "sorted ys \<Longrightarrow> distinct (remdups_adj ys)" for ys :: "'a list"
    by (induction ys rule: remdups_adj.induct) auto
  then have "distinct (remdups_adj (sort xs))" by simp
  then have "card (set (remdups_adj (sort xs))) = length (remdups_adj (sort xs))" by (rule distinct_card)
  then show ?thesis by simp
qed

definition sized_of :: "chain_request \<Rightarrow> sized" where
  "sized_of q = (cq_limit q, cq_round q)"

lemma listed_rounds_all: "set (listed_rounds ms) = set (map snd ms)" "distinct (listed_rounds ms)"
proof -
  have "set (foldl (\<lambda>rs m. if snd m \<in> set rs then rs else rs @ [snd m]) acc ms) = set acc \<union> set (map snd ms)
      \<and> (distinct acc \<longrightarrow> distinct (foldl (\<lambda>rs m. if snd m \<in> set rs then rs else rs @ [snd m]) acc ms))" for acc
    by (induction ms arbitrary: acc) auto
  from this [of "[]"] show "set (listed_rounds ms) = set (map snd ms)" "distinct (listed_rounds ms)"
    by (simp_all add: listed_rounds_def)
qed

lemma listed_rounds_count: "length (listed_rounds ms) = sh_rounds (batch_shape ms)"
  using listed_rounds_all distinct_card [of "listed_rounds ms"] sorted_distinct_count [of "map snd ms"]
  by (simp add: batch_shape_def batch_of_def)

lemma listed_at_Some: "r \<in> set qs \<Longrightarrow> \<exists>i. listed_at k qs r = Some i \<and> k \<le> i \<and> i < k + length qs"
proof (induction qs arbitrary: k)
  case (Cons q qs)
  then show ?case using Cons.IH [of "Suc k"] by (cases "q = r") auto
qed simp

lemma batchGas_bound:
  assumes "\<forall>q \<in> set qs. cq_round q \<in> set rounds" and "distinct budgeted" and "\<forall>i \<in> set budgeted. i < length rounds"
  shows "\<exists>need' k. batchGas rounds cached budgeted need qs = Some need'
     \<and> need' \<le> need + sum_list (map (\<lambda>q. memberGas (cq_limit q)) qs) + k * 411349 \<and> k + length budgeted \<le> length rounds"
  using assms
proof (induction qs arbitrary: budgeted need)
  case Nil
  have "card (set budgeted) \<le> card {..< length rounds}" by (rule card_mono) (use Nil(3) in auto)
  then have "length budgeted \<le> length rounds" using Nil(2) by (simp add: distinct_card)
  then show ?case by (intro exI [of _ need] exI [of _ 0]) simp
next
  case (Cons q qs)
  have rest: "\<forall>q \<in> set qs. cq_round q \<in> set rounds" using Cons.prems(1) by simp
  obtain i where i: "listed_at 0 rounds (cq_round q) = Some i" "i < length rounds"
    using listed_at_Some [of "cq_round q" rounds 0] Cons.prems(1) by auto
  show ?case
  proof (cases "cq_open q \<and> \<not> cached (cq_round q) \<and> i \<notin> set budgeted")
    case True
    obtain need' k where k: "batchGas rounds cached (i # budgeted) (need + memberGas (cq_limit q) + 411349) qs = Some need'"
      "need' \<le> need + memberGas (cq_limit q) + 411349 + sum_list (map (\<lambda>q. memberGas (cq_limit q)) qs) + k * 411349"
      "k + length (i # budgeted) \<le> length rounds"
      using Cons.IH [OF rest, of "i # budgeted" "need + memberGas (cq_limit q) + 411349"] True Cons.prems(2,3) i(2) by auto
    then show ?thesis using True i(1) by (intro exI [of _ need'] exI [of _ "Suc k"]) simp
  next
    case False
    let ?need = "need + (if cq_open q then memberGas (cq_limit q) else 0)"
    obtain need' k where k: "batchGas rounds cached budgeted ?need qs = Some need'"
      "need' \<le> ?need + sum_list (map (\<lambda>q. memberGas (cq_limit q)) qs) + k * 411349" "k + length budgeted \<le> length rounds"
      using Cons.IH [OF rest Cons.prems(2,3), of ?need] by blast
    have "batchGas rounds cached budgeted need (q # qs) = Some need'" using k(1) False i(1) by auto
    then show ?thesis using k(2,3) by (intro exI [of _ need'] exI [of _ k]) (auto split: if_splits)
  qed
qed

text \<open>The members served one after another with what is left of the gas: a member's round is verified
  unless it is already, under the verifier's own check; then its work and its callback, under the
  callback's check. Each member comes with the gas its verification, its work and its callback take.\<close>

fun round_served :: "(nat \<times> nat \<Rightarrow> bool) \<Rightarrow> nat \<Rightarrow> (chain_request \<times> nat \<times> nat \<times> nat) list \<Rightarrow> bool" where
  "round_served verified supply' [] = True"
| "round_served verified supply' ((q, check, work, burned) # ms) =
     (if \<not> cq_open q then round_served verified supply' ms
      else let fresh = \<not> verified (cq_round q); left = (if fresh then supply' - check else supply') in
        (fresh \<longrightarrow> 400000 + 400000 div 63 + 5000 \<le> supply')
        \<and> cq_limit q + cq_limit q div 63 + 140000 \<le> left - work
        \<and> round_served (verified(cq_round q := True)) (left - work - burned) ms)"

definition member_costs_fit :: "chain_request \<times> nat \<times> nat \<times> nat \<Rightarrow> bool" where
  "member_costs_fit m = (case m of (q, check, work, burned) \<Rightarrow> check \<le> 411349 \<and> work \<le> 400000 \<and> burned \<le> cq_limit q)"

lemma batchGas_grows: "batchGas rounds cached budgeted need qs = Some need' \<Longrightarrow> need \<le> need'"
proof (induction qs arbitrary: budgeted need)
  case (Cons q qs)
  then show ?case by (auto split: if_splits option.splits) (meson add_leE)+
qed simp

lemma listed_at_nth: "listed_at k qs r = Some i \<Longrightarrow> k \<le> i \<and> qs ! (i - k) = r"
proof (induction qs arbitrary: k)
  case (Cons q qs)
  show ?case
  proof (cases "q = r")
    case False
    then have "Suc k \<le> i \<and> qs ! (i - Suc k) = r" using Cons.prems Cons.IH [of "Suc k"] by simp
    moreover from this have "i - k = Suc (i - Suc k)" by linarith
    ultimately show ?thesis by simp
  qed (use Cons.prems in simp)
qed simp

lemma guard_covers:
  assumes "batchGas rounds cached budgeted need (map fst ms) = Some need'" and "need' - need + 140000 \<le> supply'"
    and "\<And>r. verified r \<longleftrightarrow> cached r \<or> (\<exists>i \<in> set budgeted. listed_at 0 rounds r = Some i)"
    and "list_all member_costs_fit ms"
  shows "round_served verified supply' ms"
  using assms
proof (induction ms arbitrary: budgeted need supply' verified)
  case (Cons m ms)
  obtain q check work burned where m: "m = (q, check, work, burned)" by (cases m)
  have rest: "list_all member_costs_fit ms" and "member_costs_fit m" using Cons.prems(4) by simp_all
  then have fit: "check \<le> 411349" "work \<le> 400000" "burned \<le> cq_limit q" "list_all member_costs_fit ms"
    by (simp_all only: m member_costs_fit_def prod.case)
  show ?case
  proof (cases "cq_open q")
    case False
    then show ?thesis using Cons.IH [OF _ _ Cons.prems(3) fit(4)] Cons.prems(1,2) by (simp add: m)
  next
    case True
    let ?m = "memberGas (cq_limit q)"
    have step: ?thesis
      if b: "batchGas rounds cached bs (need + ?m + x) (map fst ms) = Some need'"
        and x: "x = (if verified (cq_round q) then 0 else 411349)"
        and v: "\<And>r. (verified(cq_round q := True)) r \<longleftrightarrow> cached r \<or> (\<exists>i \<in> set bs. listed_at 0 rounds r = Some i)"
      for bs x
    proof -
      let ?left = "if verified (cq_round q) then supply' else supply' - check"
      have g: "need + ?m + x \<le> need'" using batchGas_grows [OF b] .
      have "need' - (need + ?m + x) + 140000 \<le> ?left - work - burned"
        using Cons.prems(2) g fit x by (auto simp: memberGas_def split: if_splits)
      then have "round_served (verified(cq_round q := True)) (?left - work - burned) ms"
        using Cons.IH [OF b _ v fit(4)] by blast
      moreover have "cq_limit q + cq_limit q div 63 + 140000 \<le> ?left - work"
        using Cons.prems(2) g fit x by (auto simp: memberGas_def split: if_splits)
      ultimately show ?thesis using True Cons.prems(2) g x by (auto simp: m Let_def)
    qed
    show ?thesis
    proof (cases "cached (cq_round q)")
      case c: True
      have v: "verified (cq_round q)" using Cons.prems(3) c by simp
      then have "verified(cq_round q := True) = verified" by (simp add: fun_upd_idem)
      then show ?thesis using step [of budgeted 0] Cons.prems(1,3) True c v by (simp add: m)
    next
      case c: False
      then obtain i where i: "listed_at 0 rounds (cq_round q) = Some i"
        using Cons.prems(1) True by (auto simp: m split: option.splits)
      have only: "r = cq_round q" if "listed_at 0 rounds r = Some i" for r
        using listed_at_nth [OF that] listed_at_nth [OF i] by simp
      show ?thesis
      proof (cases "i \<in> set budgeted")
        case b: True
        then have v: "verified (cq_round q)" using Cons.prems(3) i by auto
        then have "verified(cq_round q := True) = verified" by (simp add: fun_upd_idem)
        then show ?thesis using step [of budgeted 0] Cons.prems(1,3) True c v b i by (simp add: m)
      next
        case b: False
        then have v: "\<not> verified (cq_round q)" using Cons.prems(3) i c by auto
        have "(verified(cq_round q := True)) r \<longleftrightarrow> cached r \<or> (\<exists>k \<in> set (i # budgeted). listed_at 0 rounds r = Some k)" for r
        proof (cases "r = cq_round q")
          case False
          then have "listed_at 0 rounds r \<noteq> Some i" using only by blast
          then show ?thesis using False Cons.prems(3) [of r] by simp
        qed (simp add: i)
        then show ?thesis using step [of "i # budgeted" 411349] Cons.prems(1) True c v b i by (simp add: m)
      qed
    qed
  qed
qed simp

lemma estimate_cover_least: "g \<le> u64_max \<Longrightarrow> g \<le> estimate_cover g"
  by (simp add: estimate_cover_def sat_add_def)

lemma via_proxy_share: "via_proxy n \<le> r \<Longrightarrow> n \<le> r - r div 64"
  unfolding via_proxy_def div_ceil_def by linarith

lemma via_proxy_le: "via_proxy n \<le> k \<longleftrightarrow> 64 * n \<le> 63 * k"
  unfolding via_proxy_def div_ceil_def by linarith

lemma via_proxy_add: "via_proxy (a + b) \<le> via_proxy a + via_proxy b"
  using via_proxy_le [of a "via_proxy a"] via_proxy_le [of b "via_proxy b"] by (simp add: via_proxy_le)

lemma via_proxy_mono: "a \<le> b \<Longrightarrow> via_proxy a \<le> via_proxy b"
  unfolding via_proxy_def div_ceil_def by (simp add: div_le_mono)

lemma round_fulfillment_least:
  assumes "round_fulfillment_gas estimate s l1 = Inr supply'"
  shows "\<exists>g. round_gas_limit s = Inr g \<and> g + l1 \<le> supply'"
proof -
  obtain g where g: "round_gas_limit s = Inr g" "g + l1 \<le> u64_max" "estimate_cover (g + l1) \<le> supply'"
    using assms by (auto simp: round_fulfillment_gas_def chain_limit_def least_limit_def result_simps Let_def)
  then show ?thesis using estimate_cover_least [OF g(2)] by auto
qed

text \<open>C38: A batch for a round coordinator never runs out of gas through what it serves. Take the gas limit the
  keeper sends, whatever the node's estimate was; take away the L1 charge, what the transaction spends
  before the proxy's call and inside the coordinator before its guard, and the 64th that the proxy's
  call keeps back. The coordinator's guard passes whatever members are already served and whatever
  rounds are already verified, and then every member is served, in order, even when each callback burns
  its whole limit.\<close>

theorem round_gas_suffices:
  assumes "round_fulfillment_gas estimate (with_candidates ks (batch_shape (map (\<lambda>m. sized_of (fst m)) ms))) l1 = Inr supply'"
    and "before + via_proxy inside \<le> 37500 + 6800 * length ms + 1800 * length (listed_rounds (map (\<lambda>m. sized_of (fst m)) ms))"
    and "list_all member_costs_fit ms"
  shows "l1 + before \<le> supply' \<and> (let left = supply' - l1 - before; granted = left - left div 64 - inside in
    \<exists>need. batchGas (listed_rounds (map (\<lambda>m. sized_of (fst m)) ms)) cached [] 140000 (map fst ms) = Some need \<and> need \<le> granted
      \<and> round_served cached granted ms)"
proof -
  let ?sized = "map (\<lambda>m. sized_of (fst m)) ms" and ?rounds = "listed_rounds (map (\<lambda>m. sized_of (fst m)) ms)"
  let ?s = "with_candidates ks (batch_shape ?sized)"
  obtain g where g: "round_gas_limit ?s = Inr g" "g + l1 \<le> supply'" using round_fulfillment_least [OF assms(1)] by blast
  let ?budget = "140000 + sum_list (map (\<lambda>q. memberGas (cq_limit q)) (map fst ms)) + length ?rounds * 411349"
  have "map round_member_gas (sh_limits ?s) = map (\<lambda>q. memberGas (cq_limit q)) (map fst ms)"
    by (simp add: with_candidates_def batch_shape_def batch_of_def sized_of_def round_member_gas_def memberGas_def round_consts)
  moreover have "sh_rounds ?s = length ?rounds" by (simp add: with_candidates_def listed_rounds_count)
  ultimately have lim: "g = via_proxy ?budget + 37500 + 6800 * length ms + 1800 * length ?rounds"
    using g(1) parts_limits [of ?s]
    by (auto simp: round_gas_limit_def round_guard_budget_def result_simps Let_def round_consts
        with_candidates_def batch_shape_def batch_of_def simp del: map_map split: if_splits)
  obtain need k where need: "batchGas ?rounds cached [] 140000 (map fst ms) = Some need"
    "need \<le> 140000 + sum_list (map (\<lambda>q. memberGas (cq_limit q)) (map fst ms)) + k * 411349" "k \<le> length ?rounds"
    using batchGas_bound [of "map fst ms" ?rounds "[]" cached 140000] by (auto simp: listed_rounds_all sized_of_def)
  have "need \<le> ?budget" using need(2,3) by (meson add_left_mono le_trans mult_le_mono1)
  then have "via_proxy (need + inside) \<le> via_proxy ?budget + via_proxy inside"
    using via_proxy_add [of need inside] via_proxy_mono [of need ?budget] by linarith
  then have "via_proxy (need + inside) \<le> supply' - l1 - before" and fits: "l1 + before \<le> supply'"
    using assms(2) g(2) lim by linarith+
  then have "need + inside \<le> (supply' - l1 - before) - (supply' - l1 - before) div 64" by (intro via_proxy_share)
  then have enough: "need \<le> (supply' - l1 - before) - (supply' - l1 - before) div 64 - inside" by simp
  have "140000 \<le> need" by (rule batchGas_grows [OF need(1)])
  then have "round_served cached ((supply' - l1 - before) - (supply' - l1 - before) div 64 - inside) ms"
    using guard_covers [OF need(1) _ _ assms(3), of _ cached] enough by simp
  then show ?thesis unfolding Let_def using fits enough need(1) by blast
qed

definition sample_members :: "(chain_request \<times> nat \<times> nat \<times> nat) list" where
  "sample_members =
     [(\<lparr>cq_limit = 200000, cq_round = (1, 77), cq_open = True\<rparr>, 300000, 380000, 200000),
      (\<lparr>cq_limit = 100000, cq_round = (1, 78), cq_open = True\<rparr>, 250000, 390000, 90000)]"

theorem round_gas_suffices_witness:
  "\<exists>supply'. round_fulfillment_gas 2000000 (with_candidates [1, 3] (batch_shape (map (\<lambda>m. sized_of (fst m)) sample_members))) 20000 = Inr supply'
    \<and> (let left = supply' - 20000 - 30000; granted = left - left div 64 - 10000 in
        \<exists>need. batchGas (listed_rounds (map (\<lambda>m. sized_of (fst m)) sample_members)) (\<lambda>r. r = (1, 78)) [] 140000 (map fst sample_members)
            = Some need \<and> need \<le> granted \<and> round_served (\<lambda>r. r = (1, 78)) granted sample_members)"
proof -
  have limits: "sh_limits (with_candidates ks (batch_shape (map (\<lambda>m. sized_of (fst m)) sample_members))) = [200000, 100000]"
    and shape: "sh_batch (with_candidates ks (batch_shape (map (\<lambda>m. sized_of (fst m)) sample_members)))"
      "sh_candidates (with_candidates ks (batch_shape (map (\<lambda>m. sized_of (fst m)) sample_members))) = Some ks" for ks
    by (simp_all add: with_candidates_def batch_shape_def batch_of_def sample_members_def sized_of_def)
  have listed: "listed_rounds (map (\<lambda>m. sized_of (fst m)) sample_members) = [(1, 77), (1, 78)]"
    by (simp add: listed_rounds_def sample_members_def sized_of_def)
  then have rounds: "sh_rounds (with_candidates ks (batch_shape (map (\<lambda>m. sized_of (fst m)) sample_members))) = 2" for ks
    using listed_rounds_count [of "map (\<lambda>m. sized_of (fst m)) sample_members"] by (simp add: with_candidates_def)
  have "round_fulfillment_gas 2000000 (with_candidates [1, 3] (batch_shape (map (\<lambda>m. sized_of (fst m)) sample_members))) 20000
      = Inr 2196726"
    by (simp add: round_fulfillment_gas_def chain_limit_def least_limit_def round_gas_limit_def round_guard_budget_def parts_def
        limits shape rounds Let_def ensure_def round_consts round_member_gas_def via_proxy_def div_ceil_def estimate_cover_def
        sat_add_def sat_sub_def checked_def u64_max_def)
  moreover have "30000 + via_proxy 10000 \<le> 37500 + 6800 * length sample_members
      + 1800 * length (listed_rounds (map (\<lambda>m. sized_of (fst m)) sample_members))"
    unfolding listed by (simp add: via_proxy_def div_ceil_def sample_members_def)
  moreover have "list_all member_costs_fit sample_members" by (simp add: sample_members_def member_costs_fit_def)
  ultimately show ?thesis
    using round_gas_suffices [of 2000000 "[1, 3]" sample_members 20000 2196726 30000 10000 "\<lambda>r. r = (1, 78)"] by auto
qed

section \<open>How many members fit\<close>

lemma batch_parts:
  assumes "ms \<noteq> []" and "length ms \<le> MAX_FULFILL_BATCH"
  shows "parts (batch_shape ms) = Inr \<lparr>pt_members = length ms, pt_rounds = card (set (map snd ms)),
     pt_callbacks = sum_list (map fst ms), pt_candidates = length ms * 9\<rparr>"
proof -
  have "card (set (map snd ms)) \<le> length ms" using card_length [of "map snd ms"] by simp
  then show ?thesis
    using assms sorted_distinct_count [of "map snd ms"]
    by (simp add: parts_def batch_shape_def batch_of_def Let_def ensure_def Suc_le_eq PRICED_VRF_CANDIDATES_def)
qed

definition batch_limit :: "sized list \<Rightarrow> nat" where
  "batch_limit ms = via_proxy (140000 + sum_list (map (\<lambda>m. round_member_gas (fst m)) ms) + card (set (map snd ms)) * ROUND_VERIFICATION)
     + 37500 + 6800 * length ms + 1800 * card (set (map snd ms))"

lemma batch_chain_limit:
  assumes "ms \<noteq> []" and "length ms \<le> MAX_FULFILL_BATCH"
  shows "chain_limit (batch_shape ms) l1 =
     (if batch_limit ms + l1 \<le> u64_max then Inr (estimate_cover (batch_limit ms + l1)) else Inl (Bail ''Gas overflow''))"
proof -
  have f: "sh_batch (batch_shape ms)" "sh_limits (batch_shape ms) = map fst ms" by (simp_all add: batch_shape_def batch_of_def)
  have "round_gas_limit (batch_shape ms) = Inr (batch_limit ms)"
    by (simp add: round_gas_limit_def round_guard_budget_def batch_parts [OF assms] f batch_limit_def
        ROUND_CALLBACK_RESERVE_def o_def)
  then show ?thesis by (simp add: chain_limit_def least_limit_def checked_def)
qed

lemma batch_limit_mono:
  assumes "a \<le> b"
  shows "batch_limit (take a ms) \<le> batch_limit (take b ms)"
proof -
  obtain zs where b: "take b ms = take a ms @ zs" using assms by (metis le_add_diff_inverse take_add)
  have "card (set (map snd (take a ms))) \<le> card (set (map snd (take b ms)))" by (rule card_mono) (auto simp: b)
  moreover from this have "via_proxy (140000 + sum_list (map (\<lambda>m. round_member_gas (fst m)) (take a ms)) + card (set (map snd (take a ms))) * ROUND_VERIFICATION)
      \<le> via_proxy (140000 + sum_list (map (\<lambda>m. round_member_gas (fst m)) (take b ms)) + card (set (map snd (take b ms))) * ROUND_VERIFICATION)"
    by (intro via_proxy_mono add_mono mult_le_mono1) (simp_all add: b)
  moreover have "length (take a ms) \<le> length (take b ms)" using assms by simp
  ultimately show ?thesis unfolding batch_limit_def by linarith
qed

lemma estimate_cover_mono: "a \<le> b \<Longrightarrow> estimate_cover a \<le> estimate_cover b"
  unfolding estimate_cover_def sat_add_def div_ceil_def
  by (intro min.mono add_mono max.mono div_le_mono) simp_all

lemma count_within_mono:
  assumes "1 \<le> a" and "a \<le> b" and "b \<le> min (length ms) MAX_FULFILL_BATCH" and "count_within ms most l1_each b"
  shows "count_within ms most l1_each a"
proof -
  have l: "batch_limit (take a ms) + sat_mul l1_each a \<le> batch_limit (take b ms) + sat_mul l1_each b"
    using batch_limit_mono [OF assms(2), of ms] assms(2) by (intro add_mono sat_mul_mono) simp_all
  have n: "take a ms \<noteq> []" "take b ms \<noteq> []" "length (take a ms) \<le> MAX_FULFILL_BATCH" "length (take b ms) \<le> MAX_FULFILL_BATCH"
    using assms by auto
  show ?thesis
    using assms(4) l estimate_cover_mono [OF l]
    unfolding count_within_def batch_chain_limit [OF n(1,3)] batch_chain_limit [OF n(2,4)] by (auto split: if_splits)
qed

lemma takeWhile_prefix_last:
  assumes "\<And>a b. 1 \<le> a \<Longrightarrow> a \<le> b \<Longrightarrow> b \<le> n \<Longrightarrow> P b \<Longrightarrow> P a"
  shows "let fitting = takeWhile P [1..<Suc n]; k = (if fitting = [] then 0 else last fitting) in
     k \<le> n \<and> (\<forall>c. 1 \<le> c \<and> c \<le> n \<longrightarrow> P c = (c \<le> k))"
  using assms
proof (induction n)
  case (Suc n)
  let ?k = "\<lambda>xs. if xs = [] then 0 else last xs"
  have ih: "?k (takeWhile P [1..<Suc n]) \<le> n \<and> (\<forall>c. 1 \<le> c \<and> c \<le> n \<longrightarrow> P c = (c \<le> ?k (takeWhile P [1..<Suc n])))"
  proof -
    have "P a" if "1 \<le> a" "a \<le> b" "b \<le> n" "P b" for a b using Suc.prems [of a b] that by simp
    then show ?thesis using Suc.IH unfolding Let_def by blast
  qed
  have up: "[1..<Suc (Suc n)] = [1..<Suc n] @ [Suc n]" by simp
  show ?case
  proof (cases "\<forall>c \<in> set [1..<Suc n]. P c")
    case True
    then have w: "takeWhile P [1..<Suc (Suc n)] = [1..<Suc n] @ (if P (Suc n) then [Suc n] else [])"
      unfolding up by (subst takeWhile_append2) auto
    have "?k [1..<Suc n] = n" by (cases n) simp_all
    then have "?k (takeWhile P [1..<Suc (Suc n)]) = (if P (Suc n) then Suc n else n)" unfolding w by simp
    moreover have "P c" if "1 \<le> c" "c \<le> n" for c using True that by (simp del: upt_Suc)
    ultimately show ?thesis unfolding Let_def by (auto simp: le_Suc_eq)
  next
    case False
    then obtain c where c: "1 \<le> c" "c \<le> n" "\<not> P c" by auto
    then have w: "takeWhile P [1..<Suc (Suc n)] = takeWhile P [1..<Suc n]" unfolding up by (intro takeWhile_append1) auto
    have "\<not> P (Suc n)" using c Suc.prems [of c "Suc n"] by auto
    then show ?thesis unfolding Let_def w using ih by (auto simp: le_Suc_eq simp del: upt_Suc)
  qed
qed simp

text \<open>C39: A round batch is sized to the most members that fit. A number of members from the front has a gas
  limit within the cap exactly when it is no more than the number the keeper takes, and the keeper
  never takes more than the coordinator serves in one batch.\<close>

theorem round_sizing_is_greatest:
  "round_members_within ms most l1_each \<le> min (length ms) MAX_FULFILL_BATCH
   \<and> (\<forall>c. 1 \<le> c \<and> c \<le> min (length ms) MAX_FULFILL_BATCH \<longrightarrow>
        (c \<le> round_members_within ms most l1_each)
        = (\<exists>g. chain_limit (batch_shape (take c ms)) (sat_mul l1_each c) = Inr g \<and> g \<le> most))"
proof -
  have "count_within ms most l1_each c = (\<exists>g. chain_limit (batch_shape (take c ms)) (sat_mul l1_each c) = Inr g \<and> g \<le> most)" for c
    by (auto simp: count_within_def split: sum.splits)
  then show ?thesis
    using takeWhile_prefix_last [of "min (length ms) MAX_FULFILL_BATCH" "count_within ms most l1_each"] count_within_mono
    unfolding round_members_within_def Let_def by blast
qed

theorem round_sizing_is_greatest_witness:
  "(1 \<le> round_members_within [(200000, 1, 77)] 1500000 20000)
   = (\<exists>g. chain_limit (batch_shape (take 1 [(200000, 1, 77)])) (sat_mul 20000 1) = Inr g \<and> g \<le> 1500000)"
  using round_sizing_is_greatest [of "[(200000, 1, 77)]" 1500000 20000] by (simp add: MAX_FULFILL_BATCH_def)

section \<open>The keeper is paid for its gas\<close>

lemma sat_sum_le: "sat_sum xs = min (sum_list xs) u128_max"
proof -
  have "foldl (\<lambda>s x. sat128 (s + x)) a xs = min (a + sum_list xs) u128_max" if "a \<le> u128_max" for a
    using that
  proof (induction xs arbitrary: a)
    case (Cons x xs)
    have "foldl (\<lambda>s x. sat128 (s + x)) (sat128 (a + x)) xs = min (sat128 (a + x) + sum_list xs) u128_max"
      by (rule Cons.IH) (simp add: sat128_def)
    then show ?case by (simp add: sat128_def)
  qed simp
  then show ?thesis by (simp add: sat_sum_def)
qed

lemma keeper_share_le: "keeper_share f bps \<le> keeperAmount f bps"
  unfolding keeper_share_def keeperAmount_def sat128_def by (meson add_le_mono1 le_trans min.cobounded1)

text \<open>C40: A round fulfillment the fee gate lets through pays for itself. What the coordinator pays the keeper
  for the requests it serves is at least the price of all the gas the fulfillment can use, at the base
  fee it was priced with, and the fees the requests escrowed cover that price at the configured
  coverage.\<close>

theorem round_gate_covers_gas:
  assumes "gas_bound s = Inr bound" and "round_uncovered (round_cost base_fee bound l1) fees coverage bps = None"
    and "base_fee * (bound + l1) < u128_max" and "bound + l1 \<le> u64_max" and "used \<le> bound + l1"
  shows "base_fee * used \<le> sum_list (map (\<lambda>f. keeperAmount f bps) fees)
    \<and> (base_fee * (bound + l1) * coverage \<le> u128_max \<longrightarrow> base_fee * (bound + l1) * coverage div 10000 \<le> sum_list fees)"
proof -
  let ?cost = "base_fee * (bound + l1)"
  have c: "round_cost base_fee bound l1 = ?cost" using assms(3,4) by (simp add: round_cost_def sat_add_def sat128_def)
  have n: "uncovered ?cost (sat_sum fees) coverage = None"
    "?cost \<le> sat_sum (map (\<lambda>f. keeper_share f bps) fees)"
    using assms(2) unfolding c by (auto simp: round_uncovered_def Let_def split: option.splits if_splits)
  have "sum_list (map (\<lambda>f. keeper_share f bps) fees) \<le> sum_list (map (\<lambda>f. keeperAmount f bps) fees)"
    by (intro sum_list_mono keeper_share_le)
  then have "?cost \<le> sum_list (map (\<lambda>f. keeperAmount f bps) fees)" using n(2) by (simp add: sat_sum_le)
  moreover have "base_fee * used \<le> ?cost" using assms(5) by (rule mult_le_mono2)
  moreover have "?cost * coverage div 10000 \<le> sum_list fees" if "?cost * coverage \<le> u128_max"
    using n(1) that by (cases "coverage = 0") (auto simp: uncovered_def sat_sum_le sat128_def Let_def split: if_splits)
  ultimately show ?thesis by (meson le_trans)
qed

theorem round_gate_covers_gas_witness:
  "10 * 600000 \<le> sum_list (map (\<lambda>f. keeperAmount f 8000) [10000000])"
proof -
  have "gas_bound (single_shape 100000) = Inr 624400"
    by (simp add: gas_bound_def parts_def single_shape_def round_consts ensure_def Let_def)
  moreover have "round_uncovered (round_cost 10 624400 20000) [10000000] 12500 8000 = None"
    by (simp add: round_uncovered_def round_cost_def uncovered_def sat_sum_def keeper_share_def sat128_def sat_add_def
        u128_max_def u64_max_def Let_def)
  ultimately show ?thesis
    using round_gate_covers_gas [of "single_shape 100000" 624400 10 20000 "[10000000]" 12500 8000 600000]
    by (simp add: u128_max_def u64_max_def)
qed

end
