(* ===== verification/Spec2Isabelle.thy ===== *)
theory Spec2Isabelle
  imports Prelude Json Store Checkpoint_Spec Marks Lane_Spec Lane Sql_Spec Jobs Incident
    Program Health Finality Suspicion Drand Config Sweep Fees Policy Worker Reconcile Transfers
    Recovery Machine Soundness Ticks Recovery_Run Round_Gas
begin

text \<open>
  A model of the d20dao keeper (\<^verbatim>\<open>src/keeper\<close>), a daemon that serves randomness requests made
  to a coordinator contract. A keeper finds requests, proves them, and sends the proofs in
  transactions of one wallet, whose nonces it uses one at a time: the nonce lane. Everything it signs
  is in its journal, a SQLite database, before it is handed to an endpoint. On a chain with soft
  finality it acts on blocks the chain may still replace; it marks in the journal what it acted on,
  audits the marks, and recovers when the chain took a block back.

  \<^bold>\<open>The parts and how they interact.\<close> A tick (\<^verbatim>\<open>worker.rs\<close>) reads the chain at a decision head, settles or
  pushes the lane (\<open>reconcile\<close>), runs an operator's sweep (\<open>sweep\<close>), and, with a mismatch on record,
  takes one step of the recovery (\<open>recover_finality\<close>). Each works on the journal through its
  transactions (\<^verbatim>\<open>journal.rs\<close>, \<^verbatim>\<open>sweep.rs\<close>, \<^verbatim>\<open>health.rs\<close>, \<^verbatim>\<open>audit.rs\<close>) and takes its decisions with pure
  functions (fees, gas, order, health, policy). The configuration bounds what it may pay and how long it waits.

  \<^bold>\<open>Theories, in the order they build on each other.\<close>

  \<^item> \<open>Prelude\<close>: the collections of facts, Rust's \<open>Result\<close>, its integer conversions and saturating
    operators, decimal text, and SQL over a list of rows.
  \<^item> \<open>Json\<close>: the values of the \<^verbatim>\<open>meta\<close> table.
  \<^item> \<open>Store\<close>: the tables of \<^verbatim>\<open>journal.rs\<close> as fields of the record \<open>journal\<close>, their statements and the
    triggers of \<^verbatim>\<open>audit.rs\<close>. A transaction is a function to \<open>error + journal\<close>; an error is the rollback.
  \<^item> \<open>Checkpoint_Spec\<close>, \<open>Lane_Spec\<close>, \<open>Sql_Spec\<close>: the contracts of a checkpoint, of a nonce lane and of a
    \<^verbatim>\<open>LIMIT\<close>, as locales, with what follows from them. \<open>Marks\<close>, \<open>Lane\<close> and \<open>Sql_Spec\<close> interpret them on the
    journal's own operations.
  \<^item> \<open>Marks\<close>, \<open>Lane\<close>, \<open>Jobs\<close>, \<open>Incident\<close>: the operations of \<^verbatim>\<open>journal.rs\<close>: checkpoints and soft marks; signing,
    batches, settlement and the nonce floor; the queue; mismatches, parked and reopened nonces.
  \<^item> \<open>Program\<close>: code that runs several statements outside one transaction, with \<open>keeps\<close> (an invariant
    holds after it, whatever happened) and \<open>does\<close> (it runs through steps of a relation).
  \<^item> \<open>Health\<close>, \<open>Finality\<close>, \<open>Suspicion\<close>, \<open>Sweep\<close>, \<open>Drand\<close>, \<open>Config\<close>, \<open>Fees\<close>, \<open>Policy\<close>: \<^verbatim>\<open>health.rs\<close>, \<^verbatim>\<open>finality.rs\<close>,
    \<^verbatim>\<open>worker/suspicion.rs\<close>, \<^verbatim>\<open>sweep.rs\<close>, \<^verbatim>\<open>drand.rs\<close>, \<^verbatim>\<open>config.rs\<close>, and the fee, gas and tick decisions of \<^verbatim>\<open>worker.rs\<close>.
  \<^item> \<open>Worker\<close>, \<open>Reconcile\<close>, \<open>Transfers\<close>, \<open>Recovery\<close>: the worker of \<^verbatim>\<open>worker.rs\<close>, \<^verbatim>\<open>worker/rounds.rs\<close> and
    \<^verbatim>\<open>worker/recovery.rs\<close>: its chain reads and gates, the lane, the sweep, the recovery. One definition
    per function of the source, as programs on the record \<open>worker\<close>.
  \<^item> \<open>Machine\<close>: the keeper as a step relation.

  \<^bold>\<open>How the code is read.\<close> A \<^verbatim>\<open>u64\<close> or \<^verbatim>\<open>u128\<close> is a \<open>nat\<close> with its bound, its checked, saturating or
  wrapping operation written out where the source uses one; an \<^verbatim>\<open>INTEGER\<close> column is an \<open>int\<close>. An error or a
  panic is a value of \<open>error\<close>. What is outside the process (endpoints, clock, signing key, the packages that
  parse, hash and verify) is a field of \<open>world\<close> or an argument, and each question is put at a moment of
  its own, so that the same question may have two answers. A log line has no counterpart.

  \<^bold>\<open>Bounds and fuel.\<close> No definition uses fuel: the loops of the source run over a list, a bounded number of
  pages (\<open>SCAN_PAGES_PER_TICK\<close>), or an interval that shrinks (\<open>rewind_from\<close> and \<open>live_lower_bound_from\<close>, with their
  termination proofs). A witness evaluates the definitions on a journal of a few rows.

  \<^bold>\<open>Not modelled.\<close> The transport (\<^verbatim>\<open>rpc.rs\<close>'s HTTP and failover, \<^verbatim>\<open>events.rs\<close>, \<^verbatim>\<open>proxy.rs\<close>) and what is
  I/O alone (\<^verbatim>\<open>telegram.rs\<close>, \<^verbatim>\<open>discord.rs\<close>, \<^verbatim>\<open>explorer.rs\<close>, the telemetry publisher, \<^verbatim>\<open>main.rs\<close>, \<^verbatim>\<open>lease.rs\<close>,
  \<^verbatim>\<open>migration.rs\<close>'s file moves): what they answer is an argument of the world. The cryptography (\<^verbatim>\<open>prover.rs\<close>, the
  BLS and VRF libraries) needs field arithmetic the development has no use for elsewhere. The scripted
  chain, the golden traces and the rigs are tests. The deployment scripts are not part of a running keeper.
\<close>

end
